(* ===== verification/Prelude.thy ===== *)
theory Prelude
  imports Complex_Main "HOL-Library.Word" "HOL-Library.Multiset"
begin

text \<open>
  Shared ground of the development: the machine integers, durations and result values the
  Rust sources use, the parts of Rust's standard library that several crates call (string
  trimming and case mapping, decimal and hexadecimal formatting, splitting, comparator based
  sorting), and the lemmas on them that the component theories use.

  Conventions.  A Rust \<open>str\<close> is its UTF-8 byte sequence, a HOL \<open>string\<close> (a list of 8-bit
  \<open>char\<close>s), so \<open>length\<close> is \<open>str::len\<close>.  \<open>usize\<close> is \<open>nat\<close>, the fixed width integers are
  words.  \<open>anyhow::Error\<close> is its message, a \<open>string\<close>; a \<open>Result\<close> is a sum with the error on
  the left.  A \<open>Duration\<close> and an \<open>Instant\<close> are natural numbers of nanoseconds.
\<close>

named_theorems string_simps \<open>evaluation of the string functions of the standard library\<close>
named_theorems model_defs \<open>definitions unfolded when a concrete input is evaluated\<close>

section \<open>Numbers, results, durations\<close>

type_synonym u8 = "8 word"
type_synonym u16 = "16 word"
type_synonym u32 = "32 word"
type_synonym u64 = "64 word"
type_synonym bytes = "u8 list"
type_synonym error = string
type_synonym 'a res = "string + 'a"
type_synonym duration = nat
type_synonym instant = nat

abbreviation Ok :: "'a \<Rightarrow> 'e + 'a" where "Ok \<equiv> Inr"
abbreviation Err :: "'e \<Rightarrow> 'e + 'a" where "Err \<equiv> Inl"

definition from_secs :: "nat \<Rightarrow> duration" where
  "from_secs n = n * 1000000000"

definition from_millis :: "nat \<Rightarrow> duration" where
  "from_millis n = n * 1000000"

definition as_millis :: "duration \<Rightarrow> nat" where
  "as_millis d = d div 1000000"

definition as_secs_f64 :: "duration \<Rightarrow> real" where
  "as_secs_f64 d = real d / 1000000000"

text \<open>\<open>Instant::elapsed\<close> and \<open>saturating_duration_since\<close> both stop at zero.\<close>

definition elapsed :: "instant \<Rightarrow> instant \<Rightarrow> duration" where
  "elapsed now since = now - since"

definition saturating_add :: "'a::len word \<Rightarrow> 'a word \<Rightarrow> 'a word" where
  "saturating_add a b = (if unat a + unat b < 2 ^ LENGTH('a) then a + b else - 1)"

definition saturating_sub :: "'a::len word \<Rightarrow> 'a word \<Rightarrow> 'a word" where
  "saturating_sub a b = (if b \<le> a then a - b else 0)"

fun ok :: "'e + 'a \<Rightarrow> 'a option" where
  "ok (Inl e) = None"
| "ok (Inr a) = Some a"

fun is_ok :: "'e + 'a \<Rightarrow> bool" where
  "is_ok (Inl e) = False"
| "is_ok (Inr a) = True"

abbreviation is_err :: "'e + 'a \<Rightarrow> bool" where
  "is_err r \<equiv> \<not> is_ok r"

fun map_err :: "('e \<Rightarrow> 'f) \<Rightarrow> 'e + 'a \<Rightarrow> 'f + 'a" where
  "map_err f (Inl e) = Inl (f e)"
| "map_err f (Inr a) = Inr a"

text \<open>The \<open>?\<close> operator.\<close>

fun try_then :: "'e + 'a \<Rightarrow> ('a \<Rightarrow> 'e + 'b) \<Rightarrow> 'e + 'b" where
  "try_then (Inl e) f = Inl e"
| "try_then (Inr a) f = f a"

fun ok_or :: "'e \<Rightarrow> 'a option \<Rightarrow> 'e + 'a" where
  "ok_or e None = Inl e"
| "ok_or e (Some a) = Inr a"

fun unwrap_or :: "'a \<Rightarrow> 'a option \<Rightarrow> 'a" where
  "unwrap_or d None = d"
| "unwrap_or d (Some a) = a"

fun or_opt :: "'a option \<Rightarrow> 'a option \<Rightarrow> 'a option" where
  "or_opt None b = b"
| "or_opt (Some a) b = Some a"

definition vec_get :: "'a list \<Rightarrow> nat \<Rightarrow> 'a option" where
  "vec_get xs i = (if i < length xs then Some (xs ! i) else None)"

text \<open>A loop over fallible items that stops at the first error (\<open>for \<dots> ?\<close>).\<close>

fun try_map :: "('a \<Rightarrow> 'e + 'b) \<Rightarrow> 'a list \<Rightarrow> 'e + 'b list" where
  "try_map f [] = Inr []"
| "try_map f (x # xs) = try_then (f x) (\<lambda>y. try_then (try_map f xs) (\<lambda>ys. Inr (y # ys)))"

lemma try_then_Inr_iff [simp]:
  "try_then r f = Inr b \<longleftrightarrow> (\<exists>a. r = Inr a \<and> f a = Inr b)"
  by (cases r) auto

lemma try_then_Inl_iff:
  "try_then r f = Inl e \<longleftrightarrow> r = Inl e \<or> (\<exists>a. r = Inr a \<and> f a = Inl e)"
  by (cases r) auto

lemma map_err_Inr_iff [simp]: "map_err f r = Inr a \<longleftrightarrow> r = Inr a"
  by (cases r) auto

lemma ok_or_Inr_iff [simp]: "ok_or e x = Inr a \<longleftrightarrow> x = Some a"
  by (cases x) auto

lemma ok_Some_iff [simp]: "ok r = Some a \<longleftrightarrow> r = Inr a"
  by (cases r) auto

lemma ok_None_iff: "ok r = None \<longleftrightarrow> (\<exists>e. r = Inl e)"
  by (cases r) auto

lemma is_ok_iff: "is_ok r \<longleftrightarrow> (\<exists>a. r = Inr a)"
  by (cases r) auto

lemma try_map_Inr_iff:
  "try_map f xs = Inr ys \<longleftrightarrow> list_all2 (\<lambda>x y. f x = Inr y) xs ys"
  by (induction xs arbitrary: ys) (auto simp: list_all2_Cons1)

lemma try_map_length: "try_map f xs = Inr ys \<Longrightarrow> length ys = length xs"
  by (simp add: try_map_Inr_iff list_all2_lengthD)

lemma vec_get_Some_iff: "vec_get xs i = Some x \<longleftrightarrow> i < length xs \<and> xs ! i = x"
  by (auto simp: vec_get_def)

lemma vec_get_None_iff: "vec_get xs i = None \<longleftrightarrow> length xs \<le> i"
  by (auto simp: vec_get_def)

lemma vec_get_mem: "vec_get xs i = Some x \<Longrightarrow> x \<in> set xs"
  by (auto simp: vec_get_Some_iff)

lemma unat_saturating_add:
  "unat (saturating_add (a :: 'a::len word) b) = min (unat a + unat b) (2 ^ LENGTH('a) - 1)"
proof (cases "unat a + unat b < 2 ^ LENGTH('a)")
  case True
  then show ?thesis by (simp add: saturating_add_def unat_word_ariths)
next
  case False
  then show ?thesis by (simp add: saturating_add_def unsigned_minus_1_eq_mask mask_eq_exp_minus_1)
qed

lemma unat_saturating_sub: "unat (saturating_sub (a :: 'a::len word) b) = unat a - unat b"
  by (auto simp: saturating_sub_def unat_sub word_le_nat_alt)

section \<open>Comparators and sorting\<close>

datatype ordering = Less | Equal | Greater

fun then_with :: "ordering \<Rightarrow> ordering \<Rightarrow> ordering" where
  "then_with Equal o2 = o2"
| "then_with o1 o2 = o1"

definition cmp :: "'a::linorder \<Rightarrow> 'a \<Rightarrow> ordering" where
  "cmp a b = (if a < b then Less else if a = b then Equal else Greater)"

text \<open>
  \<open>slice::sort_by\<close> is stable; insertion from the right that never moves an element past an
  equal one computes the same list for every comparator that is a total preorder.
\<close>

fun insert_by :: "('a \<Rightarrow> 'a \<Rightarrow> ordering) \<Rightarrow> 'a \<Rightarrow> 'a list \<Rightarrow> 'a list" where
  "insert_by c x [] = [x]"
| "insert_by c x (y # ys) = (if c x y = Greater then y # insert_by c x ys else x # y # ys)"

fun sort_by :: "('a \<Rightarrow> 'a \<Rightarrow> ordering) \<Rightarrow> 'a list \<Rightarrow> 'a list" where
  "sort_by c [] = []"
| "sort_by c (x # xs) = insert_by c x (sort_by c xs)"

lemma mset_insert_by [simp]: "mset (insert_by c x xs) = add_mset x (mset xs)"
  by (induction xs) auto

lemma mset_sort_by [simp]: "mset (sort_by c xs) = mset xs"
  by (induction xs) auto

lemma set_sort_by [simp]: "set (sort_by c xs) = set xs"
  by (rule mset_eq_setD) simp

lemma length_sort_by [simp]: "length (sort_by c xs) = length xs"
  by (rule mset_eq_length) simp

lemma sort_by_Nil_iff [simp]: "sort_by c xs = [] \<longleftrightarrow> xs = []"
  by (metis length_0_conv length_sort_by)

text \<open>
  The contract of a comparator closure: no element is after itself and after another at once,
  and "not after" is transitive.  Every sort of the program is an interpretation.
\<close>

locale comparator =
  fixes c :: "'a \<Rightarrow> 'a \<Rightarrow> ordering"
  assumes total: "c x y = Greater \<Longrightarrow> c y x = Less"
    and trans: "c x y \<noteq> Greater \<Longrightarrow> c y z \<noteq> Greater \<Longrightarrow> c x z \<noteq> Greater"
begin

lemma sorted_insert_by:
  assumes "sorted_wrt (\<lambda>a b. c a b \<noteq> Greater) ys"
  shows "sorted_wrt (\<lambda>a b. c a b \<noteq> Greater) (insert_by c x ys)"
  using assms
proof (induction ys)
  case Nil
  then show ?case by simp
next
  case (Cons y ys)
  have set_ins: "set (insert_by c x ys) = insert x (set ys)"
    by (metis mset_insert_by set_mset_add_mset_insert set_mset_mset)
  show ?case
  proof (cases "c x y = Greater")
    case True
    then have "c y x \<noteq> Greater" using total by force
    with True Cons show ?thesis by (auto simp: set_ins)
  next
    case False
    with Cons.prems show ?thesis using trans[of x y] by auto
  qed
qed

lemma sorted_sort_by: "sorted_wrt (\<lambda>a b. c a b \<noteq> Greater) (sort_by c xs)"
  by (induction xs) (simp_all add: sorted_insert_by)

lemma sort_by_hd_least:
  assumes "sort_by c xs = best # rest" and "x \<in> set xs"
  shows "c best x \<noteq> Greater"
proof -
  have "x \<in> set (best # rest)" using assms by (metis set_sort_by)
  moreover have "sorted_wrt (\<lambda>a b. c a b \<noteq> Greater) (best # rest)"
    using sorted_sort_by[of xs] assms(1) by simp
  moreover have "c best best \<noteq> Greater" using total[of best best] by auto
  ultimately show ?thesis by auto
qed

lemma sort_by_take_least:
  assumes "x \<in> set (take n (sort_by c xs))" and "y \<in> set (drop n (sort_by c xs))"
  shows "c x y \<noteq> Greater"
proof -
  have "sorted_wrt (\<lambda>a b. c a b \<noteq> Greater) (take n (sort_by c xs) @ drop n (sort_by c xs))"
    by (simp only: append_take_drop_id sorted_sort_by)
  with assms show ?thesis unfolding sorted_wrt_append by blast
qed

end

text \<open>Comparators built the way the sources build them: a key, a reversal, a tie breaker.\<close>

lemma comparator_key: "comparator (\<lambda>a b. cmp (f a) (f b :: 'k::linorder))"
  by unfold_locales (auto simp: cmp_def split: if_splits)

lemma comparator_reverse:
  assumes "comparator c"
  shows "comparator (\<lambda>a b. c b a)"
proof -
  have tot: "c x y = Greater \<Longrightarrow> c y x = Less" for x y
    using assms by (rule comparator.total)
  have tr: "c x y \<noteq> Greater \<Longrightarrow> c y z \<noteq> Greater \<Longrightarrow> c x z \<noteq> Greater" for x y z
    using assms by (rule comparator.trans)
  show ?thesis
  proof
    fix x y assume "c y x = Greater" then show "c x y = Less" by (rule tot)
  next
    fix x y z assume "c y x \<noteq> Greater" "c z y \<noteq> Greater"
    then show "c z x \<noteq> Greater" using tr[of z y x] by simp
  qed
qed

text \<open>
  A tie breaker needs "equal" to be a congruence: \<open>exact\<close> comparators answer \<open>Less\<close> exactly
  when the swapped call answers \<open>Greater\<close>.
\<close>

locale exact_comparator = comparator +
  assumes less_iff: "c x y = Less \<longleftrightarrow> c y x = Greater"

lemma exact_key: "exact_comparator (\<lambda>a b. cmp (f a) (f b :: 'k::linorder))"
  by unfold_locales (auto simp: cmp_def split: if_splits)

lemma exact_reverse:
  assumes "exact_comparator c"
  shows "exact_comparator (\<lambda>a b. c b a)"
proof -
  have "comparator (\<lambda>a b. c b a)"
    using assms comparator_reverse exact_comparator.axioms(1) by blast
  moreover have "c x y = Less \<longleftrightarrow> c y x = Greater" for x y
    using assms by (rule exact_comparator.less_iff)
  ultimately show ?thesis by (simp add: exact_comparator_def exact_comparator_axioms_def)
qed

lemma exact_then:
  assumes "exact_comparator c" and "exact_comparator d"
  shows "exact_comparator (\<lambda>a b. then_with (c a b) (d a b))"
proof -
  have c_less: "c x y = Less \<longleftrightarrow> c y x = Greater" for x y
    using assms(1) by (rule exact_comparator.less_iff)
  have d_less: "d x y = Less \<longleftrightarrow> d y x = Greater" for x y
    using assms(2) by (rule exact_comparator.less_iff)
  have c_eq: "c x y = Equal \<longleftrightarrow> c y x = Equal" for x y
    by (metis (full_types) c_less ordering.exhaust)
  have c_tr: "c x y \<noteq> Greater \<Longrightarrow> c y z \<noteq> Greater \<Longrightarrow> c x z \<noteq> Greater" for x y z
    using exact_comparator.axioms(1)[OF assms(1)] by (rule comparator.trans)
  have d_tr: "d x y \<noteq> Greater \<Longrightarrow> d y z \<noteq> Greater \<Longrightarrow> d x z \<noteq> Greater" for x y z
    using exact_comparator.axioms(1)[OF assms(2)] by (rule comparator.trans)
  have tw: "then_with o1 o2 = Less \<longleftrightarrow> o1 = Less \<or> o1 = Equal \<and> o2 = Less"
    "then_with o1 o2 = Greater \<longleftrightarrow> o1 = Greater \<or> o1 = Equal \<and> o2 = Greater" for o1 o2
    by (cases o1; simp)+
  have c_eq_tr: "c x y = Equal \<and> c y z = Equal"
    if "c x z = Equal" "c x y \<noteq> Greater" "c y z \<noteq> Greater" for x y z
  proof -
    have zx: "c z x \<noteq> Greater" using that(1) c_eq[of x z] by simp
    have "c y x \<noteq> Greater" using c_tr[OF that(3) zx] .
    moreover have "c z y \<noteq> Greater" using c_tr[OF zx that(2)] .
    ultimately show ?thesis using that c_less[of x y] c_less[of y z]
      by (cases "c x y"; cases "c y z") simp_all
  qed
  show ?thesis
  proof (unfold_locales, goal_cases)
    case (1 x y)
    then show ?case using c_less[of y x] d_less[of y x] c_eq[of x y] by (auto simp: tw)
  next
    case (2 x y z)
    have "c x y \<noteq> Greater" "c y z \<noteq> Greater" using 2 by (simp_all add: tw)
    moreover from this have "c x z \<noteq> Greater" by (rule c_tr)
    ultimately show ?case using 2 d_tr[of x y z] c_eq_tr[of x z y] by (auto simp: tw)
  next
    case (3 x y)
    then show ?case using c_less[of x y] d_less[of x y] c_eq[of x y] by (auto simp: tw)
  qed
qed

lemmas exact_intros = exact_key exact_reverse exact_then

lemma exact_imp_comparator: "exact_comparator c \<Longrightarrow> comparator c"
  by (rule exact_comparator.axioms(1))

section \<open>Lists\<close>

lemma distinct_filter_upt [simp]: "distinct (filter P [0..<n])"
  by simp

lemma find_Some_mem: "find P xs = Some x \<Longrightarrow> x \<in> set xs \<and> P x"
  by (induction xs) (auto split: if_splits)

lemma find_None_all: "find P xs = None \<Longrightarrow> x \<in> set xs \<Longrightarrow> \<not> P x"
  by (induction xs) (auto split: if_splits)

lemma set_take_D: "x \<in> set (take n xs) \<Longrightarrow> x \<in> set xs"
  by (meson in_set_takeD)

end
