(* ===== verification/Rust_Str.thy ===== *)
theory Rust_Str
  imports Prelude
begin

text \<open>
  The string functions of Rust's standard library that the crates call, on the UTF-8 bytes of
  a string: Unicode white space trimming, ASCII case mapping, searching and splitting, and the
  decimal and hexadecimal formatting and parsing of unsigned integers with the round trip
  lemmas the address and ruleset theories use.
\<close>

section \<open>Characters\<close>

abbreviation byte_of :: "char \<Rightarrow> nat" where
  "byte_of c \<equiv> of_char c"

definition is_ascii_uppercase :: "char \<Rightarrow> bool" where
  "is_ascii_uppercase c = (65 \<le> byte_of c \<and> byte_of c \<le> 90)"

definition is_ascii_lowercase :: "char \<Rightarrow> bool" where
  "is_ascii_lowercase c = (97 \<le> byte_of c \<and> byte_of c \<le> 122)"

definition is_ascii_digit :: "char \<Rightarrow> bool" where
  "is_ascii_digit c = (48 \<le> byte_of c \<and> byte_of c \<le> 57)"

definition is_ascii_alphanumeric :: "char \<Rightarrow> bool" where
  "is_ascii_alphanumeric c = (is_ascii_uppercase c \<or> is_ascii_lowercase c \<or> is_ascii_digit c)"

text \<open>\<open>u8::is_ascii_whitespace\<close>: space, tab, line feed, form feed, carriage return.\<close>

definition is_ascii_whitespace :: "char \<Rightarrow> bool" where
  "is_ascii_whitespace c = (byte_of c = 32 \<or> byte_of c = 9 \<or> byte_of c = 10 \<or>
     byte_of c = 12 \<or> byte_of c = 13)"

definition ascii_lower :: "char \<Rightarrow> char" where
  "ascii_lower c = (if is_ascii_uppercase c then char_of (byte_of c + 32) else c)"

definition to_ascii_lowercase :: "string \<Rightarrow> string" where
  "to_ascii_lowercase s = map ascii_lower s"

lemma byte_of_ascii_lower:
  "byte_of (ascii_lower c) = (if is_ascii_uppercase c then byte_of c + 32 else byte_of c)"
proof -
  have "byte_of c + 32 < 256" if "is_ascii_uppercase c"
    using that by (simp add: is_ascii_uppercase_def)
  then show ?thesis by (simp add: ascii_lower_def)
qed

lemma ascii_lower_idem [simp]: "ascii_lower (ascii_lower c) = ascii_lower c"
proof (cases "is_ascii_uppercase c")
  case True
  then have "byte_of (ascii_lower c) = byte_of c + 32" by (simp add: byte_of_ascii_lower)
  then have "\<not> is_ascii_uppercase (ascii_lower c)"
    using True by (simp add: is_ascii_uppercase_def)
  then show ?thesis by (simp add: ascii_lower_def)
next
  case False
  then show ?thesis by (simp add: ascii_lower_def)
qed

lemma to_ascii_lowercase_idem [simp]:
  "to_ascii_lowercase (to_ascii_lowercase s) = to_ascii_lowercase s"
  by (simp add: to_ascii_lowercase_def)

lemma length_to_ascii_lowercase [simp]: "length (to_ascii_lowercase s) = length s"
  by (simp add: to_ascii_lowercase_def)

lemma to_ascii_lowercase_Nil_iff [simp]: "to_ascii_lowercase s = [] \<longleftrightarrow> s = []"
  by (simp add: to_ascii_lowercase_def)

section \<open>White space\<close>

text \<open>
  The number of bytes of the white space character at the front of a string, 0 when the string
  does not start with one: the Unicode \<open>White_Space\<close> characters (U+0009..U+000D, U+0020,
  U+0085, U+00A0, U+1680, U+2000..U+200A, U+2028, U+2029, U+202F, U+205F, U+3000) in UTF-8.
\<close>

fun ws3 :: "nat \<Rightarrow> nat \<Rightarrow> nat \<Rightarrow> bool" where
  "ws3 a b c = ((a = 0xE1 \<and> b = 0x9A \<and> c = 0x80)
     \<or> (a = 0xE2 \<and> b = 0x80 \<and> (0x80 \<le> c \<and> c \<le> 0x8A \<or> c = 0xA8 \<or> c = 0xA9 \<or> c = 0xAF))
     \<or> (a = 0xE2 \<and> b = 0x81 \<and> c = 0x9F)
     \<or> (a = 0xE3 \<and> b = 0x80 \<and> c = 0x80))"

definition ws1 :: "nat \<Rightarrow> bool" where
  "ws1 a = (9 \<le> a \<and> a \<le> 13 \<or> a = 32)"

definition ws2 :: "nat \<Rightarrow> nat \<Rightarrow> bool" where
  "ws2 a b = (a = 0xC2 \<and> (b = 0x85 \<or> b = 0xA0))"

fun ws_len :: "string \<Rightarrow> nat" where
  "ws_len (a # b # c # s) =
     (if ws1 (byte_of a) then 1 else if ws2 (byte_of a) (byte_of b) then 2
      else if ws3 (byte_of a) (byte_of b) (byte_of c) then 3 else 0)"
| "ws_len (a # b # []) =
     (if ws1 (byte_of a) then 1 else if ws2 (byte_of a) (byte_of b) then 2 else 0)"
| "ws_len (a # []) = (if ws1 (byte_of a) then 1 else 0)"
| "ws_len [] = 0"

lemma ws_len_le: "ws_len s \<le> length s"
  by (cases s rule: ws_len.cases) auto

fun contains_ws :: "string \<Rightarrow> bool" where
  "contains_ws [] = False"
| "contains_ws (c # s) = (0 < ws_len (c # s) \<or> contains_ws s)"

function trim_start :: "string \<Rightarrow> string" where
  "trim_start s = (if 0 < ws_len s then trim_start (drop (ws_len s) s) else s)"
  by pat_completeness auto
termination
proof (relation "measure length", goal_cases)
  case (2 s)
  then have "s \<noteq> []" by auto
  with 2 show ?case by simp
qed simp

declare trim_start.simps [simp del]

text \<open>The number of bytes of a white space character at the end.\<close>

definition ws_len_end :: "string \<Rightarrow> nat" where
  "ws_len_end s =
     (if s \<noteq> [] \<and> ws_len (drop (length s - 1) s) = 1 then 1
      else if 2 \<le> length s \<and> ws_len (drop (length s - 2) s) = 2 then 2
      else if 3 \<le> length s \<and> ws_len (drop (length s - 3) s) = 3 then 3 else 0)"

lemma ws_len_end_le: "ws_len_end s \<le> length s"
  by (cases s) (auto simp: ws_len_end_def)

function trim_end :: "string \<Rightarrow> string" where
  "trim_end s = (if 0 < ws_len_end s then trim_end (take (length s - ws_len_end s) s) else s)"
  by pat_completeness auto
termination
proof (relation "measure length", goal_cases)
  case (2 s)
  then have "s \<noteq> []" by (auto simp: ws_len_end_def)
  with 2 show ?case by (cases s) auto
qed simp

declare trim_end.simps [simp del]

definition trim :: "string \<Rightarrow> string" where
  "trim s = trim_end (trim_start s)"

text \<open>\<open>text.chars().filter(|c| !c.is_whitespace())\<close>\<close>

function remove_ws :: "string \<Rightarrow> string" where
  "remove_ws [] = []"
| "remove_ws (c # s) =
     (if 0 < ws_len (c # s) then remove_ws (drop (ws_len (c # s)) (c # s)) else c # remove_ws s)"
  by pat_completeness auto
termination by (relation "measure length") auto

definition trim_end_matches :: "char \<Rightarrow> string \<Rightarrow> string" where
  "trim_end_matches c s = rev (dropWhile (\<lambda>x. x = c) (rev s))"

definition trim_start_matches :: "char \<Rightarrow> string \<Rightarrow> string" where
  "trim_start_matches c s = dropWhile (\<lambda>x. x = c) s"

lemma contains_ws_drop: "contains_ws (drop n s) \<Longrightarrow> contains_ws s"
  by (induction s arbitrary: n) (auto simp: drop_Cons split: nat.splits)

lemma ws_len_pos_contains: "0 < ws_len s \<Longrightarrow> contains_ws s"
  by (cases s) auto

lemma trim_start_id: "\<not> contains_ws s \<Longrightarrow> trim_start s = s"
  using ws_len_pos_contains[of s] by (subst trim_start.simps) auto

lemma ws_len_end_contains:
  assumes "0 < ws_len_end s"
  shows "contains_ws s"
proof -
  have "ws_len (drop (length s - 1) s) = 1 \<or> ws_len (drop (length s - 2) s) = 2 \<or>
      ws_len (drop (length s - 3) s) = 3"
    using assms by (auto simp: ws_len_end_def split: if_splits)
  then have "\<exists>n. 0 < ws_len (drop n s)"
    by (metis zero_less_numeral zero_less_one)
  then show ?thesis using ws_len_pos_contains contains_ws_drop by blast
qed

lemma trim_id: "\<not> contains_ws s \<Longrightarrow> trim s = s"
  using ws_len_end_contains[of s]
  by (simp add: trim_def trim_start_id) (subst trim_end.simps, auto)

lemma trim_end_matches_idem [simp]:
  "trim_end_matches c (trim_end_matches c s) = trim_end_matches c s"
  by (simp add: trim_end_matches_def dropWhile_idem)

lemma trim_end_matches_last: "s \<noteq> [] \<Longrightarrow> last s \<noteq> c \<Longrightarrow> trim_end_matches c s = s"
  by (cases s rule: rev_cases) (auto simp: trim_end_matches_def)

lemma last_trim_end_matches: "trim_end_matches c s \<noteq> [] \<Longrightarrow> last (trim_end_matches c s) \<noteq> c"
  using hd_dropWhile[of "\<lambda>x. x = c" "rev s"] by (simp add: trim_end_matches_def last_rev)

section \<open>Searching and splitting\<close>

definition starts_with :: "string \<Rightarrow> string \<Rightarrow> bool" where
  "starts_with p s = (take (length p) s = p)"

fun contains_str :: "string \<Rightarrow> string \<Rightarrow> bool" where
  "contains_str p [] = (p = [])"
| "contains_str p (c # s) = (starts_with p (c # s) \<or> contains_str p s)"

text \<open>\<open>str::find\<close> of a pattern: the byte offset of its first occurrence.\<close>

fun find_str :: "string \<Rightarrow> string \<Rightarrow> nat option" where
  "find_str p [] = (if p = [] then Some 0 else None)"
| "find_str p (c # s) = (if starts_with p (c # s) then Some 0 else map_option Suc (find_str p s))"

definition split_once :: "string \<Rightarrow> string \<Rightarrow> (string \<times> string) option" where
  "split_once p s = (case find_str p s of None \<Rightarrow> None
     | Some i \<Rightarrow> Some (take i s, drop (i + length p) s))"

fun split_char :: "char \<Rightarrow> string \<Rightarrow> string list" where
  "split_char c [] = [[]]"
| "split_char c (x # s) =
     (if x = c then [] # split_char c s
      else (case split_char c s of [] \<Rightarrow> [[x]] | w # ws \<Rightarrow> (x # w) # ws))"

text \<open>
  \<open>str::lines\<close>: split after each line feed, drop it and a carriage return before it; a last
  piece that is empty is no line.
\<close>

definition strip_cr :: "string \<Rightarrow> string" where
  "strip_cr l = (if l \<noteq> [] \<and> last l = CHR 13 then butlast l else l)"

definition lines :: "string \<Rightarrow> string list" where
  "lines s = (let ws = split_char (CHR 10) s
     in map strip_cr (butlast ws) @ (if last ws = [] then [] else [last ws]))"

fun join :: "string \<Rightarrow> string list \<Rightarrow> string" where
  "join sep [] = []"
| "join sep [x] = x"
| "join sep (x # y # xs) = x @ sep @ join sep (y # xs)"

lemma contains_str_iff: "contains_str p s \<longleftrightarrow> (\<exists>a b. s = a @ p @ b)"
proof (induction s)
  case Nil
  then show ?case by simp
next
  case (Cons c s)
  have "starts_with p (c # s) \<longleftrightarrow> (\<exists>b. c # s = p @ b)"
    unfolding starts_with_def by (metis append_eq_conv_conj append_take_drop_id)
  with Cons show ?case by (metis append_Cons append_Nil contains_str.simps(2) list.inject neq_Nil_conv)
qed

section \<open>Formatting and parsing of unsigned integers\<close>

definition digit_char :: "nat \<Rightarrow> char" where
  "digit_char d = (if d < 10 then char_of (48 + d) else char_of (87 + d))"

definition to_digit :: "nat \<Rightarrow> char \<Rightarrow> nat option" where
  "to_digit radix c =
     (let v = (if is_ascii_digit c then byte_of c - 48
               else if is_ascii_lowercase c then byte_of c - 87
               else if is_ascii_uppercase c then byte_of c - 55 else radix)
      in if v < radix then Some v else None)"

function show_radix :: "nat \<Rightarrow> nat \<Rightarrow> string" where
  "show_radix b n = (if n < b \<or> b < 2 then [digit_char n]
     else show_radix b (n div b) @ [digit_char (n mod b)])"
  by pat_completeness auto
termination by (relation "measure snd") auto

declare show_radix.simps [simp del]

definition show_nat :: "nat \<Rightarrow> string" where
  "show_nat n = show_radix 10 n"

text \<open>\<open>format!("{:#x}")\<close>\<close>

definition show_hex :: "nat \<Rightarrow> string" where
  "show_hex n = ''0x'' @ show_radix 16 n"

fun parse_digits :: "nat \<Rightarrow> nat \<Rightarrow> string \<Rightarrow> nat option" where
  "parse_digits b acc [] = Some acc"
| "parse_digits b acc (c # s) = (case to_digit b c of None \<Rightarrow> None
     | Some d \<Rightarrow> parse_digits b (acc * b + d) s)"

text \<open>
  \<open>str::parse\<close> (\<open>from_str_radix\<close>) for an unsigned type with maximum \<open>mx\<close>: an optional plus
  sign, at least one digit, no overflow.
\<close>

definition parse_uint :: "nat \<Rightarrow> nat \<Rightarrow> string \<Rightarrow> nat option" where
  "parse_uint b mx s =
     (let t = (case s of c # r \<Rightarrow> if c = CHR ''+'' then r else s | [] \<Rightarrow> [])
      in if t = [] then None
         else case parse_digits b 0 t of None \<Rightarrow> None
              | Some n \<Rightarrow> if n \<le> mx then Some n else None)"

lemma to_digit_digit_char:
  assumes "d < b" "b \<le> 16"
  shows "to_digit b (digit_char d) = Some d"
proof -
  have "d < 16" using assms by simp
  then have "d \<in> {0..<16}" by simp
  then show ?thesis using assms
    by (auto simp: to_digit_def digit_char_def is_ascii_digit_def is_ascii_lowercase_def
        is_ascii_uppercase_def Let_def)
qed

lemma parse_digits_append:
  "parse_digits b acc (s @ t) =
     (case parse_digits b acc s of None \<Rightarrow> None | Some a \<Rightarrow> parse_digits b a t)"
  by (induction s arbitrary: acc) (auto split: option.splits)

lemma show_radix_nonempty [simp]: "show_radix b n \<noteq> []"
  by (subst show_radix.simps) simp

lemma parse_show_radix:
  assumes "2 \<le> b" "b \<le> 16"
  shows "parse_digits b 0 (show_radix b n) = Some n"
  using assms
proof (induction b n rule: show_radix.induct)
  case (1 b n)
  show ?case
  proof (cases "n < b")
    case True
    with 1 show ?thesis by (subst show_radix.simps) (simp add: to_digit_digit_char)
  next
    case False
    with 1 have "parse_digits b 0 (show_radix b (n div b)) = Some (n div b)" by simp
    moreover have "n mod b < b" using 1 by simp
    ultimately show ?thesis using False 1
      by (subst show_radix.simps) (simp add: parse_digits_append to_digit_digit_char)
  qed
qed

lemma digit_char_digit: "d < 10 \<Longrightarrow> is_ascii_digit (digit_char d)"
  by (simp add: digit_char_def is_ascii_digit_def)

lemma show_nat_digits: "\<forall>c \<in> set (show_nat n). is_ascii_digit c"
proof -
  have "b = 10 \<Longrightarrow> \<forall>c \<in> set (show_radix b n). is_ascii_digit c" for b
  proof (induction b n rule: show_radix.induct)
    case (1 b n)
    then show ?case by (subst show_radix.simps) (auto simp: digit_char_digit)
  qed
  then show ?thesis by (simp add: show_nat_def)
qed

lemma parse_show_nat: "parse_digits 10 0 (show_nat n) = Some n"
  by (simp add: show_nat_def parse_show_radix)

lemma show_nat_nonempty [simp]: "show_nat n \<noteq> []"
  by (simp add: show_nat_def)

lemma parse_uint_show_nat: "n \<le> mx \<Longrightarrow> parse_uint 10 mx (show_nat n) = Some n"
proof -
  have "hd (show_nat n) \<noteq> CHR ''+''"
    using show_nat_digits[of n] show_nat_nonempty[of n]
    by (cases "show_nat n") (auto simp: is_ascii_digit_def)
  then have "(case show_nat n of c # r \<Rightarrow> if c = CHR ''+'' then r else show_nat n | [] \<Rightarrow> []) = show_nat n"
    by (cases "show_nat n") auto
  then show "n \<le> mx \<Longrightarrow> parse_uint 10 mx (show_nat n) = Some n"
    by (simp add: parse_uint_def Let_def parse_show_nat)
qed

lemma show_nat_inj: "show_nat m = show_nat n \<longleftrightarrow> m = n"
  using parse_show_nat by (metis option.inject)

lemma show_hex_inj: "show_hex m = show_hex n \<longleftrightarrow> m = n"
  using parse_show_radix[of 16] by (simp add: show_hex_def) (metis option.inject)

end
