(* ===== verification/Net_Addr.thy ===== *)
theory Net_Addr
  imports Rust_Str
begin

text \<open>
  \<open>std::net\<close>: IPv4 and IPv6 addresses, their \<open>Display\<close> and \<open>FromStr\<close>, and socket addresses.
  The address parser follows the standard library's recursive descent parser: greedy digit runs
  with a length limit, no leading zeros in IPv4 octets, an embedded IPv4 tail and one \<open>::\<close> in
  IPv6.  The IPv4 round trip is proved; the data model and the parser crate rely on it.
\<close>

type_synonym ipv4 = "32 word"
type_synonym ipv6 = "128 word"

datatype ip_addr = V4 ipv4 | V6 ipv6

datatype socket_addr = SocketAddr (sa_ip: ip_addr) (sa_port: u16)

section \<open>Display\<close>

definition octets_v4 :: "ipv4 \<Rightarrow> nat list" where
  "octets_v4 a = (let n = unat a in
     [n div 2 ^ 24, n div 2 ^ 16 mod 256, n div 2 ^ 8 mod 256, n mod 256])"

definition segments_v6 :: "ipv6 \<Rightarrow> nat list" where
  "segments_v6 a = map (\<lambda>i. unat a div 2 ^ (16 * (7 - i)) mod 2 ^ 16) [0..<8]"

definition show_ipv4 :: "ipv4 \<Rightarrow> string" where
  "show_ipv4 a = join ''.'' (map show_nat (octets_v4 a))"

text \<open>The length of the run of zero segments at each position; the first longest one is compressed.\<close>

fun zero_run :: "nat list \<Rightarrow> nat" where
  "zero_run [] = 0"
| "zero_run (x # xs) = (if x = 0 then Suc (zero_run xs) else 0)"

fun longest_zeros :: "nat \<Rightarrow> nat list \<Rightarrow> nat \<times> nat \<Rightarrow> nat \<times> nat" where
  "longest_zeros i [] best = best"
| "longest_zeros i (x # xs) best =
     longest_zeros (Suc i) xs (if zero_run (x # xs) > snd best then (i, zero_run (x # xs)) else best)"

definition show_ipv6 :: "ipv6 \<Rightarrow> string" where
  "show_ipv6 a =
     (let gs = segments_v6 a; hex = map (show_radix 16) in
      if take 6 gs = [0, 0, 0, 0, 0, 0xffff]
      then ''::ffff:'' @ show_ipv4 (word_of_nat (unat a mod 2 ^ 32))
      else let (start, len) = longest_zeros 0 gs (0, 0) in
        if 1 < len
        then join '':'' (hex (take start gs)) @ ''::'' @ join '':'' (hex (drop (start + len) gs))
        else join '':'' (hex gs))"

fun show_ip :: "ip_addr \<Rightarrow> string" where
  "show_ip (V4 a) = show_ipv4 a"
| "show_ip (V6 a) = show_ipv6 a"

section \<open>FromStr\<close>

text \<open>
  \<open>read_number\<close>: a greedy run of digits, an error when it is empty, longer than \<open>md\<close>, has a
  leading zero where none is allowed, or exceeds \<open>mx\<close>.
\<close>

definition read_number :: "nat \<Rightarrow> nat \<Rightarrow> bool \<Rightarrow> nat \<Rightarrow> string \<Rightarrow> (nat \<times> string) option" where
  "read_number radix md zero_ok mx s =
     (let ds = takeWhile (\<lambda>c. to_digit radix c \<noteq> None) s; r = dropWhile (\<lambda>c. to_digit radix c \<noteq> None) s
      in if ds = [] \<or> md < length ds \<or> (\<not> zero_ok \<and> hd ds = CHR ''0'' \<and> 1 < length ds) then None
         else case parse_digits radix 0 ds of None \<Rightarrow> None
              | Some n \<Rightarrow> if n \<le> mx then Some (n, r) else None)"

definition read_char :: "char \<Rightarrow> string \<Rightarrow> string option" where
  "read_char c s = (case s of [] \<Rightarrow> None | x # r \<Rightarrow> if x = c then Some r else None)"

text \<open>\<open>read_separator\<close>: the separator is required before every group but the first.\<close>

definition read_separator ::
    "char \<Rightarrow> nat \<Rightarrow> (string \<Rightarrow> ('a \<times> string) option) \<Rightarrow> string \<Rightarrow> ('a \<times> string) option" where
  "read_separator c i p s =
     (if i = 0 then p s else case read_char c s of None \<Rightarrow> None | Some r \<Rightarrow> p r)"

abbreviation read_octet :: "string \<Rightarrow> (nat \<times> string) option" where
  "read_octet \<equiv> read_number 10 3 False 255"

fun read_octets :: "nat \<Rightarrow> nat \<Rightarrow> string \<Rightarrow> (nat list \<times> string) option" where
  "read_octets 0 i s = Some ([], s)"
| "read_octets (Suc k) i s = (case read_separator (CHR ''.'') i read_octet s of None \<Rightarrow> None
     | Some (o1, r) \<Rightarrow> (case read_octets k (Suc i) r of None \<Rightarrow> None
        | Some (os, r') \<Rightarrow> Some (o1 # os, r')))"

definition v4_of_octets :: "nat list \<Rightarrow> ipv4" where
  "v4_of_octets os = word_of_nat (foldl (\<lambda>acc x. acc * 256 + x) 0 os)"

definition read_ipv4 :: "string \<Rightarrow> (ipv4 \<times> string) option" where
  "read_ipv4 s = map_option (\<lambda>(os, r). (v4_of_octets os, r)) (read_octets 4 0 s)"

text \<open>
  \<open>read_groups\<close> with \<open>k\<close> slots left, at group \<open>i\<close>: an IPv4 tail is tried first while two slots
  are left.  The result is the groups read, whether they end in an IPv4 address, and the rest.
\<close>

fun read_groups :: "nat \<Rightarrow> nat \<Rightarrow> string \<Rightarrow> nat list \<times> bool \<times> string" where
  "read_groups 0 i s = ([], False, s)"
| "read_groups (Suc k) i s =
     (case (if 1 \<le> k then read_separator (CHR '':'') i read_ipv4 s else None) of
        Some (a, r) \<Rightarrow> ([unat a div 2 ^ 16, unat a mod 2 ^ 16], True, r)
      | None \<Rightarrow>
         (case read_separator (CHR '':'') i (read_number 16 4 True 65535) s of
            None \<Rightarrow> ([], False, s)
          | Some (g, r) \<Rightarrow> (case read_groups k (Suc i) r of (gs, v4, r') \<Rightarrow> (g # gs, v4, r'))))"

definition v6_of_segments :: "nat list \<Rightarrow> ipv6" where
  "v6_of_segments gs = word_of_nat (foldl (\<lambda>acc x. acc * 65536 + x) 0 gs)"

definition read_ipv6 :: "string \<Rightarrow> (ipv6 \<times> string) option" where
  "read_ipv6 s =
     (case read_groups 8 0 s of (head, head_v4, r) \<Rightarrow>
        if length head = 8 then Some (v6_of_segments head, r)
        else if head_v4 then None
        else case read_char (CHR '':'') r of None \<Rightarrow> None | Some r1 \<Rightarrow>
             (case read_char (CHR '':'') r1 of None \<Rightarrow> None | Some r2 \<Rightarrow>
               (case read_groups (7 - length head) 0 r2 of (tail, _, r3) \<Rightarrow>
                  Some (v6_of_segments (head @ replicate (8 - length head - length tail) 0 @ tail), r3))))"

text \<open>\<open>str::parse::<IpAddr>()\<close>: the whole input must be consumed.\<close>

definition parse_ipv4 :: "string \<Rightarrow> ipv4 option" where
  "parse_ipv4 s = (if 15 < length s then None
     else case read_ipv4 s of Some (a, []) \<Rightarrow> Some a | _ \<Rightarrow> None)"

definition parse_ipv6 :: "string \<Rightarrow> ipv6 option" where
  "parse_ipv6 s = (case read_ipv6 s of Some (a, []) \<Rightarrow> Some a | _ \<Rightarrow> None)"

definition parse_ip :: "string \<Rightarrow> ip_addr option" where
  "parse_ip s =
     (case read_ipv4 s of
        Some (a, r) \<Rightarrow> if r = [] then Some (V4 a) else None
      | None \<Rightarrow> (case read_ipv6 s of Some (a, []) \<Rightarrow> Some (V6 a) | _ \<Rightarrow> None))"

section \<open>Address classes\<close>

definition is_unspecified_v4 :: "ipv4 \<Rightarrow> bool" where
  "is_unspecified_v4 a = (a = 0)"

definition is_multicast_v4 :: "ipv4 \<Rightarrow> bool" where
  "is_multicast_v4 a = (224 \<le> unat a div 2 ^ 24 \<and> unat a div 2 ^ 24 \<le> 239)"

definition is_broadcast_v4 :: "ipv4 \<Rightarrow> bool" where
  "is_broadcast_v4 a = (a = - 1)"

section \<open>The IPv4 round trip\<close>

lemma to_digit_ascii_digit: "is_ascii_digit c \<Longrightarrow> to_digit 10 c \<noteq> None"
  by (auto simp: to_digit_def is_ascii_digit_def Let_def)

lemma show_nat_length_byte: "n < 256 \<Longrightarrow> length (show_nat n) \<le> 3"
  by (simp add: show_nat_def show_radix.simps[of 10 n] show_radix.simps[of 10 "n div 10"]
      show_radix.simps[of 10 "n div 10 div 10"])

lemma digit_char_0: "digit_char 0 = CHR ''0''"
  by code_simp

lemma hd_digit_char_zero: "d < 10 \<Longrightarrow> digit_char d = CHR ''0'' \<Longrightarrow> d = 0"
  using to_digit_digit_char[of d 10] to_digit_digit_char[of 0 10] by (simp add: digit_char_0)

lemma show_nat_no_leading_zero:
  assumes "hd (show_nat n) = CHR ''0''"
  shows "n = 0"
proof -
  have "b = 10 \<Longrightarrow> hd (show_radix b n) = CHR ''0'' \<Longrightarrow> n = 0" for b
  proof (induction b n rule: show_radix.induct)
    case (1 b n)
    show ?case
    proof (cases "n < b")
      case True
      with 1 have "digit_char n = CHR ''0''" by (simp add: show_radix.simps[of 10 n])
      with True 1 show ?thesis by (simp add: hd_digit_char_zero)
    next
      case False
      with 1 have "hd (show_radix b (n div b)) = CHR ''0''"
        by (simp add: show_radix.simps[of 10 n])
      with False 1 have "n div b = 0" by simp
      with False 1 show ?thesis by (simp add: div_eq_0_iff)
    qed
  qed
  with assms show ?thesis by (simp add: show_nat_def)
qed

lemma show_nat_zero: "show_nat 0 = ''0''"
  by (simp add: show_nat_def show_radix.simps digit_char_0)

lemma read_octet_show:
  assumes "n < 256" and "s = [] \<or> \<not> is_ascii_digit (hd s)"
  shows "read_octet (show_nat n @ s) = Some (n, s)"
proof -
  let ?P = "\<lambda>c. to_digit 10 c \<noteq> None"
  have digs: "?P c" if "c \<in> set (show_nat n)" for c
    using that show_nat_digits[of n] to_digit_ascii_digit by blast
  have stop: "s = [] \<or> \<not> ?P (hd s)"
    using assms(2) by (auto simp: to_digit_def is_ascii_digit_def is_ascii_lowercase_def
        is_ascii_uppercase_def Let_def split: if_splits)
  have tw: "takeWhile ?P (show_nat n @ s) = show_nat n"
  proof -
    have "takeWhile ?P s = []" using stop by (cases s) auto
    then show ?thesis using digs by (subst takeWhile_append2) auto
  qed
  moreover have dw: "dropWhile ?P (show_nat n @ s) = s"
  proof -
    have "dropWhile ?P s = s" using stop by (cases s) auto
    then show ?thesis using digs by (subst dropWhile_append2) auto
  qed
  moreover have "\<not> (hd (show_nat n) = CHR ''0'' \<and> 1 < length (show_nat n))"
    using show_nat_no_leading_zero[of n] show_nat_zero by auto
  ultimately show ?thesis
    using assms(1) show_nat_length_byte[OF assms(1)]
    by (simp add: read_number_def Let_def parse_show_nat)
qed

lemma v4_of_octets_octets: "v4_of_octets (octets_v4 a) = a"
proof -
  let ?n = "unat a"
  have "?n div 2 ^ 24 = ?n div 256 div 256 div 256" "?n div 2 ^ 16 = ?n div 256 div 256"
    "?n div 2 ^ 8 = ?n div 256"
    by (simp_all add: div_mult2_eq[symmetric])
  then have "foldl (\<lambda>acc x. acc * 256 + x) 0 (octets_v4 a) = ?n"
    by (simp add: octets_v4_def Let_def)
  then show ?thesis by (simp add: v4_of_octets_def)
qed

lemma octets_v4_bound: "x \<in> set (octets_v4 a) \<Longrightarrow> x < 256"
proof -
  have "unat a < 2 ^ 32" using unsigned_less[of a] by simp
  moreover assume "x \<in> set (octets_v4 a)"
  ultimately show ?thesis by (auto simp: octets_v4_def Let_def)
qed

lemma read_ipv4_show: "read_ipv4 (show_ipv4 a) = Some (a, [])"
proof -
  let ?os = "octets_v4 a"
  obtain w x y z where os: "?os = [w, x, y, z]" by (simp add: octets_v4_def Let_def)
  have b: "w < 256" "x < 256" "y < 256" "z < 256"
    using octets_v4_bound[of _ a] os by auto
  have nd: "\<not> is_ascii_digit (CHR ''.'')" by (simp add: is_ascii_digit_def)
  have "read_octets (Suc (Suc (Suc (Suc 0)))) 0 (show_ipv4 a) = Some ([w, x, y, z], [])"
    using b read_octet_show[OF b(4), of "[]"]
    by (simp add: show_ipv4_def os read_separator_def read_char_def read_octet_show nd)
  moreover have "(4::nat) = Suc (Suc (Suc (Suc 0)))" by simp
  ultimately have "read_octets 4 0 (show_ipv4 a) = Some ([w, x, y, z], [])" by metis
  then show ?thesis by (simp add: read_ipv4_def v4_of_octets_octets flip: os)
qed

lemma length_show_ipv4: "length (show_ipv4 a) \<le> 15"
proof -
  obtain w x y z where os: "octets_v4 a = [w, x, y, z]" by (simp add: octets_v4_def Let_def)
  have b: "w < 256" "x < 256" "y < 256" "z < 256"
    using octets_v4_bound[of _ a] os by auto
  show ?thesis
    using b[THEN show_nat_length_byte] by (simp add: show_ipv4_def os)
qed

lemma parse_show_ipv4 [simp]: "parse_ipv4 (show_ipv4 a) = Some a"
  using length_show_ipv4[of a] by (simp add: parse_ipv4_def read_ipv4_show)

lemma parse_ip_show_v4 [simp]: "parse_ip (show_ip (V4 a)) = Some (V4 a)"
  by (simp add: parse_ip_def read_ipv4_show)

lemma show_ipv4_inj: "show_ipv4 a = show_ipv4 b \<longleftrightarrow> a = b"
  by (metis option.inject parse_show_ipv4)

text \<open>A host name that starts with a letter after \<open>f\<close> is no address.\<close>

lemma to_digit_10_16: "to_digit 16 c = None \<Longrightarrow> to_digit 10 c = None"
  by (auto simp: to_digit_def Let_def split: if_splits)

lemma read_number_no_digit: "to_digit b c = None \<Longrightarrow> read_number b md z mx (c # s) = None"
  by (simp add: read_number_def Let_def)

lemma parse_ip_not_hex:
  assumes "to_digit 16 c = None" and "c \<noteq> CHR '':''"
  shows "parse_ip (c # s) = None"
proof -
  have "read_octets (Suc n) 0 (c # s) = None" for n
    using assms by (simp add: read_separator_def read_number_no_digit to_digit_10_16)
  from this[of 3] have v4: "read_ipv4 (c # s) = None" by (simp add: read_ipv4_def)
  have "read_groups (Suc n) 0 (c # s) = ([], False, c # s)" for n
    using assms v4 by (simp add: read_separator_def read_number_no_digit)
  from this[of 7] have "read_ipv6 (c # s) = None"
    using assms by (simp add: read_ipv6_def read_char_def)
  with v4 show ?thesis by (simp add: parse_ip_def)
qed

end
