(* ===== verification/Probe.thy ===== *)
theory Probe
  imports IR
begin

text \<open>
  The probe engine, \<open>crates/probe/src/lib.rs\<close>: the verdict on one address, the choice among the
  addresses of a name, and the batch.  The network is the parameter \<open>probe_net\<close>: what a name resolves
  to, and for each socket operation its result and the time after which it comes (never, when
  \<open>None\<close>).  The network a node meets may differ from node to node, so a batch takes one for each slot, and
  the slots whose task panics.
\<close>

section \<open>Outcomes\<close>

datatype probe_depth = L4Ping | ProtocolHandshake | FullEgress204

datatype probe_failure = Refused | TimedOut | Unresolvable | NoReply | IoFailure

datatype probe_confidence = Confirmed | SocketReachable | ProbeUnconfirmed | Unreachable

fun confidence_rank :: "probe_confidence \<Rightarrow> u8" where
  "confidence_rank Confirmed = 3"
| "confidence_rank SocketReachable = 2"
| "confidence_rank ProbeUnconfirmed = 1"
| "confidence_rank Unreachable = 0"

record probe_outcome =
  po_label :: string
  po_country_code :: "char \<times> char"
  po_protocol :: string
  po_latency_ms :: "u16 option"
  po_confidence :: probe_confidence
  po_failure :: "probe_failure option"

definition probe_alive :: "probe_outcome \<Rightarrow> bool" where
  "probe_alive x = (po_confidence x = Confirmed \<or> po_confidence x = SocketReachable)"

definition is_dead :: "probe_outcome \<Rightarrow> bool" where
  "is_dead x = (po_confidence x = Unreachable)"

definition is_unknown :: "probe_outcome \<Rightarrow> bool" where
  "is_unknown x = (po_confidence x = ProbeUnconfirmed)"

record probe_config =
  pc_concurrency_limit :: nat
  pc_connect_timeout :: duration
  pc_udp_reply_window :: duration

definition ProbeConfig_default :: probe_config where
  "ProbeConfig_default = \<lparr>pc_concurrency_limit = 512, pc_connect_timeout = from_millis 800,
     pc_udp_reply_window = from_millis 300\<rparr>"

record address_probe =
  ad_latency_ms :: "u16 option"
  ad_confidence :: probe_confidence
  ad_failure :: "probe_failure option"

section \<open>The network\<close>

datatype io_kind = ConnectionRefused | HostUnreachable | NetworkUnreachable | OtherKind

record probe_net =
  pn_lookup :: "string \<Rightarrow> u16 \<Rightarrow> socket_addr list res"
  pn_connect :: "socket_addr \<Rightarrow> (io_kind + unit) \<times> duration option"
  pn_udp_open :: "socket_addr \<Rightarrow> bool"
  pn_udp_recv :: "socket_addr \<Rightarrow> (io_kind + unit) \<times> duration option"

text \<open>\<open>tokio::time::timeout\<close>: the result with the time it took, when it comes in time.\<close>

definition in_time :: "duration \<Rightarrow> 'a \<times> duration option \<Rightarrow> ('a \<times> duration) option" where
  "in_time limit fut = (case snd fut of None \<Rightarrow> None | Some t \<Rightarrow> if t \<le> limit then Some (fst fut, t) else None)"

definition ms_elapsed :: "duration \<Rightarrow> u16" where
  "ms_elapsed t = (if as_millis t \<le> 65535 then word_of_nat (as_millis t) else 65535 div 2)"

section \<open>The engine\<close>

text \<open>The engine: its configuration, and whether its semaphore has been closed.\<close>

record probe_engine =
  pe_permits :: nat
  pe_closed :: bool
  pe_config :: probe_config

definition ProbeEngine_new :: "probe_config \<Rightarrow> probe_engine" where
  "ProbeEngine_new config = \<lparr>pe_permits = max (pc_concurrency_limit config) 1, pe_closed = False, pe_config = config\<rparr>"

definition tcp_connect :: "probe_engine \<Rightarrow> probe_net \<Rightarrow> socket_addr \<Rightarrow> probe_failure + u16" where
  "tcp_connect engine net address =
     (case in_time (pc_connect_timeout (pe_config engine)) (pn_connect net address) of
        Some (Inr _, t) \<Rightarrow> Ok (ms_elapsed t)
      | Some (Inl kind, t) \<Rightarrow> Err (if kind = ConnectionRefused then Refused else IoFailure)
      | None \<Rightarrow> Err TimedOut)"

definition udp_reach :: "probe_engine \<Rightarrow> probe_net \<Rightarrow> socket_addr \<Rightarrow> probe_failure + u16 option" where
  "udp_reach engine net address =
     (if \<not> pn_udp_open net address then Err IoFailure
      else case in_time (pc_udp_reply_window (pe_config engine)) (pn_udp_recv net address) of
        Some (Inr _, t) \<Rightarrow> Ok (Some (ms_elapsed t))
      | Some (Inl kind, t) \<Rightarrow>
          if kind \<in> {ConnectionRefused, HostUnreachable, NetworkUnreachable} then Err Refused else Ok None
      | None \<Rightarrow> Ok None)"

fun uses_udp :: "protocol_spec \<Rightarrow> bool" where
  "uses_udp (Hysteria2 c) = True"
| "uses_udp (Tuic c) = True"
| "uses_udp (WireGuard c) = True"
| "uses_udp (Shadowsocks c) = False"
| "uses_udp (Vless c) = False"
| "uses_udp (Vmess c) = False"
| "uses_udp (Trojan c) = False"

definition unreachable :: "probe_failure \<Rightarrow> address_probe" where
  "unreachable failure = \<lparr>ad_latency_ms = None, ad_confidence = Unreachable, ad_failure = Some failure\<rparr>"

definition reachable :: "u16 \<Rightarrow> address_probe" where
  "reachable rtt = \<lparr>ad_latency_ms = Some rtt, ad_confidence = SocketReachable, ad_failure = None\<rparr>"

definition probe_addr :: "probe_engine \<Rightarrow> probe_net \<Rightarrow> socket_addr \<Rightarrow> protocol_spec \<Rightarrow> address_probe" where
  "probe_addr engine net address protocol =
     (if pe_closed engine then unreachable IoFailure
      else if uses_udp protocol
      then (case udp_reach engine net address of
              Inr (Some rtt) \<Rightarrow> reachable rtt
            | Inr None \<Rightarrow> \<lparr>ad_latency_ms = None, ad_confidence = ProbeUnconfirmed, ad_failure = Some NoReply\<rparr>
            | Inl failure \<Rightarrow> unreachable failure)
      else (case tcp_connect engine net address of
              Inr rtt \<Rightarrow> reachable rtt
            | Inl failure \<Rightarrow> unreachable failure))"

text \<open>The loop of \<open>ping\<close> over the addresses: the best probe so far and the first failure.\<close>

fun ping_loop ::
    "(socket_addr \<Rightarrow> address_probe) \<Rightarrow> socket_addr list \<Rightarrow> address_probe option \<Rightarrow> probe_failure option \<Rightarrow>
      address_probe option \<times> probe_failure option" where
  "ping_loop probe [] best first_failure = (best, first_failure)"
| "ping_loop probe (address # rest) best first_failure =
     (let candidate = probe address;
          better = (case best of None \<Rightarrow> True
            | Some current \<Rightarrow> confidence_rank (ad_confidence candidate) > confidence_rank (ad_confidence current));
          first_failure = (if ad_confidence candidate = Unreachable \<and> first_failure = None then ad_failure candidate
                           else first_failure)
      in ping_loop probe rest (if better then Some candidate else best) first_failure)"

definition ping :: "probe_engine \<Rightarrow> probe_net \<Rightarrow> endpoint_target \<Rightarrow> protocol_spec \<Rightarrow> address_probe" where
  "ping engine net endpoint protocol =
     (case endpoint of
        Ip address \<Rightarrow> probe_addr engine net address protocol
      | Domain host port \<Rightarrow>
          (case pn_lookup net host port of
             Inl e \<Rightarrow> unreachable Unresolvable
           | Inr addresses \<Rightarrow>
               if addresses = [] then unreachable Unresolvable
               else (case ping_loop (\<lambda>address. probe_addr engine net address protocol) addresses None None of
                       (Some probe, first_failure) \<Rightarrow> probe
                     | (None, first_failure) \<Rightarrow>
                         \<lparr>ad_latency_ms = None, ad_confidence = Unreachable,
                          ad_failure = or_opt first_failure (Some Refused)\<rparr>)))"

fun protocol_name :: "protocol_spec \<Rightarrow> string" where
  "protocol_name (Vless c) = ''vless''"
| "protocol_name (Vmess c) = ''vmess''"
| "protocol_name (Trojan c) = ''trojan''"
| "protocol_name (Shadowsocks c) = ''ss''"
| "protocol_name (Hysteria2 c) = ''hysteria2''"
| "protocol_name (Tuic c) = ''tuic''"
| "protocol_name (WireGuard c) = ''wireguard''"

definition build_outcome :: "canonical_node \<Rightarrow> address_probe \<Rightarrow> probe_outcome" where
  "build_outcome node p = \<lparr>po_label = nm_label (cn_meta node), po_country_code = nm_country_code (cn_meta node),
     po_protocol = protocol_name (cn_protocol node), po_latency_ms = ad_latency_ms p,
     po_confidence = ad_confidence p, po_failure = ad_failure p\<rparr>"

definition probe :: "probe_engine \<Rightarrow> probe_net \<Rightarrow> canonical_node \<Rightarrow> probe_depth \<Rightarrow> probe_outcome" where
  "probe engine net node depth =
     (if depth = L4Ping then build_outcome node (ping engine net (cn_endpoint node) (cn_protocol node))
      else build_outcome node \<lparr>ad_latency_ms = None, ad_confidence = ProbeUnconfirmed, ad_failure = Some IoFailure\<rparr>)"

text \<open>\<open>probe_batch\<close>: the results in the order of the nodes, less the tasks that panicked.\<close>

definition probe_batch ::
    "probe_engine \<Rightarrow> (nat \<Rightarrow> probe_net) \<Rightarrow> (nat \<Rightarrow> bool) \<Rightarrow> canonical_node list \<Rightarrow> probe_depth \<Rightarrow> probe_outcome list" where
  "probe_batch engine nets panics nodes depth =
     map (\<lambda>(i, node). probe engine (nets i) node depth) (filter (\<lambda>(i, node). \<not> panics i) (enumerate 0 nodes))"

section \<open>The best address wins\<close>

definition rank_of :: "address_probe \<Rightarrow> u8" where
  "rank_of p = confidence_rank (ad_confidence p)"

lemma ping_loop_best:
  assumes "best = None \<longrightarrow> as \<noteq> []"
  shows "\<exists>b. fst (ping_loop pr as best ff) = Some b \<and> (best = Some b \<or> (\<exists>a \<in> set as. b = pr a)) \<and>
    (\<forall>a \<in> set as. rank_of (pr a) \<le> rank_of b) \<and> (\<forall>c. best = Some c \<longrightarrow> rank_of c \<le> rank_of b)"
  using assms
proof (induction as arbitrary: best ff)
  case (Cons a rest)
  define nb where "nb = (if case best of None \<Rightarrow> True | Some current \<Rightarrow> rank_of current < rank_of (pr a)
      then Some (pr a) else best)"
  obtain ff1 where run: "ping_loop pr (a # rest) best ff = ping_loop pr rest nb ff1"
    by (simp only: ping_loop.simps Let_def nb_def rank_of_def)
  have "nb \<noteq> None" by (auto simp: nb_def split: option.splits)
  then obtain b where b: "fst (ping_loop pr rest nb ff1) = Some b" "nb = Some b \<or> (\<exists>a \<in> set rest. b = pr a)"
    "\<forall>a \<in> set rest. rank_of (pr a) \<le> rank_of b" "\<forall>c. nb = Some c \<longrightarrow> rank_of c \<le> rank_of b"
    using Cons.IH [of nb ff1] by auto
  have "rank_of (pr a) \<le> rank_of b" "best = Some c \<Longrightarrow> rank_of c \<le> rank_of b" for c
    using b(4) by (auto simp: nb_def not_less split: option.splits if_splits)
  moreover have "best = Some b \<or> (\<exists>x \<in> set (a # rest). b = pr x)"
    using b(2) by (auto simp: nb_def split: if_splits)
  ultimately show ?case using b(1,3) run by (intro exI [of _ b]) auto
qed auto

definition addresses_of :: "probe_net \<Rightarrow> endpoint_target \<Rightarrow> socket_addr list" where
  "addresses_of net endpoint =
     (case endpoint of Ip address \<Rightarrow> [address] | Domain host port \<Rightarrow> unwrap_or [] (ok (pn_lookup net host port)))"

lemma ping_cases:
  "addresses_of net endpoint = [] \<and> ping engine net endpoint protocol = unreachable Unresolvable \<or>
   (\<exists>a \<in> set (addresses_of net endpoint). ping engine net endpoint protocol = probe_addr engine net a protocol) \<and>
   (\<forall>a \<in> set (addresses_of net endpoint).
      rank_of (probe_addr engine net a protocol) \<le> rank_of (ping engine net endpoint protocol))"
proof (cases endpoint)
  case (Domain host port)
  show ?thesis
  proof (cases "\<exists>a as. pn_lookup net host port = Ok (a # as)")
    case True
    then obtain a as where look: "pn_lookup net host port = Ok (a # as)" by blast
    let ?pr = "\<lambda>x. probe_addr engine net x protocol"
    obtain b where b: "fst (ping_loop ?pr (a # as) None None) = Some b" "\<exists>x \<in> set (a # as). b = ?pr x"
      "\<forall>x \<in> set (a # as). rank_of (?pr x) \<le> rank_of b"
      using ping_loop_best [of None "a # as" ?pr None] by auto
    have "ping engine net endpoint protocol = b"
      using b(1) look Domain
      by (cases "ping_loop ?pr (a # as) None None") (simp add: ping_def del: ping_loop.simps)
    thus ?thesis using b look Domain by (auto simp: addresses_of_def)
  next
    case False
    thus ?thesis using Domain
      by (cases "pn_lookup net host port"; cases "ok (pn_lookup net host port)") (auto simp: ping_def addresses_of_def neq_Nil_conv)
  qed
qed (simp add: ping_def addresses_of_def)

lemma rank_eq_0: "rank_of p = 0 \<longleftrightarrow> ad_confidence p = Unreachable"
  by (cases "ad_confidence p") (simp_all add: rank_of_def)

lemma probe_addr_not_confirmed: "ad_confidence (probe_addr engine net a protocol) \<noteq> Confirmed"
  by (simp add: probe_addr_def unreachable_def reachable_def split: sum.splits option.splits)

lemma rank_reachable: "ad_confidence p \<noteq> Confirmed \<Longrightarrow> rank_of p \<le> 2 \<and> (rank_of p = 2 \<longleftrightarrow> ad_confidence p = SocketReachable)"
  by (cases "ad_confidence p") (simp_all add: rank_of_def)

text \<open>An \<open>L4\<close> probe reports a node as dead exactly when none of the addresses of its endpoint
  is left (they do not resolve, or every one of them is proven unreachable), and as alive exactly
  when some address answered; it never reports the confidence \<open>Confirmed\<close>.\<close>

theorem probe_verdict:
  "(is_dead (probe engine net node L4Ping) \<longleftrightarrow> (\<forall>a \<in> set (addresses_of net (cn_endpoint node)).
      ad_confidence (probe_addr engine net a (cn_protocol node)) = Unreachable)) \<and>
   (probe_alive (probe engine net node L4Ping) \<longleftrightarrow> (\<exists>a \<in> set (addresses_of net (cn_endpoint node)).
      ad_confidence (probe_addr engine net a (cn_protocol node)) = SocketReachable)) \<and>
   po_confidence (probe engine net node L4Ping) \<noteq> Confirmed"
proof -
  let ?pr = "\<lambda>a. probe_addr engine net a (cn_protocol node)" and ?as = "set (addresses_of net (cn_endpoint node))"
  define p where "p = ping engine net (cn_endpoint node) (cn_protocol node)"
  have conf: "po_confidence (probe engine net node L4Ping) = ad_confidence p"
    by (simp add: probe_def build_outcome_def p_def)
  consider "?as = {}" "ad_confidence p = Unreachable"
    | a where "a \<in> ?as" "p = ?pr a" "\<forall>x \<in> ?as. rank_of (?pr x) \<le> rank_of p"
    using ping_cases [of net "cn_endpoint node" engine "cn_protocol node"] by (auto simp: p_def unreachable_def)
  thus ?thesis
  proof cases
    case 1
    thus ?thesis by (simp add: is_dead_def probe_alive_def conf)
  next
    case (2 a)
    have "ad_confidence p = Unreachable \<longleftrightarrow> (\<forall>x \<in> ?as. ad_confidence (?pr x) = Unreachable)"
      using 2 unfolding rank_eq_0 [symmetric] by (metis word_zero_le order_antisym)
    moreover have "ad_confidence p = SocketReachable \<longleftrightarrow> (\<exists>x \<in> ?as. ad_confidence (?pr x) = SocketReachable)"
      using 2 rank_reachable probe_addr_not_confirmed by (metis order_antisym)
    ultimately show ?thesis using 2(2) probe_addr_not_confirmed
      by (auto simp: is_dead_def probe_alive_def conf)
  qed
qed

text \<open>The first address of the name is refused, the second answers after three milliseconds.\<close>

definition sample_net :: probe_net where
  "sample_net = \<lparr>pn_lookup = (\<lambda>host port. Ok [SocketAddr (V4 1) port, SocketAddr (V4 2) port]),
     pn_connect = (\<lambda>a. (if sa_ip a = V4 1 then Err ConnectionRefused else Ok (), Some (from_millis 3))),
     pn_udp_open = (\<lambda>a. True), pn_udp_recv = (\<lambda>a. (Ok (), None))\<rparr>"

lemma sample_answers:
  "ad_confidence (probe_addr (ProbeEngine_new ProbeConfig_default) sample_net (SocketAddr (V4 2) 443)
     sample_vless) = SocketReachable"
  by (simp add: probe_addr_def ProbeEngine_new_def ProbeConfig_default_def sample_vless_def tcp_connect_def in_time_def
      sample_net_def from_millis_def reachable_def)

theorem probe_verdict_witness:
  "\<not> is_dead (probe (ProbeEngine_new ProbeConfig_default) sample_net (sample_node ''a'' ''a.example'' 443) L4Ping) \<and>
   probe_alive (probe (ProbeEngine_new ProbeConfig_default) sample_net (sample_node ''a'' ''a.example'' 443) L4Ping)"
proof -
  have "SocketAddr (V4 2) 443 \<in> set (addresses_of sample_net (cn_endpoint (sample_node ''a'' ''a.example'' 443)))"
    "cn_protocol (sample_node ''a'' ''a.example'' 443) = sample_vless"
    by (simp_all add: addresses_of_def sample_net_def sample_node_def)
  hence "\<exists>a \<in> set (addresses_of sample_net (cn_endpoint (sample_node ''a'' ''a.example'' 443))).
      ad_confidence (probe_addr (ProbeEngine_new ProbeConfig_default) sample_net a
        (cn_protocol (sample_node ''a'' ''a.example'' 443))) = SocketReachable"
    using sample_answers by (intro bexI [of _ "SocketAddr (V4 2) 443"]) simp_all
  thus ?thesis
    using probe_verdict [of "ProbeEngine_new ProbeConfig_default" sample_net "sample_node ''a'' ''a.example'' 443"]
    by (auto simp: is_dead_def probe_alive_def)
qed

text \<open>A round trip longer than a \<open>u16\<close> of milliseconds is reported as shorter than one that fits.\<close>

lemma ms_elapsed_not_monotone: "ms_elapsed (from_secs 66) < ms_elapsed (from_secs 40)"
  by (simp add: ms_elapsed_def as_millis_def from_secs_def)

lemma probe_batch_length: "\<forall>i. \<not> panics i \<Longrightarrow> length (probe_batch engine nets panics nodes depth) = length nodes"
  by (simp add: probe_batch_def)

end
