(* ===== verification/Rust_Utf8.thy ===== *)
theory Rust_Utf8
  imports Rust_Str
begin

text \<open>
  UTF-8 in Rust's standard library: \<open>str::from_utf8\<close>, \<open>String::from_utf8_lossy\<close> with its
  replacement of each maximal broken prefix by U+FFFD, and \<open>split_whitespace\<close>.  Bytes that arrive
  from outside are a HOL \<open>string\<close> like every other byte sequence.
\<close>

definition cont_byte :: "nat \<Rightarrow> bool" where
  "cont_byte b = (0x80 \<le> b \<and> b \<le> 0xBF)"

text \<open>The second byte that may follow a first byte of a three or four byte sequence.\<close>

definition second3 :: "nat \<Rightarrow> nat \<Rightarrow> bool" where
  "second3 a b = (if a = 0xE0 then 0xA0 \<le> b \<and> b \<le> 0xBF
                  else if a = 0xED then 0x80 \<le> b \<and> b \<le> 0x9F else cont_byte b)"

definition second4 :: "nat \<Rightarrow> nat \<Rightarrow> bool" where
  "second4 a b = (if a = 0xF0 then 0x90 \<le> b \<and> b \<le> 0xBF
                  else if a = 0xF4 then 0x80 \<le> b \<and> b \<le> 0x8F else cont_byte b)"

text \<open>The longest run of continuation bytes a sequence wants, given which of them are there.\<close>

fun accepted :: "(nat \<Rightarrow> bool) list \<Rightarrow> nat list \<Rightarrow> nat" where
  "accepted [] bs = 0"
| "accepted (P # Ps) [] = 0"
| "accepted (P # Ps) (b # bs) = (if P b then Suc (accepted Ps bs) else 0)"

definition wanted :: "nat \<Rightarrow> (nat \<Rightarrow> bool) list option" where
  "wanted a = (if a < 0x80 then Some []
     else if 0xC2 \<le> a \<and> a \<le> 0xDF then Some [cont_byte]
     else if 0xE0 \<le> a \<and> a \<le> 0xEF then Some [second3 a, cont_byte]
     else if 0xF0 \<le> a \<and> a \<le> 0xF4 then Some [second4 a, cont_byte, cont_byte]
     else None)"

text \<open>
  The next piece of a byte string: how many bytes it takes after the first one and whether they
  are a character.
\<close>

definition next_piece :: "char \<Rightarrow> string \<Rightarrow> nat \<times> bool" where
  "next_piece c s =
     (case wanted (byte_of c) of None \<Rightarrow> (0, False)
      | Some Ps \<Rightarrow> (let n = accepted Ps (map byte_of s) in (n, n = length Ps)))"

definition replacement :: string where
  "replacement = [char_of (0xEF :: nat), char_of (0xBF :: nat), char_of (0xBD :: nat)]"

function from_utf8_lossy :: "string \<Rightarrow> string" where
  "from_utf8_lossy [] = []"
| "from_utf8_lossy (c # s) =
     (case next_piece c s of (n, good) \<Rightarrow>
        (if good then c # take n s else replacement) @ from_utf8_lossy (drop n s))"
  by pat_completeness auto
termination by (relation "measure length") auto

function is_utf8 :: "string \<Rightarrow> bool" where
  "is_utf8 [] = True"
| "is_utf8 (c # s) = (case next_piece c s of (n, good) \<Rightarrow> good \<and> is_utf8 (drop n s))"
  by pat_completeness auto
termination by (relation "measure length") auto

definition is_ascii :: "string \<Rightarrow> bool" where
  "is_ascii s = list_all (\<lambda>c. byte_of c < 0x80) s"

function split_ws_from :: "string \<Rightarrow> string \<Rightarrow> string list" where
  "split_ws_from acc [] = (if acc = [] then [] else [acc])"
| "split_ws_from acc (c # s) =
     (if 0 < ws_len (c # s)
      then (if acc = [] then [] else [acc]) @ split_ws_from [] (drop (ws_len (c # s)) (c # s))
      else split_ws_from (acc @ [c]) s)"
  by pat_completeness auto
termination
  by (relation "measure (\<lambda>(acc, s). length s)") (auto simp: length_Cons)

definition split_whitespace :: "string \<Rightarrow> string list" where
  "split_whitespace s = split_ws_from [] s"

lemma next_piece_ascii: "byte_of c < 0x80 \<Longrightarrow> next_piece c s = (0, True)"
  by (simp add: next_piece_def wanted_def)

lemma from_utf8_lossy_ascii_Cons:
  "byte_of c < 0x80 \<Longrightarrow> from_utf8_lossy (c # s) = c # from_utf8_lossy s"
  by (simp add: next_piece_ascii)

lemma from_utf8_lossy_ascii: "is_ascii s \<Longrightarrow> from_utf8_lossy s = s"
  by (induction s) (simp_all add: is_ascii_def from_utf8_lossy_ascii_Cons del: from_utf8_lossy.simps(2))

lemma from_utf8_lossy_valid: "is_utf8 s \<Longrightarrow> from_utf8_lossy s = s"
  by (induction s rule: is_utf8.induct) (auto split: prod.splits)

lemma is_utf8_ascii: "is_ascii s \<Longrightarrow> is_utf8 s"
  by (induction s) (simp_all add: is_ascii_def next_piece_ascii)

end
