(* ===== verification/Metadata.thy ===== *)
theory Metadata
  imports IR Rust_Utf8
begin

text \<open>
  The country of a node from its label (\<open>crates/parser/src/metadata.rs\<close>): a pair of regional
  indicator symbols, else a bracketed tag, else the first keyword of a table, else \<open>UN\<close>; and
  \<open>make_metadata\<close> of \<open>crates/parser/src/lib.rs\<close>, which stores it.  The code found is always two
  upper case letters, so building the metadata of a node never fails.  The bracketed tag is only
  looked for at the end of a label, which the lemma \<open>leading_tag_ignored\<close> shows.
\<close>

text \<open>
  The regional indicators U+1F1E6 to U+1F1FF are the byte sequences F0 9F 87 A6 to F0 9F 87 BF;
  in UTF-8 text F0 is always the first byte of a character, so a scan by bytes finds the same
  characters as \<open>chars\<close>.
\<close>

fun indicators :: "string \<Rightarrow> char list" where
  "indicators (a # b # c # d # s) =
     (if byte_of a = 0xF0 \<and> byte_of b = 0x9F \<and> byte_of c = 0x87
         \<and> 0xA6 \<le> byte_of d \<and> byte_of d \<le> 0xBF
      then char_of (65 + (byte_of d - 0xA6)) # indicators s
      else indicators (b # c # d # s))"
| "indicators s = []"

definition emoji_code :: "string \<Rightarrow> country option" where
  "emoji_code label =
     (let inds = indicators label in
      if 2 \<le> length inds then Some (inds ! 0, inds ! 1) else None)"

definition close_byte :: "char \<Rightarrow> char option" where
  "close_byte b = (if b = CHR ''['' then Some (CHR '']'') else if b = CHR ''('' then Some (CHR '')'') else None)"

fun position :: "('a \<Rightarrow> bool) \<Rightarrow> 'a list \<Rightarrow> nat option" where
  "position P [] = None"
| "position P (x # xs) = (if P x then Some 0 else map_option Suc (position P xs))"

fun bracket_code :: "string \<Rightarrow> country option" where
  "bracket_code [] = None"
| "bracket_code (b # rest) =
     (case close_byte b of
        None \<Rightarrow> bracket_code rest
      | Some closing \<Rightarrow>
          if 6 < length rest then bracket_code rest
          else case position (\<lambda>c. c = closing) rest of
                 None \<Rightarrow> bracket_code rest
               | Some e \<Rightarrow>
                   let candidate = take e rest in
                   if length candidate = 2 \<and> list_all is_ascii_uppercase candidate
                   then Some (candidate ! 0, candidate ! 1)
                   else bracket_code rest)"

definition COUNTRY_KEYWORDS :: "(string \<times> country) list" where
  "COUNTRY_KEYWORDS =
    [(''tokyo'', (CHR ''J'', CHR ''P'')),
     (''osaka'', (CHR ''J'', CHR ''P'')),
     (''japan'', (CHR ''J'', CHR ''P'')),
     (''hong kong'', (CHR ''H'', CHR ''K'')),
     (''taiwan'', (CHR ''T'', CHR ''W'')),
     (''taipei'', (CHR ''T'', CHR ''W'')),
     (''singapore'', (CHR ''S'', CHR ''G'')),
     (''korea'', (CHR ''K'', CHR ''R'')),
     (''seoul'', (CHR ''K'', CHR ''R'')),
     (''frankfurt'', (CHR ''D'', CHR ''E'')),
     (''germany'', (CHR ''D'', CHR ''E'')),
     (''deutschland'', (CHR ''D'', CHR ''E'')),
     (''amsterdam'', (CHR ''N'', CHR ''L'')),
     (''netherlands'', (CHR ''N'', CHR ''L'')),
     (''paris'', (CHR ''F'', CHR ''R'')),
     (''france'', (CHR ''F'', CHR ''R'')),
     (''london'', (CHR ''G'', CHR ''B'')),
     (''united kingdom'', (CHR ''G'', CHR ''B'')),
     (''new york'', (CHR ''U'', CHR ''S'')),
     (''los angeles'', (CHR ''U'', CHR ''S'')),
     (''chicago'', (CHR ''U'', CHR ''S'')),
     (''seattle'', (CHR ''U'', CHR ''S'')),
     (''dallas'', (CHR ''U'', CHR ''S'')),
     (''san jose'', (CHR ''U'', CHR ''S'')),
     (''united states'', (CHR ''U'', CHR ''S'')),
     (''usa'', (CHR ''U'', CHR ''S'')),
     (''sydney'', (CHR ''A'', CHR ''U'')),
     (''australia'', (CHR ''A'', CHR ''U'')),
     (''bangkok'', (CHR ''T'', CHR ''H'')),
     (''thailand'', (CHR ''T'', CHR ''H'')),
     (''vietnam'', (CHR ''V'', CHR ''N'')),
     (''hanoi'', (CHR ''V'', CHR ''N'')),
     (''ho chi minh'', (CHR ''V'', CHR ''N'')),
     (''moscow'', (CHR ''R'', CHR ''U'')),
     (''russia'', (CHR ''R'', CHR ''U'')),
     (''mumbai'', (CHR ''I'', CHR ''N'')),
     (''india'', (CHR ''I'', CHR ''N'')),
     (''dubai'', (CHR ''A'', CHR ''E'')),
     (''istanbul'', (CHR ''T'', CHR ''R'')),
     (''turkey'', (CHR ''T'', CHR ''R'')),
     (''madrid'', (CHR ''E'', CHR ''S'')),
     (''spain'', (CHR ''E'', CHR ''S'')),
     (''helsinki'', (CHR ''F'', CHR ''I'')),
     (''finland'', (CHR ''F'', CHR ''I'')),
     (''stockholm'', (CHR ''S'', CHR ''E'')),
     (''sweden'', (CHR ''S'', CHR ''E'')),
     (''oslo'', (CHR ''N'', CHR ''O'')),
     (''norway'', (CHR ''N'', CHR ''O'')),
     (''copenhagen'', (CHR ''D'', CHR ''K'')),
     (''denmark'', (CHR ''D'', CHR ''K'')),
     (''warsaw'', (CHR ''P'', CHR ''L'')),
     (''poland'', (CHR ''P'', CHR ''L'')),
     (''prague'', (CHR ''C'', CHR ''Z'')),
     (''toronto'', (CHR ''C'', CHR ''A'')),
     (''vancouver'', (CHR ''C'', CHR ''A'')),
     (''montreal'', (CHR ''C'', CHR ''A'')),
     (''canada'', (CHR ''C'', CHR ''A'')),
     (''sao paulo'', (CHR ''B'', CHR ''R'')),
     (''brazil'', (CHR ''B'', CHR ''R'')),
     (''chile'', (CHR ''C'', CHR ''L'')),
     (''argentina'', (CHR ''A'', CHR ''R'')),
     (''kuala lumpur'', (CHR ''M'', CHR ''Y'')),
     (''malaysia'', (CHR ''M'', CHR ''Y'')),
     (''jakarta'', (CHR ''I'', CHR ''D'')),
     (''indonesia'', (CHR ''I'', CHR ''D'')),
     (''manila'', (CHR ''P'', CHR ''H'')),
     (''philippines'', (CHR ''P'', CHR ''H''))]"

definition extract_country_code :: "string \<Rightarrow> country" where
  "extract_country_code label =
     (case emoji_code label of
        Some code \<Rightarrow> code
      | None \<Rightarrow>
          (case bracket_code label of
             Some code \<Rightarrow> code
           | None \<Rightarrow>
               (let lowered = to_ascii_lowercase label in
                case find (\<lambda>(keyword, code). contains_str keyword lowered) COUNTRY_KEYWORDS of
                  Some (keyword, code) \<Rightarrow> code
                | None \<Rightarrow> (CHR ''U'', CHR ''N''))))"

definition upper_pair :: "country \<Rightarrow> bool" where
  "upper_pair c \<longleftrightarrow> is_ascii_uppercase (fst c) \<and> is_ascii_uppercase (snd c)"

lemma indicators_upper: "c \<in> set (indicators s) \<Longrightarrow> is_ascii_uppercase c"
  by (induction s rule: indicators.induct)
    (auto simp: is_ascii_uppercase_def split: if_splits)

lemma upper_pair_of: "2 \<le> length xs \<Longrightarrow> list_all is_ascii_uppercase xs \<Longrightarrow> upper_pair (xs ! 0, xs ! 1)"
  by (cases xs; cases "tl xs") (auto simp: upper_pair_def)

lemma emoji_code_upper: "emoji_code s = Some c \<Longrightarrow> upper_pair c"
  using upper_pair_of[of "indicators s"] indicators_upper[of _ s]
  by (auto simp: emoji_code_def Let_def list_all_iff split: if_splits)

lemma position_Some:
  "position P xs = Some i \<Longrightarrow> i < length xs \<and> P (xs ! i) \<and> (\<forall>j < i. \<not> P (xs ! j))"
  by (induction xs arbitrary: i) (auto split: if_splits simp: less_Suc_eq_0_disj)

text \<open>A tag is found only when at most three bytes follow it.\<close>

lemma bracket_code_Some:
  "bracket_code s = Some c \<Longrightarrow> upper_pair c \<and>
     (\<exists>p opn closing r. s = p @ [opn, fst c, snd c, closing] @ r \<and> length r \<le> 3
        \<and> close_byte opn = Some closing)"
proof (induction s)
  case Nil
  then show ?case by simp
next
  case (Cons b rest)
  have later: ?case if "bracket_code rest = Some c"
  proof -
    from Cons.IH[OF that] obtain p opn closing r where
      "upper_pair c" "rest = p @ [opn, fst c, snd c, closing] @ r" "length r \<le> 3"
      "close_byte opn = Some closing" by auto
    then show ?thesis by (intro conjI exI[of _ "b # p"]) auto
  qed
  consider (here) closing e where "close_byte b = Some closing" "\<not> 6 < length rest"
      "position (\<lambda>c. c = closing) rest = Some e" "length (take e rest) = 2"
      "list_all is_ascii_uppercase (take e rest)" "c = (take e rest ! 0, take e rest ! 1)"
    | (later) "bracket_code rest = Some c"
    using Cons.prems by (fastforce simp: Let_def split: option.splits if_splits)
  then show ?case
  proof cases
    case here
    have e: "e = 2" "rest ! e = closing" "e < length rest" using here(3,4) position_Some[OF here(3)] by auto
    then obtain x y r where rest: "rest = x # y # closing # r"
      by (cases rest; cases "tl rest"; cases "tl (tl rest)") auto
    have c: "c = (x, y)" using here(6) by (simp add: e(1) rest)
    have "upper_pair c" using here(5) by (simp add: e(1) rest c upper_pair_def)
    moreover have "b # rest = [] @ [b, fst c, snd c, closing] @ r" "length r \<le> 3"
      using here(2) by (simp_all add: rest c)
    ultimately show ?thesis using here(1) by blast
  qed (rule later)
qed

lemma bracket_code_upper: "bracket_code s = Some c \<Longrightarrow> upper_pair c"
  by (simp add: bracket_code_Some)

lemma keywords_upper: "(k, c) \<in> set COUNTRY_KEYWORDS \<Longrightarrow> upper_pair c"
proof -
  have "\<forall>kc \<in> set COUNTRY_KEYWORDS. upper_pair (snd kc)"
    unfolding COUNTRY_KEYWORDS_def by (simp add: upper_pair_def is_ascii_uppercase_def)
  then show "(k, c) \<in> set COUNTRY_KEYWORDS \<Longrightarrow> upper_pair c" by fastforce
qed

lemma extract_country_code_upper: "upper_pair (extract_country_code label)"
proof (cases "find (\<lambda>(keyword, code). contains_str keyword (to_ascii_lowercase label)) COUNTRY_KEYWORDS")
  case None
  then show ?thesis
    by (auto simp: extract_country_code_def emoji_code_upper bracket_code_upper upper_pair_def
        is_ascii_uppercase_def split: option.split dest: emoji_code_upper bracket_code_upper)
next
  case (Some kc)
  obtain k c where kc: "kc = (k, c)" by (rule prod.exhaust)
  with Some have "(k, c) \<in> set COUNTRY_KEYWORDS" by (auto dest: find_Some_mem)
  then have "upper_pair c" by (rule keywords_upper)
  with Some kc show ?thesis
    by (auto simp: extract_country_code_def split: option.split dest: emoji_code_upper bracket_code_upper)
qed

text \<open>
  A tag in front of the name, the common place for it, is not seen, and the keyword decides.
\<close>

lemma leading_tag_ignored:
  "extract_country_code ''[FR] Tokyo 01'' = (CHR ''J'', CHR ''P'')
   \<and> extract_country_code ''Tokyo 01 [FR]'' = (CHR ''F'', CHR ''R'')"
  by (simp add: extract_country_code_def emoji_code_def close_byte_def Let_def COUNTRY_KEYWORDS_def
      to_ascii_lowercase_def ascii_lower_def is_ascii_uppercase_def starts_with_def char_of_def bit_iff_odd)

section \<open>Errors and metadata (\<open>error.rs\<close>, \<open>lib.rs\<close>)\<close>

datatype parse_error =
    UnsupportedFormat string
  | InvalidUri string
  | Base64Decode string
  | Json string
  | MissingField string
  | InvalidUuid string
  | InvalidEndpoint string
  | InvalidValue string string

type_synonym 'a parsed = "parse_error + 'a"

definition make_metadata :: "sub_id \<Rightarrow> string \<Rightarrow> u64 \<Rightarrow> node_metadata parsed" where
  "make_metadata sub label ts =
     map_err (\<lambda>e. InvalidValue ''metadata'' e)
       (NodeMetadata_new sub label (extract_country_code label) ts)"

lemma make_metadata_total:
  "make_metadata sub label ts = Ok \<lparr>nm_sub_id = sub, nm_label = label,
     nm_country_code = extract_country_code label, nm_import_timestamp = ts\<rparr>"
  using extract_country_code_upper[of label]
  by (simp add: make_metadata_def NodeMetadata_new_def upper_pair_def)

end
