(* ===== verification/Parser.thy ===== *)
theory Parser
  imports Metadata
begin

text \<open>
  Proxy links to nodes (\<open>crates/parser/src/format.rs\<close>, \<open>uri.rs\<close>): recognising the container of
  a subscription, undoing its Base64 layer, and one function for each link scheme.  The URL
  parser, percent decoding, the Base64 engines, the JSON reader and the UUID reader belong to
  other packages and are the fields of \<open>parse_env\<close>.
\<close>

section \<open>What the parsers call\<close>

text \<open>A parsed URL, as its accessors show it; user name, password and fragment stay percent encoded.\<close>

record url =
  url_scheme :: string
  url_username :: string
  url_password :: "string option"
  url_host_str :: "string option"
  url_port :: "u16 option"
  url_path :: string
  url_query_pairs :: "(string \<times> string) list"
  url_fragment :: "string option"

text \<open>A \<open>serde_json::Value\<close> as \<open>as_u64\<close> and \<open>as_str\<close> see it.\<close>

datatype json_scalar = JvU64 u64 | JvStr string | JvOther

record vmess_wire =
  vw_add :: "string option"
  vw_port :: "json_scalar option"
  vw_id :: "string option"
  vw_aid :: "json_scalar option"
  vw_scy :: "string option"
  vw_net :: "string option"
  vw_host :: "string option"
  vw_path :: "string option"
  vw_tls :: "string option"
  vw_sni :: "string option"
  vw_alpn :: "string option"
  vw_fp :: "string option"
  vw_ps :: "string option"

text \<open>
  A \<open>serde_yaml::Value\<close>.  A number keeps its value as \<open>u64\<close>, if it has one, and its text.
\<close>

datatype yaml =
    YNull
  | YBool bool
  | YNumber "u64 option" string
  | YString string
  | YSequence "yaml list"
  | YMapping "(yaml \<times> yaml) list"
  | YTagged string yaml

record parse_env =
  pe_url :: "string \<Rightarrow> url res"
  pe_percent_decode :: "string \<Rightarrow> string"
  pe_b64_standard :: "string \<Rightarrow> string option"
  pe_b64_standard_no_pad :: "string \<Rightarrow> string option"
  pe_b64_url_safe :: "string \<Rightarrow> string option"
  pe_b64_url_safe_no_pad :: "string \<Rightarrow> string option"
  pe_vmess_json :: "string \<Rightarrow> vmess_wire res"
  pe_container_json :: "string \<Rightarrow> (bool \<times> bool) res"
  pe_yaml :: "string \<Rightarrow> yaml res"
  pe_uuid :: "string \<Rightarrow> uuid option"
  pe_codec :: codec

section \<open>Containers (\<open>format.rs\<close>)\<close>

definition MAX_DECODED_BYTES :: nat where
  "MAX_DECODED_BYTES = 8 * 1024 * 1024"

fun first_decoded :: "(string \<Rightarrow> string option) list \<Rightarrow> string \<Rightarrow> string option" where
  "first_decoded [] packed = None"
| "first_decoded (engine # engines) packed =
     (case engine packed of
        Some decoded \<Rightarrow> if length decoded \<le> MAX_DECODED_BYTES then Some decoded else first_decoded engines packed
      | None \<Rightarrow> first_decoded engines packed)"

definition decode_bundle :: "parse_env \<Rightarrow> string \<Rightarrow> string res" where
  "decode_bundle pe raw =
     (let packed = filter (\<lambda>b. \<not> is_ascii_whitespace b) raw in
      if packed = [] \<or> MAX_DECODED_BYTES * 2 < length packed
      then Err ''empty or oversized Base64 input''
      else ok_or ''unsupported alphabet, padding, or input length''
        (first_decoded [pe_b64_standard pe, pe_b64_standard_no_pad pe, pe_b64_url_safe pe,
           pe_b64_url_safe_no_pad pe] packed))"

definition scheme_byte :: "char \<Rightarrow> bool" where
  "scheme_byte b \<longleftrightarrow> is_ascii_alphanumeric b \<or> b \<in> set ''+.-''"

definition scheme_of :: "string \<Rightarrow> string option" where
  "scheme_of entry =
     (case split_once ''://'' entry of
        None \<Rightarrow> None
      | Some (scheme, rest) \<Rightarrow>
          if scheme = [] \<or> \<not> list_all scheme_byte scheme then None else Some scheme)"

definition is_supported_scheme :: "string \<Rightarrow> bool" where
  "is_supported_scheme entry \<longleftrightarrow>
     (case map_option to_ascii_lowercase (scheme_of entry) of
        Some s \<Rightarrow> s \<in> {''vless'', ''vmess'', ''trojan'', ''ss'', ''hysteria2'', ''hy2'', ''tuic''}
      | None \<Rightarrow> False)"

definition looks_like_supported_entry :: "string \<Rightarrow> bool" where
  "looks_like_supported_entry bs \<longleftrightarrow>
     is_utf8 bs \<and> list_ex (\<lambda>line. is_supported_scheme (trim line)) (lines bs)"

datatype container_kind = ClashYaml | SingBoxJson

definition looks_like_clash_yaml :: "string \<Rightarrow> bool" where
  "looks_like_clash_yaml text \<longleftrightarrow>
     list_ex (\<lambda>l. let line = trim l in
       line = ''proxies:'' \<or> line = ''proxy-groups:'' \<or> line = ''rules:'') (lines text)"

definition looks_like_singbox_json :: "parse_env \<Rightarrow> string \<Rightarrow> bool" where
  "looks_like_singbox_json pe text \<longleftrightarrow>
     (if \<not> starts_with ''{'' (trim_start text) then False
      else case pe_container_json pe text of
             Inr (outbounds, inbounds) \<Rightarrow> outbounds \<or> inbounds
           | Inl e \<Rightarrow> False)"

definition detect_container :: "parse_env \<Rightarrow> string \<Rightarrow> container_kind option" where
  "detect_container pe text =
     (if looks_like_clash_yaml text then Some ClashYaml
      else if looks_like_singbox_json pe text then Some SingBoxJson
      else None)"

section \<open>Values shared by the schemes (\<open>uri.rs\<close>)\<close>

definition query_get :: "url \<Rightarrow> string \<Rightarrow> string option" where
  "query_get u key = map_of (rev (url_query_pairs u)) key"

definition parse_uuid :: "parse_env \<Rightarrow> string \<Rightarrow> uuid parsed" where
  "parse_uuid pe value = ok_or (InvalidUuid value) (pe_uuid pe value)"

definition parse_ss_method :: "string \<Rightarrow> shadowsocks_cipher parsed" where
  "parse_ss_method value =
     (let m = to_ascii_lowercase value in
      if m = ''aes-128-gcm'' then Ok SsAes128Gcm
      else if m = ''aes-256-gcm'' then Ok SsAes256Gcm
      else if m = ''chacha20-ietf-poly1305'' then Ok SsChacha20IetfPoly1305
      else if m = ''2022-blake3-aes-128-gcm'' then Ok Ss2022Blake3Aes128Gcm
      else if m = ''2022-blake3-aes-256-gcm'' then Ok Ss2022Blake3Aes256Gcm
      else if m = ''2022-blake3-chacha20-poly1305'' then Ok Ss2022Blake3Chacha20Poly1305
      else Err (InvalidValue ''method'' m))"

definition parse_xhttp_mode :: "string option \<Rightarrow> xhttp_mode" where
  "parse_xhttp_mode mode =
     (if mode = Some ''packet-up'' then PacketUp
      else if mode = Some ''stream-up'' then StreamUp else StreamOne)"

definition parse_fingerprint :: "string option \<Rightarrow> utls_fingerprint" where
  "parse_fingerprint value =
     (let v = to_ascii_lowercase (unwrap_or [] value) in
      if v = ''chrome'' then FpChrome else if v = ''firefox'' then FpFirefox
      else if v = ''safari'' then FpSafari else if v = ''edge'' then FpEdge
      else if v = ''randomized'' \<or> v = ''random'' then FpRandomized else FpNone)"

definition split_csv :: "string option \<Rightarrow> string list" where
  "split_csv value = filter (\<lambda>v. v \<noteq> []) (split_char (CHR '','') (unwrap_or [] value))"

definition parse_u32_opt :: "string \<Rightarrow> u32 option" where
  "parse_u32_opt s = map_option of_nat (parse_uint 10 (2 ^ 32 - 1) s)"

definition parse_u64_opt :: "string \<Rightarrow> u64 option" where
  "parse_u64_opt s = map_option of_nat (parse_uint 10 (2 ^ 64 - 1) s)"

definition try_from_u64 :: "u64 \<Rightarrow> u16 option" where
  "try_from_u64 v = (if unat v < 2 ^ 16 then Some (of_nat (unat v)) else None)"

fun json_u64 :: "json_scalar \<Rightarrow> u64 option" where
  "json_u64 (JvU64 v) = Some v"
| "json_u64 (JvStr s) = parse_u64_opt s"
| "json_u64 JvOther = None"

definition parse_u16 :: "json_scalar \<Rightarrow> string \<Rightarrow> u16 parsed" where
  "parse_u16 value field =
     try_then (ok_or (MissingField field) (json_u64 value)) (\<lambda>v.
       ok_or (InvalidValue field (show_nat (unat v))) (try_from_u64 v))"

definition endpoint_from_host :: "string \<Rightarrow> u16 \<Rightarrow> endpoint_target parsed" where
  "endpoint_from_host host port =
     (if port = 0 then Err (InvalidEndpoint ''port cannot be zero'')
      else case parse_ip host of
             Some ip \<Rightarrow> Ok (Ip (SocketAddr ip port))
           | None \<Rightarrow> map_err InvalidEndpoint (EndpointTarget_domain host port))"

definition endpoint :: "url \<Rightarrow> u16 \<Rightarrow> endpoint_target parsed" where
  "endpoint u default_port =
     try_then (ok_or (MissingField ''host'') (url_host_str u)) (\<lambda>host.
     try_then (ok_or (MissingField ''port'')
         (or_opt (url_port u) (if default_port \<noteq> 0 then Some default_port else None))) (\<lambda>port.
     endpoint_from_host host port))"

definition label :: "parse_env \<Rightarrow> url \<Rightarrow> string \<Rightarrow> string" where
  "label pe u fallback =
     unwrap_or fallback
       (filter_opt (\<lambda>v. v \<noteq> []) (map_option (\<lambda>f. from_utf8_lossy (pe_percent_decode pe f)) (url_fragment u)))"

definition parse_transport :: "url \<Rightarrow> transport_spec parsed" where
  "parse_transport u =
     (let kind = unwrap_or ''tcp'' (query_get u ''type'') in
      if kind = ''tcp'' then Ok Tcp
      else if kind = ''ws'' then
        Ok (WebSocket \<lparr>ws_path = unwrap_or ''/'' (query_get u ''path''), ws_host = query_get u ''host'',
          ws_max_early_data = unwrap_or 0 (Option.bind (query_get u ''ed'') parse_u32_opt),
          ws_early_data_header = query_get u ''eh''\<rparr>)
      else if kind = ''grpc'' then
        Ok (Grpc \<lparr>gr_service_name = unwrap_or [] (query_get u ''serviceName''),
          gr_multi_mode = (query_get u ''mode'' = Some ''multi'')\<rparr>)
      else if kind = ''xhttp'' then
        Ok (XHttp \<lparr>xh_mode = parse_xhttp_mode (query_get u ''mode''),
          xh_path = unwrap_or ''/'' (query_get u ''path''), xh_host = query_get u ''host''\<rparr>)
      else Err (InvalidValue ''type'' kind))"

definition parse_security :: "url \<Rightarrow> security_spec parsed" where
  "parse_security u =
     (let kind = unwrap_or ''none'' (query_get u ''security'') in
      if kind = ''none'' \<or> kind = [] then Ok SecNone
      else if kind = ''tls'' then
        Ok (SecTls \<lparr>tl_server_name = unwrap_or [] (query_get u ''sni''),
          tl_alpn = split_csv (query_get u ''alpn''),
          tl_fingerprint = parse_fingerprint (query_get u ''fp''),
          tl_allow_insecure = (query_get u ''allowInsecure'' \<in> {Some ''1'', Some ''true''})\<rparr>)
      else if kind = ''reality'' then
        try_then (ok_or (MissingField ''pbk'') (query_get u ''pbk'')) (\<lambda>pbk.
          Ok (SecReality \<lparr>re_server_name = unwrap_or [] (query_get u ''sni''), re_public_key = pbk,
            re_short_id = unwrap_or [] (query_get u ''sid''), re_spider_x = query_get u ''spx'',
            re_fingerprint = parse_fingerprint (query_get u ''fp'')\<rparr>))
      else Err (InvalidValue ''security'' kind))"

definition parse_vmess_transport :: "vmess_wire \<Rightarrow> transport_spec" where
  "parse_vmess_transport w =
     (let net = unwrap_or ''tcp'' (vw_net w) in
      if net = ''ws'' then
        WebSocket \<lparr>ws_path = unwrap_or ''/'' (vw_path w), ws_host = vw_host w, ws_max_early_data = 0,
          ws_early_data_header = None\<rparr>
      else if net = ''grpc'' then
        Grpc \<lparr>gr_service_name = unwrap_or [] (vw_path w), gr_multi_mode = False\<rparr>
      else Tcp)"

definition parse_vmess_security :: "vmess_wire \<Rightarrow> security_spec" where
  "parse_vmess_security w =
     (if unwrap_or [] (vw_tls w) = ''tls'' then
        SecTls \<lparr>tl_server_name = unwrap_or [] (vw_sni w), tl_alpn = split_csv (vw_alpn w),
          tl_fingerprint = parse_fingerprint (vw_fp w), tl_allow_insecure = False\<rparr>
      else SecNone)"

section \<open>One function for each scheme (\<open>uri.rs\<close>)\<close>

definition build_node ::
    "parse_env \<Rightarrow> node_metadata \<Rightarrow> endpoint_target \<Rightarrow> protocol_spec \<Rightarrow> transport_spec \<Rightarrow> security_spec
      \<Rightarrow> canonical_node parsed" where
  "build_node pe meta ep protocol transport security =
     map_err InvalidEndpoint (try_new (pe_codec pe) meta ep protocol transport security None)"

definition parse_flow :: "string option \<Rightarrow> vless_flow option parsed" where
  "parse_flow value =
     (case value of
        Some v \<Rightarrow>
          if v = ''xtls-rprx-vision'' then Ok (Some XtlsRprxVision)
          else if v = ''xtls-rprx-vision-udp443'' then Ok (Some XtlsRprxVisionUdp443)
          else if v \<noteq> [] then Err (InvalidValue ''flow'' v)
          else Ok None
      | None \<Rightarrow> Ok None)"

definition parse_vless :: "parse_env \<Rightarrow> url \<Rightarrow> sub_id \<Rightarrow> u64 \<Rightarrow> canonical_node parsed" where
  "parse_vless pe u sub ts =
     try_then (parse_uuid pe (url_username u)) (\<lambda>uuid.
     try_then (endpoint u 443) (\<lambda>ep.
     try_then (parse_transport u) (\<lambda>transport.
     try_then (parse_security u) (\<lambda>security.
     try_then (parse_flow (query_get u ''flow'')) (\<lambda>flow.
     try_then (make_metadata sub (label pe u ''VLESS Node'') ts) (\<lambda>meta.
       build_node pe meta ep (Vless \<lparr>vl_uuid = uuid, vl_flow = flow\<rparr>) transport security))))))"

definition parse_vmess_cipher :: "string \<Rightarrow> vmess_cipher parsed" where
  "parse_vmess_cipher s =
     (let v = to_ascii_lowercase s in
      if v = ''auto'' then Ok VmAuto
      else if v = ''aes-128-gcm'' then Ok VmAes128Gcm
      else if v = ''chacha20-poly1305'' then Ok VmChacha20Poly1305
      else if v = ''none'' then Ok VmNone
      else Err (InvalidValue ''scy'' v))"

definition vmess_payload :: "url \<Rightarrow> string" where
  "vmess_payload u =
     (case url_host_str u of
        Some h \<Rightarrow> h
      | None \<Rightarrow> trim_start_matches (CHR ''/'') (url_path u))"

definition parse_vmess :: "parse_env \<Rightarrow> url \<Rightarrow> sub_id \<Rightarrow> u64 \<Rightarrow> canonical_node parsed" where
  "parse_vmess pe u sub ts =
     (let payload = vmess_payload u in
      if payload = [] then Err (MissingField ''vmess payload'')
      else
        try_then (map_err Base64Decode (decode_bundle pe payload)) (\<lambda>decoded.
        try_then (map_err Json (pe_vmess_json pe decoded)) (\<lambda>wire.
        try_then (ok_or (MissingField ''add'') (vw_add wire)) (\<lambda>host.
        try_then (ok_or (MissingField ''port'') (vw_port wire)) (\<lambda>port_value.
        try_then (parse_u16 port_value ''port'') (\<lambda>port.
        try_then (ok_or (MissingField ''id'') (vw_id wire)) (\<lambda>uuid_text.
        try_then (parse_uuid pe uuid_text) (\<lambda>uuid.
        try_then (parse_vmess_cipher (unwrap_or ''auto'' (vw_scy wire))) (\<lambda>cipher.
        try_then (make_metadata sub (unwrap_or ''VMess Node'' (vw_ps wire)) ts) (\<lambda>meta.
        try_then (endpoint_from_host host port) (\<lambda>ep.
        try_then (parse_u16 (unwrap_or (JvU64 0) (vw_aid wire)) ''aid'') (\<lambda>alter_id.
          build_node pe meta ep (Vmess \<lparr>vm_uuid = uuid, vm_alter_id = alter_id, vm_cipher = cipher\<rparr>)
            (parse_vmess_transport wire) (parse_vmess_security wire)))))))))))))"

definition decode_password :: "parse_env \<Rightarrow> url \<Rightarrow> string parsed" where
  "decode_password pe u =
     (let password = pe_percent_decode pe (url_username u) in
      if \<not> is_utf8 password then Err (InvalidValue ''password'' ''invalid UTF-8'')
      else if password = [] then Err (MissingField ''password'')
      else Ok password)"

definition parse_trojan :: "parse_env \<Rightarrow> url \<Rightarrow> sub_id \<Rightarrow> u64 \<Rightarrow> canonical_node parsed" where
  "parse_trojan pe u sub ts =
     try_then (decode_password pe u) (\<lambda>password.
     try_then (make_metadata sub (label pe u ''Trojan Node'') ts) (\<lambda>meta.
     try_then (endpoint u 443) (\<lambda>ep.
     try_then (parse_transport u) (\<lambda>transport.
     try_then (parse_security u) (\<lambda>security.
       build_node pe meta ep (Trojan \<lparr>tr_password = password\<rparr>) transport security)))))"

definition parse_plugin :: "url \<Rightarrow> string option \<times> string option" where
  "parse_plugin u =
     (case query_get u ''plugin'' of
        Some value \<Rightarrow>
          (case split_once '';'' value of
             Some (name, opts) \<Rightarrow> if opts \<noteq> [] then (Some name, Some opts) else (Some name, None)
           | None \<Rightarrow> (Some value, query_get u ''plugin-opts''))
      | None \<Rightarrow> (None, None))"

definition parse_shadowsocks :: "parse_env \<Rightarrow> url \<Rightarrow> sub_id \<Rightarrow> u64 \<Rightarrow> canonical_node parsed" where
  "parse_shadowsocks pe u sub ts =
     try_then (map_err Base64Decode (decode_bundle pe (url_username u))) (\<lambda>credentials.
     if \<not> is_utf8 credentials then Err (InvalidValue ''credentials'' ''invalid UTF-8'')
     else
       try_then (ok_or (MissingField ''method/password'') (split_once '':'' credentials)) (\<lambda>(m, password).
       try_then (parse_ss_method m) (\<lambda>cipher.
       try_then (endpoint u 0) (\<lambda>ep.
       try_then (make_metadata sub (label pe u ''Shadowsocks Node'') ts) (\<lambda>meta.
         build_node pe meta ep (Shadowsocks \<lparr>ss_method = cipher, ss_password = password,
           ss_plugin = fst (parse_plugin u), ss_plugin_opts = snd (parse_plugin u)\<rparr>) Tcp SecNone)))))"

definition parse_hysteria2 :: "parse_env \<Rightarrow> url \<Rightarrow> sub_id \<Rightarrow> u64 \<Rightarrow> canonical_node parsed" where
  "parse_hysteria2 pe u sub ts =
     try_then (decode_password pe u) (\<lambda>password.
     let obfs = map_option (\<lambda>t. \<lparr>ob_type = t,
           ob_password = unwrap_or [] (query_get u ''obfs-password'')\<rparr>) (query_get u ''obfs'')
     in
     try_then (make_metadata sub (label pe u ''Hysteria2 Node'') ts) (\<lambda>meta.
     try_then (endpoint u 443) (\<lambda>ep.
       build_node pe meta ep (Hysteria2 \<lparr>hy_password = password,
         hy_up_mbps = Option.bind (query_get u ''up'') parse_u32_opt,
         hy_down_mbps = Option.bind (query_get u ''down'') parse_u32_opt,
         hy_obfs = obfs, hy_port_hopping = query_get u ''mport''\<rparr>) Tcp SecNone)))"

definition parse_congestion :: "string \<Rightarrow> string \<Rightarrow> tuic_congestion parsed" where
  "parse_congestion field v =
     (if v = ''bbr'' then Ok Bbr else if v = ''new_reno'' then Ok NewReno
      else if v = ''cubic'' then Ok Cubic else Err (InvalidValue field v))"

definition parse_relay :: "string \<Rightarrow> string \<Rightarrow> tuic_udp_relay parsed" where
  "parse_relay field v =
     (if v = ''native'' then Ok RelayNative else if v = ''quic'' then Ok RelayQuic
      else Err (InvalidValue field v))"

definition parse_tuic :: "parse_env \<Rightarrow> url \<Rightarrow> sub_id \<Rightarrow> u64 \<Rightarrow> canonical_node parsed" where
  "parse_tuic pe u sub ts =
     try_then (parse_uuid pe (url_username u)) (\<lambda>uuid.
     try_then (parse_congestion ''congestion_control''
        (unwrap_or ''cubic'' (query_get u ''congestion_control''))) (\<lambda>congestion.
     try_then (parse_relay ''udp_relay_mode''
        (unwrap_or ''native'' (query_get u ''udp_relay_mode''))) (\<lambda>relay.
     try_then (make_metadata sub (label pe u ''TUIC Node'') ts) (\<lambda>meta.
     try_then (endpoint u 443) (\<lambda>ep.
       build_node pe meta ep (Tuic \<lparr>tu_uuid = uuid, tu_password = unwrap_or [] (url_password u),
         tu_congestion_control = congestion, tu_udp_relay_mode = relay,
         tu_zero_rtt_handshake = (query_get u ''zero_rtt_handshake'' = Some ''true'')\<rparr>) Tcp SecNone)))))"

definition parse_entry :: "parse_env \<Rightarrow> string \<Rightarrow> sub_id \<Rightarrow> u64 \<Rightarrow> canonical_node parsed" where
  "parse_entry pe raw sub ts =
     try_then (map_err InvalidUri (pe_url pe raw)) (\<lambda>u.
       let scheme = url_scheme u in
       if scheme = ''vless'' then parse_vless pe u sub ts
       else if scheme = ''vmess'' then parse_vmess pe u sub ts
       else if scheme = ''trojan'' then parse_trojan pe u sub ts
       else if scheme = ''ss'' then parse_shadowsocks pe u sub ts
       else if scheme = ''hysteria2'' \<or> scheme = ''hy2'' then parse_hysteria2 pe u sub ts
       else if scheme = ''tuic'' then parse_tuic pe u sub ts
       else Err (UnsupportedFormat scheme))"

section \<open>What a parsed node is\<close>

definition imported :: "parse_env \<Rightarrow> sub_id \<Rightarrow> u64 \<Rightarrow> canonical_node \<Rightarrow> bool" where
  "imported pe sub ts n \<longleftrightarrow> wf_node (pe_codec pe) n \<and> nm_sub_id (cn_meta n) = sub
     \<and> nm_import_timestamp (cn_meta n) = ts
     \<and> nm_country_code (cn_meta n) = extract_country_code (nm_label (cn_meta n)) \<and> cn_mux n = None"

lemma build_node_imported:
  assumes "build_node pe meta ep p t s = Ok n" and "make_metadata sub l ts = Ok meta"
  shows "imported pe sub ts n \<and> cn_protocol n = p \<and> cn_transport n = t \<and> cn_security n = s"
proof -
  from assms(1) have new: "try_new (pe_codec pe) meta ep p t s None = Ok n"
    by (simp add: build_node_def)
  have meta: "meta = \<lparr>nm_sub_id = sub, nm_label = l, nm_country_code = extract_country_code l,
      nm_import_timestamp = ts\<rparr>" using assms(2) by (simp add: make_metadata_total)
  show ?thesis
    using try_new_wf[OF new] try_new_Ok(2-6)[OF new] by (simp add: imported_def meta filter_opt_def)
qed

fun scheme_protocol :: "string \<Rightarrow> protocol_spec \<Rightarrow> bool" where
  "scheme_protocol scheme (Vless c) = (scheme = ''vless'')"
| "scheme_protocol scheme (Vmess c) = (scheme = ''vmess'')"
| "scheme_protocol scheme (Trojan c) = (scheme = ''trojan'')"
| "scheme_protocol scheme (Shadowsocks c) = (scheme = ''ss'')"
| "scheme_protocol scheme (Hysteria2 c) = (scheme \<in> {''hysteria2'', ''hy2''})"
| "scheme_protocol scheme (Tuic c) = (scheme = ''tuic'')"
| "scheme_protocol scheme (WireGuard c) = False"

lemma parse_vless_imported:
  assumes "parse_vless pe u sub ts = Ok n"
  shows "imported pe sub ts n \<and> scheme_protocol ''vless'' (cn_protocol n)"
proof -
  obtain uuid ep tr sec flow meta where "build_node pe meta ep (Vless \<lparr>vl_uuid = uuid, vl_flow = flow\<rparr>) tr sec = Ok n"
    "make_metadata sub (label pe u ''VLESS Node'') ts = Ok meta"
    using assms by (auto simp: parse_vless_def)
  from build_node_imported[OF this] show ?thesis by auto
qed

lemma parse_vmess_imported:
  assumes "parse_vmess pe u sub ts = Ok n"
  shows "imported pe sub ts n \<and> scheme_protocol ''vmess'' (cn_protocol n)"
proof -
  obtain c ep tr sec l meta where "build_node pe meta ep (Vmess c) tr sec = Ok n"
    "make_metadata sub l ts = Ok meta"
    using assms by (auto simp: parse_vmess_def Let_def split: if_splits)
  from build_node_imported[OF this] show ?thesis by auto
qed

lemma parse_trojan_imported:
  assumes "parse_trojan pe u sub ts = Ok n"
  shows "imported pe sub ts n \<and> scheme_protocol ''trojan'' (cn_protocol n)"
proof -
  obtain c ep tr sec meta where "build_node pe meta ep (Trojan c) tr sec = Ok n"
    "make_metadata sub (label pe u ''Trojan Node'') ts = Ok meta"
    using assms by (auto simp: parse_trojan_def)
  from build_node_imported[OF this] show ?thesis by auto
qed

lemma parse_shadowsocks_imported:
  assumes "parse_shadowsocks pe u sub ts = Ok n"
  shows "imported pe sub ts n \<and> scheme_protocol ''ss'' (cn_protocol n)"
proof -
  obtain c ep tr sec meta where "build_node pe meta ep (Shadowsocks c) tr sec = Ok n"
    "make_metadata sub (label pe u ''Shadowsocks Node'') ts = Ok meta"
    using assms by (auto simp: parse_shadowsocks_def split: if_splits prod.splits)
  from build_node_imported[OF this] show ?thesis by auto
qed

lemma parse_hysteria2_imported:
  assumes "parse_hysteria2 pe u sub ts = Ok n" and "scheme \<in> {''hysteria2'', ''hy2''}"
  shows "imported pe sub ts n \<and> scheme_protocol scheme (cn_protocol n)"
proof -
  obtain c ep tr sec meta where "build_node pe meta ep (Hysteria2 c) tr sec = Ok n"
    "make_metadata sub (label pe u ''Hysteria2 Node'') ts = Ok meta"
    using assms(1) by (auto simp: parse_hysteria2_def Let_def)
  from build_node_imported[OF this] assms(2) show ?thesis by auto
qed

lemma parse_tuic_imported:
  assumes "parse_tuic pe u sub ts = Ok n"
  shows "imported pe sub ts n \<and> scheme_protocol ''tuic'' (cn_protocol n)"
proof -
  obtain c ep tr sec meta where "build_node pe meta ep (Tuic c) tr sec = Ok n"
    "make_metadata sub (label pe u ''TUIC Node'') ts = Ok meta"
    using assms by (auto simp: parse_tuic_def)
  from build_node_imported[OF this] show ?thesis by auto
qed

lemma parse_entry_cases:
  assumes "parse_entry pe raw sub ts = Ok n"
  shows "imported pe sub ts n \<and> (\<exists>u. pe_url pe raw = Ok u \<and> scheme_protocol (url_scheme u) (cn_protocol n))"
proof -
  obtain u where u: "pe_url pe raw = Ok u" using assms by (auto simp: parse_entry_def)
  have "imported pe sub ts n \<and> scheme_protocol (url_scheme u) (cn_protocol n)"
    using assms u parse_vless_imported[of pe u sub ts n] parse_vmess_imported[of pe u sub ts n]
      parse_trojan_imported[of pe u sub ts n] parse_shadowsocks_imported[of pe u sub ts n]
      parse_hysteria2_imported[of pe u sub ts n "url_scheme u"] parse_tuic_imported[of pe u sub ts n]
    by (simp add: parse_entry_def Let_def split: if_splits)
  with u show ?thesis by blast
qed

lemma parse_entry_imported: "parse_entry pe raw sub ts = Ok n \<Longrightarrow> imported pe sub ts n"
  by (simp add: parse_entry_cases)

text \<open>
  Claim C40.  A link that is accepted gives a node whose endpoint is normalized with a non-zero
  port, whose hash is the hash of its own functional settings, whose metadata carry the given
  subscription and time, and whose protocol is the one its scheme names.
\<close>

theorem parse_entry_imports_scheme:
  assumes "parse_entry pe raw sub ts = Ok n"
  shows "imported pe sub ts n \<and> (\<exists>u. pe_url pe raw = Ok u \<and> scheme_protocol (url_scheme u) (cn_protocol n))
     \<and> (case cn_endpoint n of Domain h p \<Rightarrow> p \<noteq> 0 \<and> parse_ip h = None | Ip a \<Rightarrow> sa_port a \<noteq> 0)"
proof -
  from parse_entry_cases[OF assms] have norm: "EndpointTarget_normalize (cn_endpoint n) = Ok (cn_endpoint n)"
    by (simp add: imported_def wf_node_def normalized_endpoint_def)
  have "case cn_endpoint n of Domain h p \<Rightarrow> p \<noteq> 0 \<and> parse_ip h = None | Ip a \<Rightarrow> sa_port a \<noteq> 0"
  proof (cases "cn_endpoint n")
    case (Domain h p)
    with norm have "normalize_host h = Ok h" "p \<noteq> 0"
      by (auto simp: EndpointTarget_domain_def split: if_splits)
    with normalize_host_Ok(5) Domain show ?thesis by simp
  qed (use norm in \<open>auto split: if_splits\<close>)
  with parse_entry_cases[OF assms] show ?thesis by blast
qed

section \<open>Behaviour worth knowing\<close>

text \<open>
  A URL shows an IPv6 host in square brackets.  Such a host is not read as an address: the node
  gets the bracketed text as a domain name.
\<close>

text \<open>
  A link with an IPv6 literal never yields an IP endpoint: the bracketed literal is
  taken for a domain name, which has to be resolved and cannot be.
\<close>

theorem ipv6_link_becomes_domain:
  assumes "url_host_str u = Some (CHR ''['' # h)" and "endpoint u d = Ok ep"
  shows "\<exists>host port. ep = Domain host port \<and> parse_ip host = None"
proof -
  have not_ip: "parse_ip (CHR ''['' # h) = None"
    by (rule parse_ip_not_hex) (simp_all add: to_digit_def is_ascii_digit_def is_ascii_lowercase_def
        is_ascii_uppercase_def)
  obtain port where "endpoint_from_host (CHR ''['' # h) port = Ok ep"
    using assms by (auto simp: endpoint_def)
  then obtain host where "normalize_host (CHR ''['' # h) = Ok host" "ep = Domain host port"
    by (auto simp: endpoint_from_host_def not_ip EndpointTarget_domain_def split: if_splits)
  with normalize_host_Ok(5) show ?thesis by blast
qed

text \<open>
  A VMess link is read up to the first slash: with a host present the path of the URL, where the
  rest of a Base64 payload that contains a slash ends up, is never looked at.
\<close>

lemma vmess_path_ignored:
  "url_host_str u = Some h \<Longrightarrow> parse_vmess pe (u\<lparr>url_path := p\<rparr>) sub ts = parse_vmess pe u sub ts"
  by (simp add: parse_vmess_def vmess_payload_def Let_def)

text \<open>The password of a TUIC link stays percent encoded, unlike that of a Trojan link.\<close>

lemma tuic_password_not_decoded:
  assumes "parse_tuic pe u sub ts = Ok n"
  shows "\<exists>c. cn_protocol n = Tuic c \<and> tu_password c = unwrap_or [] (url_password u)"
proof -
  obtain c meta ep where "build_node pe meta ep (Tuic c) Tcp SecNone = Ok n"
    "make_metadata sub (label pe u ''TUIC Node'') ts = Ok meta" "tu_password c = unwrap_or [] (url_password u)"
    using assms by (auto simp: parse_tuic_def)
  with build_node_imported[OF this(1,2)] show ?thesis by auto
qed

section \<open>An environment to run examples with\<close>

definition sample_url :: "string \<Rightarrow> url" where
  "sample_url host = \<lparr>url_scheme = ''vless'', url_username = ''u'', url_password = None,
     url_host_str = Some host, url_port = Some 443, url_path = [], url_query_pairs = [],
     url_fragment = None\<rparr>"

definition sample_parse_env :: parse_env where
  "sample_parse_env = \<lparr>pe_url = (\<lambda>raw. if raw = ''bad'' then Err ''relative URL without a base'' else Ok (sample_url raw)),
     pe_percent_decode = (\<lambda>s. s), pe_b64_standard = (\<lambda>s. None), pe_b64_standard_no_pad = (\<lambda>s. None),
     pe_b64_url_safe = (\<lambda>s. None), pe_b64_url_safe_no_pad = (\<lambda>s. None),
     pe_vmess_json = (\<lambda>s. Err ''no json''), pe_container_json = (\<lambda>s. Err ''no json''),
     pe_yaml = (\<lambda>s. Err ''no yaml''), pe_uuid = (\<lambda>s. if s = ''u'' then Some 7 else None),
     pe_codec = sample_codec\<rparr>"

definition sample_link_node :: canonical_node where
  "sample_link_node = (sample_node ''VLESS Node'' ''node.com'' 443)
     \<lparr>cn_protocol := Vless \<lparr>vl_uuid = 7, vl_flow = None\<rparr>,
      cn_meta := \<lparr>nm_sub_id = 2, nm_label = ''VLESS Node'', nm_country_code = (CHR ''U'', CHR ''N''),
        nm_import_timestamp = 9\<rparr>\<rparr>"

lemma sample_label_country: "extract_country_code ''VLESS Node'' = (CHR ''U'', CHR ''N'')"
  by (simp add: extract_country_code_def emoji_code_def close_byte_def Let_def COUNTRY_KEYWORDS_def
      to_ascii_lowercase_def ascii_lower_def is_ascii_uppercase_def starts_with_def char_of_def bit_iff_odd)

lemma sample_link_parsed: "parse_entry sample_parse_env ''node.com'' 2 9 = Ok sample_link_node"
proof -
  have ip: "parse_ip ''node.com'' = None"
    by (rule parse_ip_not_hex) (simp_all add: to_digit_def is_ascii_digit_def is_ascii_lowercase_def)
  show ?thesis
    by (simp add: parse_entry_def sample_parse_env_def sample_url_def parse_vless_def parse_uuid_def
        endpoint_def endpoint_from_host_def ip EndpointTarget_domain_def sample_host_id
        parse_transport_def parse_security_def parse_flow_def query_get_def label_def filter_opt_def
        make_metadata_total sample_label_country build_node_def try_new_def sample_codec_def
        sample_link_node_def sample_node_def sample_ser_def CANONICAL_HASH_VERSION_def)
qed

theorem parse_entry_imports_scheme_witness:
  "imported sample_parse_env 2 9 sample_link_node \<and>
     (\<exists>u. pe_url sample_parse_env ''node.com'' = Ok u \<and> scheme_protocol (url_scheme u) (cn_protocol sample_link_node))
     \<and> (case cn_endpoint sample_link_node of Domain h p \<Rightarrow> p \<noteq> 0 \<and> parse_ip h = None | Ip a \<Rightarrow> sa_port a \<noteq> 0)"
  by (rule parse_entry_imports_scheme[OF sample_link_parsed])

lemma sample_v6_endpoint: "endpoint (sample_url ''[::1]'') 443 = Ok (Domain ''[::1]'' 443)"
proof -
  have ip: "parse_ip ''[::1]'' = None"
    by (rule parse_ip_not_hex) (simp_all add: to_digit_def is_ascii_digit_def is_ascii_lowercase_def
        is_ascii_uppercase_def)
  have "to_ascii_lowercase (trim_end_matches (CHR ''.'') (trim ''[::1]'')) = ''[::1]''"
    by (subst trim_id) (simp_all add: trim_end_matches_def to_ascii_lowercase_def ascii_lower_def
        is_ascii_uppercase_def ws1_def ws2_def)
  then have "normalize_host ''[::1]'' = Ok ''[::1]''"
    by (simp add: normalize_host_def Let_def ip ws1_def ws2_def)
  then show ?thesis
    by (simp add: endpoint_def sample_url_def endpoint_from_host_def ip EndpointTarget_domain_def)
qed

theorem ipv6_link_becomes_domain_witness:
  "\<exists>host port. Domain ''[::1]'' 443 = Domain host port \<and> parse_ip host = None"
  by (rule ipv6_link_becomes_domain[OF _ sample_v6_endpoint]) (simp add: sample_url_def)

end
