(* ===== verification/Clash.thy ===== *)
theory Clash
  imports Parser
begin

text \<open>
  Clash documents (\<open>crates/parser/src/clash.rs\<close>): each item of the \<open>proxies\<close> sequence is read
  on its own into a node or an error.  The YAML reader is a field of \<open>parse_env\<close>.
\<close>

section \<open>Reading values\<close>

text \<open>The accessors of \<open>serde_yaml\<close> look through tags.\<close>

fun untag :: "yaml \<Rightarrow> yaml" where
  "untag (YTagged t v) = untag v"
| "untag v = v"

definition as_mapping :: "yaml \<Rightarrow> (yaml \<times> yaml) list option" where
  "as_mapping v = (case untag v of YMapping m \<Rightarrow> Some m | _ \<Rightarrow> None)"

definition as_sequence :: "yaml \<Rightarrow> yaml list option" where
  "as_sequence v = (case untag v of YSequence xs \<Rightarrow> Some xs | _ \<Rightarrow> None)"

definition yaml_str :: "yaml \<Rightarrow> string option" where
  "yaml_str v = (case untag v of YString s \<Rightarrow> Some s | _ \<Rightarrow> None)"

definition as_bool :: "yaml \<Rightarrow> bool option" where
  "as_bool v = (case untag v of YBool b \<Rightarrow> Some b | _ \<Rightarrow> None)"

definition as_u64 :: "yaml \<Rightarrow> u64 option" where
  "as_u64 v = (case untag v of YNumber n t \<Rightarrow> n | _ \<Rightarrow> None)"

definition mapping_get :: "(yaml \<times> yaml) list \<Rightarrow> string \<Rightarrow> yaml option" where
  "mapping_get m key = map_of m (YString key)"

definition map_get :: "yaml \<Rightarrow> string \<Rightarrow> yaml option" where
  "map_get item key = Option.bind (as_mapping item) (\<lambda>m. mapping_get m key)"

fun string_value :: "yaml \<Rightarrow> string" where
  "string_value (YString s) = s"
| "string_value (YNumber n t) = t"
| "string_value (YBool b) = (if b then ''true'' else ''false'')"
| "string_value v = []"

definition string_at :: "yaml \<Rightarrow> string \<Rightarrow> string option" where
  "string_at item key = map_option string_value (map_get item key)"

definition bool_at :: "yaml \<Rightarrow> string \<Rightarrow> bool option" where
  "bool_at item key = Option.bind (map_get item key) as_bool"

definition yaml_u64 :: "yaml \<Rightarrow> u64 option" where
  "yaml_u64 v = or_opt (as_u64 v) (Option.bind (yaml_str v) parse_u64_opt)"

definition u16_at :: "yaml \<Rightarrow> string \<Rightarrow> u16 option parsed" where
  "u16_at item key =
     (case map_get item key of
        None \<Rightarrow> Ok None
      | Some v \<Rightarrow>
          (case Option.bind (yaml_u64 v) try_from_u64 of
             Some port \<Rightarrow> Ok (Some port)
           | None \<Rightarrow> Err (InvalidValue key (string_value v))))"

definition numeric_at :: "yaml \<Rightarrow> string \<Rightarrow> u64 option" where
  "numeric_at item key = Option.bind (map_get item key) yaml_u64"

definition u32_try_from :: "u64 \<Rightarrow> u32 option" where
  "u32_try_from v = (if unat v < 2 ^ 32 then Some (of_nat (unat v)) else None)"

definition clash_endpoint :: "yaml \<Rightarrow> endpoint_target parsed" where
  "clash_endpoint item =
     try_then (ok_or (MissingField ''server'') (string_at item ''server'')) (\<lambda>host.
     try_then (u16_at item ''port'') (\<lambda>p.
     try_then (ok_or (MissingField ''port'') p) (\<lambda>port.
       endpoint_from_host host port)))"

definition label_of :: "yaml \<Rightarrow> string parsed" where
  "label_of item = ok_or (MissingField ''name'') (string_at item ''name'')"

definition clash_metadata :: "yaml \<Rightarrow> sub_id \<Rightarrow> u64 \<Rightarrow> node_metadata parsed" where
  "clash_metadata item sub ts = try_then (label_of item) (\<lambda>l. make_metadata sub l ts)"

section \<open>Transport and security\<close>

definition clash_transport :: "yaml \<Rightarrow> transport_spec parsed" where
  "clash_transport item =
     (let network = unwrap_or ''tcp'' (string_at item ''network'');
          ws_opts = Option.bind (map_get item ''ws-opts'') as_mapping;
          path = or_opt
            (map_option string_value (Option.bind ws_opts (\<lambda>m. mapping_get m ''path'')))
            (map_option string_value (Option.bind ws_opts (\<lambda>m. mapping_get m ''serviceName'')));
          host = map_option string_value
            (Option.bind (Option.bind (Option.bind ws_opts (\<lambda>m. mapping_get m ''headers'')) as_mapping)
              (\<lambda>headers. mapping_get headers ''Host''))
      in
      if network = ''tcp'' \<or> network = [] then Ok Tcp
      else if network = ''ws'' then
        Ok (WebSocket \<lparr>ws_path = unwrap_or ''/'' path, ws_host = host, ws_max_early_data = 0,
          ws_early_data_header = None\<rparr>)
      else if network = ''grpc'' then
        Ok (Grpc \<lparr>gr_service_name = unwrap_or [] path, gr_multi_mode = False\<rparr>)
      else if network = ''httpupgrade'' then
        Ok (HttpUpgrade \<lparr>hu_path = unwrap_or ''/'' path, hu_host = host\<rparr>)
      else Err (InvalidValue ''network'' network))"

definition clash_alpn :: "yaml \<Rightarrow> string list" where
  "clash_alpn item =
     unwrap_or [] (map_option (List.map_filter yaml_str) (Option.bind (map_get item ''alpn'') as_sequence))"

text \<open>The module has its own copy of the fingerprint table of \<open>uri.rs\<close>.\<close>

definition clash_fingerprint :: "string option \<Rightarrow> utls_fingerprint" where
  "clash_fingerprint value =
     (let v = to_ascii_lowercase (unwrap_or [] value) in
      if v = ''chrome'' then FpChrome else if v = ''firefox'' then FpFirefox
      else if v = ''safari'' then FpSafari else if v = ''edge'' then FpEdge
      else if v = ''randomized'' \<or> v = ''random'' then FpRandomized else FpNone)"

definition clash_security :: "yaml \<Rightarrow> string \<Rightarrow> security_spec parsed" where
  "clash_security item kind =
     (let servername = unwrap_or [] (or_opt (string_at item ''servername'') (string_at item ''sni''));
          fp = clash_fingerprint (string_at item ''client-fingerprint'')
      in
      case map_get item ''reality-opts'' of
        Some reality \<Rightarrow>
          try_then (ok_or (MissingField ''public-key'')
              (or_opt (string_at reality ''public-key'') (string_at reality ''public_key''))) (\<lambda>pk.
            Ok (SecReality \<lparr>
              re_server_name = (if servername = [] then unwrap_or [] (string_at item ''server'') else servername),
              re_public_key = pk,
              re_short_id = unwrap_or [] (or_opt (string_at reality ''short-id'') (string_at reality ''short_id'')),
              re_spider_x = or_opt (string_at reality ''spider-x'') (string_at reality ''spider_x''),
              re_fingerprint = fp\<rparr>))
      | None \<Rightarrow>
          if unwrap_or (kind = ''trojan'') (bool_at item ''tls'') \<or> servername \<noteq> [] then
            Ok (SecTls \<lparr>tl_server_name = servername, tl_alpn = clash_alpn item, tl_fingerprint = fp,
              tl_allow_insecure = unwrap_or False (bool_at item ''allow-insecure'')\<rparr>)
          else Ok SecNone)"

definition clash_vmess_security :: "yaml \<Rightarrow> security_spec" where
  "clash_vmess_security item =
     (if \<not> unwrap_or False (bool_at item ''tls'') then SecNone
      else SecTls \<lparr>tl_server_name = unwrap_or [] (string_at item ''servername''),
        tl_alpn = clash_alpn item,
        tl_fingerprint = clash_fingerprint (string_at item ''client-fingerprint''),
        tl_allow_insecure = unwrap_or False (bool_at item ''allow-insecure'')\<rparr>)"

section \<open>One function for each proxy type\<close>

definition clash_ss :: "parse_env \<Rightarrow> yaml \<Rightarrow> sub_id \<Rightarrow> u64 \<Rightarrow> canonical_node parsed" where
  "clash_ss pe item sub ts =
     try_then (parse_ss_method (unwrap_or [] (string_at item ''cipher''))) (\<lambda>cipher.
     try_then (clash_metadata item sub ts) (\<lambda>meta.
     try_then (clash_endpoint item) (\<lambda>ep.
       build_node pe meta ep (Shadowsocks \<lparr>ss_method = cipher,
         ss_password = unwrap_or [] (string_at item ''password''), ss_plugin = None,
         ss_plugin_opts = None\<rparr>) Tcp SecNone)))"

definition clash_vmess_cipher :: "string \<Rightarrow> vmess_cipher parsed" where
  "clash_vmess_cipher v =
     (if v = ''auto'' then Ok VmAuto
      else if v = ''aes-128-gcm'' then Ok VmAes128Gcm
      else if v = ''chacha20-poly1305'' then Ok VmChacha20Poly1305
      else if v = ''none'' then Ok VmNone
      else Err (InvalidValue ''cipher'' v))"

definition clash_vmess :: "parse_env \<Rightarrow> yaml \<Rightarrow> sub_id \<Rightarrow> u64 \<Rightarrow> canonical_node parsed" where
  "clash_vmess pe item sub ts =
     try_then (parse_uuid pe (unwrap_or [] (string_at item ''uuid''))) (\<lambda>uuid.
     try_then (u16_at item ''alterId'') (\<lambda>alter_id.
     try_then (clash_vmess_cipher (unwrap_or ''auto'' (string_at item ''cipher''))) (\<lambda>cipher.
     try_then (clash_metadata item sub ts) (\<lambda>meta.
     try_then (clash_endpoint item) (\<lambda>ep.
     try_then (clash_transport item) (\<lambda>transport.
       build_node pe meta ep (Vmess \<lparr>vm_uuid = uuid, vm_alter_id = unwrap_or 0 alter_id,
         vm_cipher = cipher\<rparr>) transport (clash_vmess_security item)))))))"

definition clash_password :: "yaml \<Rightarrow> string parsed" where
  "clash_password item =
     (let password = unwrap_or [] (string_at item ''password'') in
      if password = [] then Err (MissingField ''password'') else Ok password)"

definition clash_trojan :: "parse_env \<Rightarrow> yaml \<Rightarrow> sub_id \<Rightarrow> u64 \<Rightarrow> canonical_node parsed" where
  "clash_trojan pe item sub ts =
     try_then (clash_password item) (\<lambda>password.
     try_then (clash_metadata item sub ts) (\<lambda>meta.
     try_then (clash_endpoint item) (\<lambda>ep.
     try_then (clash_transport item) (\<lambda>transport.
     try_then (clash_security item ''trojan'') (\<lambda>security.
       build_node pe meta ep (Trojan \<lparr>tr_password = password\<rparr>) transport security)))))"

definition clash_vless :: "parse_env \<Rightarrow> yaml \<Rightarrow> sub_id \<Rightarrow> u64 \<Rightarrow> canonical_node parsed" where
  "clash_vless pe item sub ts =
     try_then (parse_uuid pe (unwrap_or [] (string_at item ''uuid''))) (\<lambda>uuid.
     try_then (parse_flow (string_at item ''flow'')) (\<lambda>flow.
     try_then (clash_metadata item sub ts) (\<lambda>meta.
     try_then (clash_endpoint item) (\<lambda>ep.
     try_then (clash_transport item) (\<lambda>transport.
     try_then (clash_security item ''vless'') (\<lambda>security.
       build_node pe meta ep (Vless \<lparr>vl_uuid = uuid, vl_flow = flow\<rparr>) transport security))))))"

definition clash_hysteria2 :: "parse_env \<Rightarrow> yaml \<Rightarrow> sub_id \<Rightarrow> u64 \<Rightarrow> canonical_node parsed" where
  "clash_hysteria2 pe item sub ts =
     try_then (clash_password item) (\<lambda>password.
     let obfs = map_option (\<lambda>t. \<lparr>ob_type = t,
           ob_password = unwrap_or [] (string_at item ''obfs-password'')\<rparr>) (string_at item ''obfs'')
     in
     try_then (clash_metadata item sub ts) (\<lambda>meta.
     try_then (clash_endpoint item) (\<lambda>ep.
       build_node pe meta ep (Hysteria2 \<lparr>hy_password = password,
         hy_up_mbps = Option.bind (numeric_at item ''up'') u32_try_from,
         hy_down_mbps = Option.bind (numeric_at item ''down'') u32_try_from,
         hy_obfs = obfs, hy_port_hopping = string_at item ''ports''\<rparr>) Tcp SecNone)))"

definition clash_tuic :: "parse_env \<Rightarrow> yaml \<Rightarrow> sub_id \<Rightarrow> u64 \<Rightarrow> canonical_node parsed" where
  "clash_tuic pe item sub ts =
     try_then (parse_uuid pe (unwrap_or [] (string_at item ''uuid''))) (\<lambda>uuid.
     try_then (parse_congestion ''congestion-controller''
        (unwrap_or ''cubic'' (string_at item ''congestion-controller''))) (\<lambda>congestion.
     try_then (parse_relay ''udp-relay-mode''
        (unwrap_or ''native'' (string_at item ''udp-relay-mode''))) (\<lambda>relay.
     try_then (clash_metadata item sub ts) (\<lambda>meta.
     try_then (clash_endpoint item) (\<lambda>ep.
       build_node pe meta ep (Tuic \<lparr>tu_uuid = uuid,
         tu_password = unwrap_or [] (string_at item ''password''),
         tu_congestion_control = congestion, tu_udp_relay_mode = relay,
         tu_zero_rtt_handshake = unwrap_or False (bool_at item ''zero-rtt-handshake'')\<rparr>) Tcp SecNone)))))"

definition parse_proxy :: "parse_env \<Rightarrow> sub_id \<Rightarrow> u64 \<Rightarrow> yaml \<Rightarrow> canonical_node parsed" where
  "parse_proxy pe sub ts item =
     (let name = unwrap_or ''Unnamed Proxy'' (string_at item ''name'');
          kind = unwrap_or [] (string_at item ''type'')
      in
      if kind = ''ss'' then clash_ss pe item sub ts
      else if kind = ''vmess'' then clash_vmess pe item sub ts
      else if kind = ''trojan'' then clash_trojan pe item sub ts
      else if kind = ''vless'' then clash_vless pe item sub ts
      else if kind = ''hysteria2'' then clash_hysteria2 pe item sub ts
      else if kind = ''tuic'' then clash_tuic pe item sub ts
      else if kind = [] then Err (MissingField ''type'')
      else Err (UnsupportedFormat (''Clash proxy type `'' @ kind @ ''` ('' @ name @ '') is not supported'')))"

definition ingest_clash_yaml ::
    "parse_env \<Rightarrow> string \<Rightarrow> sub_id \<Rightarrow> u64 \<Rightarrow> (canonical_node parsed) list parsed" where
  "ingest_clash_yaml pe raw sub ts =
     try_then (map_err (\<lambda>e. Json (''Clash YAML: '' @ e)) (pe_yaml pe raw)) (\<lambda>document.
     try_then (ok_or (MissingField ''proxies'')
         (Option.bind (map_get document ''proxies'') as_sequence)) (\<lambda>proxies.
       Ok (map (parse_proxy pe sub ts) proxies)))"

section \<open>What an item gives\<close>

lemma clash_metadata_make:
  "clash_metadata item sub ts = Ok meta \<Longrightarrow> \<exists>l. make_metadata sub l ts = Ok meta"
  by (auto simp: clash_metadata_def)

lemma clash_built:
  assumes "build_node pe meta ep p t s = Ok n" and "clash_metadata item sub ts = Ok meta"
  shows "imported pe sub ts n \<and> cn_protocol n = p \<and> cn_transport n = t \<and> cn_security n = s"
  using clash_metadata_make[OF assms(2)] build_node_imported[OF assms(1)] by blast

lemma clash_item_imported:
  "clash_ss pe item sub ts = Ok n \<Longrightarrow> imported pe sub ts n \<and> (\<exists>c. cn_protocol n = Shadowsocks c)"
  "clash_vmess pe item sub ts = Ok n \<Longrightarrow> imported pe sub ts n \<and> (\<exists>c. cn_protocol n = Vmess c)"
  "clash_trojan pe item sub ts = Ok n \<Longrightarrow> imported pe sub ts n \<and> (\<exists>c. cn_protocol n = Trojan c)"
  "clash_vless pe item sub ts = Ok n \<Longrightarrow> imported pe sub ts n \<and> (\<exists>c. cn_protocol n = Vless c)"
  "clash_hysteria2 pe item sub ts = Ok n \<Longrightarrow> imported pe sub ts n \<and> (\<exists>c. cn_protocol n = Hysteria2 c)"
  "clash_tuic pe item sub ts = Ok n \<Longrightarrow> imported pe sub ts n \<and> (\<exists>c. cn_protocol n = Tuic c)"
  unfolding clash_ss_def clash_vmess_def clash_trojan_def clash_vless_def clash_hysteria2_def
    clash_tuic_def Let_def try_then_Inr_iff
  by (elim exE conjE; drule (1) clash_built; blast)+

lemma parse_proxy_imported: "parse_proxy pe sub ts item = Ok n \<Longrightarrow> imported pe sub ts n"
  by (auto simp: parse_proxy_def Let_def clash_item_imported split: if_splits)

text \<open>
  The plugin of a Shadowsocks item is not read: the node is stored as one without a plugin.
\<close>

lemma clash_ss_drops_plugin:
  "clash_ss pe item sub ts = Ok n \<Longrightarrow> \<exists>c. cn_protocol n = Shadowsocks c \<and> ss_plugin c = None"
  unfolding clash_ss_def try_then_Inr_iff
  by (elim exE conjE, drule (1) clash_built, elim conjE) (simp add: exI)

lemma fingerprint_tables_agree: "clash_fingerprint = parse_fingerprint"
  by (intro ext) (simp add: clash_fingerprint_def parse_fingerprint_def)

text \<open>A trojan item gets TLS unless it turns it off by name and gives no server name.\<close>

lemma clash_trojan_plaintext_iff:
  "clash_security item ''trojan'' = Ok SecNone \<longleftrightarrow>
     map_get item ''reality-opts'' = None \<and> bool_at item ''tls'' = Some False \<and>
     unwrap_or [] (or_opt (string_at item ''servername'') (string_at item ''sni'')) = []"
  by (cases "bool_at item ''tls''") (auto simp: clash_security_def Let_def split: option.splits if_splits)

end
