(* ===== verification/Ingest.thy ===== *)
theory Ingest
  imports Clash
begin

text \<open>
  Subscription payloads to a report (\<open>crates/parser/src/lib.rs\<close>): a payload is a list of links,
  a Base64 layer over one, or a Clash document; every entry is parsed on its own, duplicates by
  canonical hash are counted and dropped, failures are listed with a redacted snippet.
\<close>

definition MAX_ENTRIES :: nat where
  "MAX_ENTRIES = 100000"

definition MAX_FAILURES :: nat where
  "MAX_FAILURES = 10000"

definition MAX_SNIPPET_BYTES :: nat where
  "MAX_SNIPPET_BYTES = 160"

record parse_failure =
  pf_entry_index :: nat
  pf_line_number :: nat
  pf_raw_snippet :: string
  pf_reason :: parse_error

record ingestion_report =
  ir_total_entries_scanned :: nat
  ir_successful_nodes :: "canonical_node list"
  ir_duplicates_omitted :: nat
  ir_failed_entries :: "parse_failure list"

definition IngestionReport_default :: ingestion_report where
  "IngestionReport_default = \<lparr>ir_total_entries_scanned = 0, ir_successful_nodes = [],
     ir_duplicates_omitted = 0, ir_failed_entries = []\<rparr>"

text \<open>The text of a \<open>Utf8Error\<close>: where the valid prefix ends, and how long the broken piece is.\<close>

function utf8_error_at :: "nat \<Rightarrow> string \<Rightarrow> (nat \<times> nat option) option" where
  "utf8_error_at pos [] = None"
| "utf8_error_at pos (c # s) =
     (case next_piece c s of (n, good) \<Rightarrow>
        if good then utf8_error_at (pos + Suc n) (drop n s)
        else Some (pos, if wanted (byte_of c) \<noteq> None \<and> n = length s then None else Some (Suc n)))"
  by pat_completeness auto
termination by (relation "measure (length \<circ> snd)") auto

definition utf8_error :: "string \<Rightarrow> string" where
  "utf8_error s =
     (case utf8_error_at 0 s of
        Some (pos, Some len) \<Rightarrow>
          ''invalid utf-8 sequence of '' @ show_nat len @ '' bytes from index '' @ show_nat pos
      | Some (pos, None) \<Rightarrow> ''incomplete utf-8 byte sequence from index '' @ show_nat pos
      | None \<Rightarrow> [])"

text \<open>A scheme is ASCII, so cutting the snippet by characters is cutting it by bytes.\<close>

definition safe_snippet :: "string \<Rightarrow> string" where
  "safe_snippet raw =
     (let text = from_utf8_lossy raw;
          scheme = unwrap_or ''entry'' (scheme_of (trim text))
      in take MAX_SNIPPET_BYTES (scheme @ ''://[redacted]''))"

definition record_entry_failure ::
    "nat \<Rightarrow> nat \<Rightarrow> string \<Rightarrow> parse_error \<Rightarrow> ingestion_report \<Rightarrow> ingestion_report" where
  "record_entry_failure entry_index line_number raw reason r =
     (if length (ir_failed_entries r) < MAX_FAILURES
      then r\<lparr>ir_failed_entries := ir_failed_entries r @ [\<lparr>pf_entry_index = entry_index,
        pf_line_number = line_number, pf_raw_snippet = safe_snippet raw, pf_reason = reason\<rparr>]\<rparr>
      else r)"

definition collect_entries :: "string \<Rightarrow> (nat \<times> string) list" where
  "collect_entries text =
     List.map_filter (\<lambda>(index, l). let line = trim l in
       if line \<noteq> [] \<and> \<not> starts_with ''#'' line then Some (index + 1, line) else None)
       (enumerate 0 (lines text))"

text \<open>
  The loop over entries, each with its index, line number, text and parse result; \<open>seen\<close> is the
  set of hashes inserted so far.
\<close>

type_synonym entry_result = "nat \<times> nat \<times> string \<times> canonical_node parsed"

fun absorb :: "entry_result list \<Rightarrow> canonical_hash set \<Rightarrow> ingestion_report \<Rightarrow> ingestion_report" where
  "absorb [] seen r = r"
| "absorb ((i, lno, raw, result) # items) seen r =
     (let r1 = r\<lparr>ir_total_entries_scanned := ir_total_entries_scanned r + 1\<rparr> in
      case result of
        Inr node \<Rightarrow>
          if cn_hash node \<notin> seen
          then absorb items (insert (cn_hash node) seen)
                 (r1\<lparr>ir_successful_nodes := ir_successful_nodes r1 @ [node]\<rparr>)
          else absorb items seen (r1\<lparr>ir_duplicates_omitted := ir_duplicates_omitted r1 + 1\<rparr>)
      | Inl reason \<Rightarrow> absorb items seen (record_entry_failure i lno raw reason r1))"

definition ingest_entries ::
    "parse_env \<Rightarrow> sub_id \<Rightarrow> u64 \<Rightarrow> (nat \<times> string) list \<Rightarrow> ingestion_report \<Rightarrow> ingestion_report" where
  "ingest_entries pe sub ts entries r =
     absorb (map (\<lambda>(i, lno, entry). (i, lno, entry, parse_entry pe entry sub ts))
       (enumerate 0 (take MAX_ENTRIES entries))) {} r"

definition ingest_clash_document ::
    "parse_env \<Rightarrow> string \<Rightarrow> string \<Rightarrow> sub_id \<Rightarrow> u64 \<Rightarrow> ingestion_report \<Rightarrow> ingestion_report" where
  "ingest_clash_document pe raw text sub ts r =
     (case ingest_clash_yaml pe text sub ts of
        Inl reason \<Rightarrow> record_entry_failure 0 1 raw reason r
      | Inr results \<Rightarrow>
          absorb (map (\<lambda>(i, result). (i, i + 1, raw, result))
            (enumerate 0 (take MAX_ENTRIES results))) {} r)"

definition singbox_error :: parse_error where
  "singbox_error = UnsupportedFormat
     ''sing-box JSON configuration is not supported; use proxy URI entries''"

definition ingest_with_timestamp :: "parse_env \<Rightarrow> string \<Rightarrow> sub_id \<Rightarrow> u64 \<Rightarrow> ingestion_report" where
  "ingest_with_timestamp pe raw sub ts =
     (if \<not> is_utf8 raw
      then record_entry_failure 0 1 raw (InvalidUri (utf8_error raw)) IngestionReport_default
      else
        let entries = collect_entries raw in
        if entries \<noteq> [] \<and> \<not> list_ex (\<lambda>(lno, entry). is_supported_scheme entry) entries
        then
          (case detect_container pe raw of
             Some ClashYaml \<Rightarrow> ingest_clash_document pe raw raw sub ts IngestionReport_default
           | Some SingBoxJson \<Rightarrow> record_entry_failure 0 1 raw singbox_error IngestionReport_default
           | None \<Rightarrow>
               (case decode_bundle pe (remove_ws raw) of
                  Inl e \<Rightarrow> ingest_entries pe sub ts entries
                    (record_entry_failure 0 1 raw (Base64Decode e) IngestionReport_default)
                | Inr decoded \<Rightarrow>
                    if is_utf8 decoded then
                      if looks_like_supported_entry decoded
                      then ingest_entries pe sub ts (collect_entries decoded) IngestionReport_default
                      else
                        (case detect_container pe decoded of
                           Some ClashYaml \<Rightarrow> ingest_clash_document pe raw decoded sub ts IngestionReport_default
                         | Some SingBoxJson \<Rightarrow> record_entry_failure 0 1 raw singbox_error IngestionReport_default
                         | None \<Rightarrow> ingest_entries pe sub ts entries
                             (record_entry_failure 0 1 raw
                               (UnsupportedFormat ''input is not a supported URI bundle'') IngestionReport_default))
                    else ingest_entries pe sub ts entries
                      (record_entry_failure 0 1 raw
                        (UnsupportedFormat ''input is not a supported URI bundle'') IngestionReport_default)))
        else ingest_entries pe sub ts entries IngestionReport_default)"

definition ingest_subscription :: "parse_env \<Rightarrow> u64 \<Rightarrow> string \<Rightarrow> sub_id \<Rightarrow> ingestion_report" where
  "ingest_subscription pe now raw sub = ingest_with_timestamp pe raw sub now"

section \<open>The report adds up\<close>

definition redacted :: "string \<Rightarrow> bool" where
  "redacted s \<longleftrightarrow> (\<exists>scheme. list_all scheme_byte scheme \<and> s = take MAX_SNIPPET_BYTES (scheme @ ''://[redacted]''))"

text \<open>
  The invariant of the loop.  \<open>extra\<close> counts the failures recorded for the payload as a whole;
  below the limit every scanned entry is a node, a duplicate or a listed failure.
\<close>

definition report_ok :: "parse_env \<Rightarrow> sub_id \<Rightarrow> u64 \<Rightarrow> nat \<Rightarrow> ingestion_report \<Rightarrow> bool" where
  "report_ok pe sub ts extra r \<longleftrightarrow>
     (\<forall>n \<in> set (ir_successful_nodes r). imported pe sub ts n) \<and>
     distinct (map cn_hash (ir_successful_nodes r)) \<and>
     length (ir_failed_entries r) \<le> MAX_FAILURES \<and>
     (\<forall>f \<in> set (ir_failed_entries r). redacted (pf_raw_snippet f)) \<and>
     length (ir_successful_nodes r) + ir_duplicates_omitted r \<le> ir_total_entries_scanned r \<and>
     length (ir_failed_entries r) = min MAX_FAILURES (extra + (ir_total_entries_scanned r
       - (length (ir_successful_nodes r) + ir_duplicates_omitted r)))"

lemma scheme_of_bytes: "scheme_of s = Some t \<Longrightarrow> list_all scheme_byte t"
  by (auto simp: scheme_of_def split: option.splits prod.splits if_splits)

lemma safe_snippet_redacted: "redacted (safe_snippet raw)"
proof -
  let ?t = "unwrap_or ''entry'' (scheme_of (trim (from_utf8_lossy raw)))"
  have "list_all scheme_byte ?t"
    by (cases "scheme_of (trim (from_utf8_lossy raw))")
      (auto simp: scheme_of_bytes scheme_byte_def is_ascii_alphanumeric_def is_ascii_lowercase_def)
  then show ?thesis unfolding redacted_def safe_snippet_def Let_def by blast
qed

lemma record_entry_failure_fields [simp]:
  "ir_total_entries_scanned (record_entry_failure i lno raw e r) = ir_total_entries_scanned r"
  "ir_successful_nodes (record_entry_failure i lno raw e r) = ir_successful_nodes r"
  "ir_duplicates_omitted (record_entry_failure i lno raw e r) = ir_duplicates_omitted r"
  "length (ir_failed_entries (record_entry_failure i lno raw e r)) =
     (if length (ir_failed_entries r) < MAX_FAILURES then Suc (length (ir_failed_entries r))
      else length (ir_failed_entries r))"
  by (simp_all add: record_entry_failure_def)

lemma record_entry_failure_snippets:
  "\<forall>f \<in> set (ir_failed_entries r). redacted (pf_raw_snippet f) \<Longrightarrow>
   \<forall>f \<in> set (ir_failed_entries (record_entry_failure i lno raw e r)). redacted (pf_raw_snippet f)"
  by (auto simp: record_entry_failure_def safe_snippet_redacted)

lemma report_ok_default: "report_ok pe sub ts 0 IngestionReport_default"
  by (simp add: report_ok_def IngestionReport_default_def)

lemma report_ok_document_failure:
  "report_ok pe sub ts 1 (record_entry_failure i lno raw e IngestionReport_default)"
  using record_entry_failure_snippets[of IngestionReport_default i lno raw e]
  by (simp add: report_ok_def IngestionReport_default_def MAX_FAILURES_def)

lemma report_ok_entry_failure:
  assumes "report_ok pe sub ts x r"
  shows "report_ok pe sub ts x (record_entry_failure i lno raw e
     (r\<lparr>ir_total_entries_scanned := ir_total_entries_scanned r + 1\<rparr>))"
proof -
  let ?r = "r\<lparr>ir_total_entries_scanned := ir_total_entries_scanned r + 1\<rparr>"
  have "\<forall>f \<in> set (ir_failed_entries (record_entry_failure i lno raw e ?r)). redacted (pf_raw_snippet f)"
    by (rule record_entry_failure_snippets) (use assms in \<open>simp add: report_ok_def\<close>)
  with assms show ?thesis by (auto simp: report_ok_def)
qed

lemma absorb_ok:
  assumes "report_ok pe sub ts x r" and "set (map cn_hash (ir_successful_nodes r)) \<subseteq> seen"
    and "\<And>i lno raw n. (i, lno, raw, Inr n) \<in> set items \<Longrightarrow> imported pe sub ts n"
  shows "report_ok pe sub ts x (absorb items seen r) \<and>
     ir_total_entries_scanned (absorb items seen r) = ir_total_entries_scanned r + length items"
  using assms
proof (induction items seen r rule: absorb.induct)
  case (1 seen r)
  then show ?case by simp
next
  case (2 i lno raw result items seen r)
  let ?r1 = "r\<lparr>ir_total_entries_scanned := ir_total_entries_scanned r + 1\<rparr>"
  have items: "(i, lno, raw, Inr n) \<in> set items \<Longrightarrow> imported pe sub ts n" for i lno raw n
    using "2.prems"(3) by auto
  show ?case
  proof (cases result)
    case (Inl reason)
    have "report_ok pe sub ts x (record_entry_failure i lno raw reason ?r1)"
      by (rule report_ok_entry_failure) (rule "2.prems"(1))
    with "2.IH"(1)[OF refl Inl] "2.prems"(2) items Inl show ?thesis by simp
  next
    case (Inr node)
    show ?thesis
    proof (cases "cn_hash node \<in> seen")
      case True
      have "report_ok pe sub ts x (?r1\<lparr>ir_duplicates_omitted := ir_duplicates_omitted ?r1 + 1\<rparr>)"
        using "2.prems"(1) by (simp add: report_ok_def)
      with "2.IH"(3)[OF refl Inr] "2.prems"(2) items Inr True show ?thesis by simp
    next
      case False
      have "report_ok pe sub ts x (?r1\<lparr>ir_successful_nodes := ir_successful_nodes ?r1 @ [node]\<rparr>)"
        using "2.prems"(1,2) "2.prems"(3)[of i lno raw node] False Inr by (auto simp: report_ok_def)
      with "2.IH"(2)[OF refl Inr False] "2.prems"(2) items Inr False show ?thesis by auto
    qed
  qed
qed

lemma ingest_entries_ok:
  assumes "report_ok pe sub ts x r" and "ir_successful_nodes r = []"
  shows "report_ok pe sub ts x (ingest_entries pe sub ts entries r) \<and>
     ir_total_entries_scanned (ingest_entries pe sub ts entries r)
       = ir_total_entries_scanned r + min MAX_ENTRIES (length entries)"
proof -
  let ?items = "map (\<lambda>(i, lno, entry). (i, lno, entry, parse_entry pe entry sub ts))
    (enumerate 0 (take MAX_ENTRIES entries))"
  have "report_ok pe sub ts x (absorb ?items {} r) \<and>
      ir_total_entries_scanned (absorb ?items {} r) = ir_total_entries_scanned r + length ?items"
  proof (rule absorb_ok[OF assms(1)])
    show "set (map cn_hash (ir_successful_nodes r)) \<subseteq> {}" by (simp add: assms(2))
    show "imported pe sub ts n" if "(i, lno, raw, Inr n) \<in> set ?items" for i lno raw n
      using that parse_entry_imported[of pe raw sub ts n] by auto
  qed
  then show ?thesis by (simp add: ingest_entries_def min.commute)
qed

lemma ingest_clash_yaml_imported:
  "ingest_clash_yaml pe text sub ts = Ok results \<Longrightarrow> Inr n \<in> set results \<Longrightarrow> imported pe sub ts n"
  by (auto simp: ingest_clash_yaml_def) (metis parse_proxy_imported)

lemma ingest_clash_document_ok:
  "\<exists>x \<le> 1. report_ok pe sub ts x (ingest_clash_document pe raw text sub ts IngestionReport_default) \<and>
     ir_total_entries_scanned (ingest_clash_document pe raw text sub ts IngestionReport_default) \<le> MAX_ENTRIES"
proof (cases "ingest_clash_yaml pe text sub ts")
  case (Inl e)
  then show ?thesis
    using report_ok_document_failure[of pe sub ts 0 1 raw e]
    by (intro exI[of _ 1]) (simp add: ingest_clash_document_def IngestionReport_default_def)
next
  case (Inr results)
  let ?items = "map (\<lambda>(i, result). (i, i + 1, raw, result)) (enumerate 0 (take MAX_ENTRIES results))"
  have "report_ok pe sub ts 0 (absorb ?items {} IngestionReport_default) \<and>
      ir_total_entries_scanned (absorb ?items {} IngestionReport_default)
        = ir_total_entries_scanned IngestionReport_default + length ?items"
  proof (rule absorb_ok[OF report_ok_default])
    show "set (map cn_hash (ir_successful_nodes IngestionReport_default)) \<subseteq> {}"
      by (simp add: IngestionReport_default_def)
    show "imported pe sub ts n" if mem: "(i, lno, s, Inr n) \<in> set ?items" for i lno s n
    proof (rule ingest_clash_yaml_imported[OF Inr])
      obtain j where "(j, Inr n) \<in> set (enumerate 0 (take MAX_ENTRIES results))" using mem by auto
      then have "Inr n \<in> set (map snd (enumerate 0 (take MAX_ENTRIES results)))"
        by (metis image_eqI list.set_map snd_conv)
      then show "Inr n \<in> set results" by (auto simp only: map_snd_enumerate dest: in_set_takeD)
    qed
  qed
  with Inr show ?thesis
    by (intro exI[of _ 0]) (simp add: ingest_clash_document_def IngestionReport_default_def)
qed

lemma ingest_report_ok:
  "\<exists>extra \<le> 1. report_ok pe sub ts extra (ingest_with_timestamp pe raw sub ts) \<and>
     ir_total_entries_scanned (ingest_with_timestamp pe raw sub ts) \<le> MAX_ENTRIES"
proof -
  let ?D = IngestionReport_default
  have fail: "\<exists>x \<le> 1. report_ok pe sub ts x (record_entry_failure 0 1 raw e ?D) \<and>
      ir_total_entries_scanned (record_entry_failure 0 1 raw e ?D) \<le> MAX_ENTRIES" for e
    using report_ok_document_failure[of pe sub ts 0 1 raw e]
    by (intro exI[of _ 1]) (simp add: IngestionReport_default_def)
  have entries: "\<exists>x \<le> 1. report_ok pe sub ts x (ingest_entries pe sub ts es ?D) \<and>
      ir_total_entries_scanned (ingest_entries pe sub ts es ?D) \<le> MAX_ENTRIES" for es
    using ingest_entries_ok[OF report_ok_default]
    by (intro exI[of _ 0]) (simp add: IngestionReport_default_def)
  have both: "\<exists>x \<le> 1. report_ok pe sub ts x (ingest_entries pe sub ts es (record_entry_failure 0 1 raw e ?D)) \<and>
      ir_total_entries_scanned (ingest_entries pe sub ts es (record_entry_failure 0 1 raw e ?D)) \<le> MAX_ENTRIES" for es e
    using ingest_entries_ok[OF report_ok_document_failure]
    by (intro exI[of _ 1]) (simp add: IngestionReport_default_def)
  show ?thesis
    unfolding ingest_with_timestamp_def Let_def
    by (simp only: split: if_split option.split container_kind.split sum.split)
      (simp only: fail entries both ingest_clash_document_ok simp_thms)
qed

text \<open>
  Claim C39.  Every report adds up, whatever the payload: each listed node is well formed, carries
  the subscription id and time of the import, and has a hash no other listed node has; scanned
  entries and listed failures stay within their limits; below the failure limit every scanned
  entry is listed as a node, counted as a duplicate or listed as a failure, with at most one more
  failure for the payload as a whole; and no failure snippet shows more of an entry than its
  scheme.
\<close>

theorem ingestion_report_adds_up:
  "\<exists>extra \<le> 1. report_ok pe sub ts extra (ingest_with_timestamp pe raw sub ts) \<and>
     ir_total_entries_scanned (ingest_with_timestamp pe raw sub ts) \<le> MAX_ENTRIES"
  by (rule ingest_report_ok)

section \<open>A bundle of links\<close>

fun fresh_nodes :: "canonical_hash set \<Rightarrow> canonical_node list \<Rightarrow> canonical_node list" where
  "fresh_nodes seen [] = []"
| "fresh_nodes seen (n # ns) =
     (if cn_hash n \<in> seen then fresh_nodes seen ns else n # fresh_nodes (insert (cn_hash n) seen) ns)"

lemma absorb_successful:
  "ir_successful_nodes (absorb items seen r) =
     ir_successful_nodes r @ fresh_nodes seen (List.map_filter (\<lambda>(i, lno, raw, result). ok result) items)"
  by (induction items seen r rule: absorb.induct)
    (auto simp: map_filter_simps Let_def split: sum.split)

lemma link_bundle_nodes:
  assumes "is_utf8 raw" and "list_ex (\<lambda>(lno, entry). is_supported_scheme entry) (collect_entries raw)"
  shows "ir_successful_nodes (ingest_with_timestamp pe raw sub ts) =
     fresh_nodes {} (List.map_filter (\<lambda>(lno, entry). ok (parse_entry pe entry sub ts))
       (take MAX_ENTRIES (collect_entries raw)))"
proof -
  have strip: "List.map_filter (\<lambda>(i, lno, raw, result). ok result)
      (map (\<lambda>(i, lno, entry). (i, lno, entry, parse_entry pe entry sub ts)) (enumerate k es))
    = List.map_filter (\<lambda>(lno, entry). ok (parse_entry pe entry sub ts)) es" for k es
    by (induction es arbitrary: k) (auto simp: map_filter_simps split: option.split)
  from assms have "ingest_with_timestamp pe raw sub ts
      = ingest_entries pe sub ts (collect_entries raw) IngestionReport_default"
    by (simp add: ingest_with_timestamp_def Let_def)
  then show ?thesis
    by (simp add: ingest_entries_def absorb_successful strip IngestionReport_default_def)
qed

text \<open>
  A payload with a link in it is read line by line: the nodes are those of the lines
  that parse, in the order of the lines, the first of each hash; a malformed line changes nothing
  for the others.
\<close>

theorem link_bundle_exact:
  assumes "is_utf8 raw" and "list_ex (\<lambda>(lno, entry). is_supported_scheme entry) (collect_entries raw)"
  shows "ir_successful_nodes (ingest_with_timestamp pe raw sub ts) =
     fresh_nodes {} (List.map_filter (\<lambda>(lno, entry). ok (parse_entry pe entry sub ts))
       (take MAX_ENTRIES (collect_entries raw)))"
  using assms by (rule link_bundle_nodes)

definition link_env :: parse_env where
  "link_env = sample_parse_env\<lparr>pe_url := (\<lambda>raw. Ok (sample_url ''node.com''))\<rparr>"

lemma sample_payload:
  "is_utf8 ''ss://x'' \<and> collect_entries ''ss://x'' = [(1, ''ss://x'')] \<and> is_supported_scheme ''ss://x''"
proof (intro conjI)
  show "is_utf8 ''ss://x''" by (rule is_utf8_ascii) (simp add: is_ascii_def)
  have "trim ''ss://x'' = ''ss://x''" by (rule trim_id) (simp add: ws1_def ws2_def)
  then show "collect_entries ''ss://x'' = [(1, ''ss://x'')]"
    by (simp add: collect_entries_def lines_def map_filter_simps starts_with_def Let_def)
  show "is_supported_scheme ''ss://x''"
    by (simp add: is_supported_scheme_def scheme_of_def split_once_def starts_with_def scheme_byte_def
        is_ascii_alphanumeric_def is_ascii_lowercase_def to_ascii_lowercase_def ascii_lower_def
        is_ascii_uppercase_def)
qed

theorem link_bundle_exact_witness:
  "ir_successful_nodes (ingest_with_timestamp link_env ''ss://x'' 2 9) =
     fresh_nodes {} (List.map_filter (\<lambda>(lno, entry). ok (parse_entry link_env entry 2 9))
       (take MAX_ENTRIES (collect_entries ''ss://x'')))"
  by (rule link_bundle_exact) (use sample_payload in simp_all)

end
