(* ===== verification/Probe_Cli.thy ===== *)
theory Probe_Cli
  imports Probe Ingest "HOL-Library.List_Lexorder" "HOL-Library.Char_ord"
begin

text \<open>
  The command-line prober (\<open>crates/probe/src/main.rs\<close>): argument parsing, the scan of a
  subscription file and the printed report.  Reading the file is a parameter, and the network is the
  one of \<^theory_text>\<open>Probe\<close>; an error is its outermost message.
\<close>

record cli_args =
  ca_path :: "string option"
  ca_concurrency :: nat
  ca_timeout_ms :: nat

definition cli_default :: cli_args where
  "cli_default = \<lparr>ca_path = None, ca_concurrency = pc_concurrency_limit ProbeConfig_default,
     ca_timeout_ms = as_millis (pc_connect_timeout ProbeConfig_default)\<rparr>"

fun parse_args :: "string list \<Rightarrow> cli_args \<Rightarrow> cli_args res" where
  "parse_args [] a = Ok a"
| "parse_args (arg # rest) a =
     (if arg = ''--concurrency'' then
        (case rest of
           [] \<Rightarrow> Err ''--concurrency needs a value''
         | v # rest' \<Rightarrow> (case parse_uint 10 (2 ^ 64 - 1) v of
             None \<Rightarrow> Err ''--concurrency must be a number''
           | Some n \<Rightarrow> parse_args rest' (a\<lparr>ca_concurrency := n\<rparr>)))
      else if arg = ''--timeout-ms'' then
        (case rest of
           [] \<Rightarrow> Err ''--timeout-ms needs a value''
         | v # rest' \<Rightarrow> (case parse_uint 10 (2 ^ 64 - 1) v of
             None \<Rightarrow> Err ''--timeout-ms must be a number''
           | Some n \<Rightarrow> parse_args rest' (a\<lparr>ca_timeout_ms := n\<rparr>)))
      else if starts_with ''--'' arg then Err (''unknown flag '' @ arg)
      else if ca_path a \<noteq> None then Err ''expected a single subscription file''
      else parse_args rest (a\<lparr>ca_path := Some arg\<rparr>))"

fun describe_failure :: "probe_failure \<Rightarrow> string" where
  "describe_failure Refused = ''connection refused''"
| "describe_failure TimedOut = ''timed out''"
| "describe_failure Unresolvable = ''unresolvable''"
| "describe_failure NoReply = ''no reply''"
| "describe_failure IoFailure = ''io error''"

definition pad_left :: "nat \<Rightarrow> string \<Rightarrow> string" where
  "pad_left n s = replicate (n - length s) (CHR '' '') @ s"

definition pad_right :: "nat \<Rightarrow> string \<Rightarrow> string" where
  "pad_right n s = s @ replicate (n - length s) (CHR '' '')"

definition outcome_line :: "probe_outcome \<Rightarrow> string" where
  "outcome_line x =
     (let status = (if probe_alive x then ''REACH '' else if is_unknown x then ''UNKNWN'' else ''DEAD  '');
          latency = (case po_latency_ms x of Some rtt \<Rightarrow> show_nat (unat rtt) @ ''ms'' | None \<Rightarrow> ''--'');
          reason = (case po_failure x of Some f \<Rightarrow> describe_failure f | None \<Rightarrow> ''socket answered'');
          country = from_utf8_lossy [fst (po_country_code x), snd (po_country_code x)]
      in ''['' @ status @ ''] '' @ pad_left 8 latency @ ''  '' @ pad_right 9 (po_protocol x) @ ''@'' @ country
           @ ''  '' @ po_label x @ ''  '' @ reason)"

record cli_report =
  cr_lines :: "string list"
  cr_reachable :: nat
  cr_unconfirmed :: nat
  cr_dead :: nat
  cr_scanned :: nat
  cr_skipped :: nat
  cr_duplicates :: nat

definition summarize :: "ingestion_report \<Rightarrow> probe_outcome list \<Rightarrow> cli_report" where
  "summarize report found =
     (let outcomes = sort_key po_label found in
      \<lparr>cr_lines = map outcome_line outcomes,
       cr_reachable = length (filter probe_alive outcomes),
       cr_unconfirmed = length (filter is_unknown outcomes),
       cr_dead = length (filter is_dead outcomes),
       cr_scanned = length (ir_successful_nodes report), cr_skipped = length (ir_failed_entries report),
       cr_duplicates = ir_duplicates_omitted report\<rparr>)"

definition cli_main ::
    "parse_env \<Rightarrow> (string \<Rightarrow> string res) \<Rightarrow> (nat \<Rightarrow> probe_net) \<Rightarrow> (nat \<Rightarrow> bool) \<Rightarrow> u64 \<Rightarrow> string list
      \<Rightarrow> cli_report res" where
  "cli_main pe read_file nets panics now args =
     try_then (parse_args args cli_default) (\<lambda>a.
       case ca_path a of
         None \<Rightarrow> Err ''usage: myproxy-probe <subscription> [--concurrency N] [--timeout-ms T]''
       | Some path \<Rightarrow>
           try_then (map_err (\<lambda>e. ''failed to read '' @ path) (read_file path)) (\<lambda>raw.
             let report = ingest_subscription pe now raw 1;
                 engine = ProbeEngine_new (ProbeConfig_default\<lparr>pc_concurrency_limit := ca_concurrency a,
                   pc_connect_timeout := from_millis (ca_timeout_ms a)\<rparr>)
             in Ok (summarize report (probe_batch engine nets panics (ir_successful_nodes report) L4Ping))))"

section \<open>The report counts every node once\<close>

lemma three_way_count:
  "length (filter probe_alive xs) + length (filter is_unknown xs) + length (filter is_dead xs) = length xs"
proof (induction xs)
  case (Cons x xs)
  then show ?case by (cases "po_confidence x") (simp_all add: probe_alive_def is_unknown_def is_dead_def)
qed simp

lemma probe_batch_at_most: "length (probe_batch engine nets panics nodes depth) \<le> length nodes"
  unfolding probe_batch_def by (metis length_enumerate length_filter_le length_map)

text \<open>
  The summary of a scan accounts for every line it prints: reachable, unconfirmed and dead
  add up to the printed lines, never to more than the nodes scanned, and to exactly those when no
  probe task panics; the lines come in the order of the labels.
\<close>

theorem cli_report_adds_up:
  assumes "cli_main pe read_file nets panics now args = Inr r"
  shows "cr_reachable r + cr_unconfirmed r + cr_dead r = length (cr_lines r)
     \<and> length (cr_lines r) \<le> cr_scanned r
     \<and> ((\<forall>i. \<not> panics i) \<longrightarrow> length (cr_lines r) = cr_scanned r)
     \<and> (\<exists>found. cr_lines r = map outcome_line found \<and> sorted (map po_label found))"
proof -
  obtain report engine where r: "r = summarize report (probe_batch engine nets panics (ir_successful_nodes report) L4Ping)"
    using assms by (auto simp: cli_main_def Let_def split: option.splits)
  let ?found = "sort_key po_label (probe_batch engine nets panics (ir_successful_nodes report) L4Ping)"
  have "cr_lines r = map outcome_line ?found \<and> sorted (map po_label ?found)"
    by (simp add: r summarize_def Let_def)
  then have "\<exists>found. cr_lines r = map outcome_line found \<and> sorted (map po_label found)" by blast
  moreover have "(\<forall>i. \<not> panics i) \<longrightarrow> length (cr_lines r) = cr_scanned r"
    by (simp add: r summarize_def Let_def probe_batch_length)
  ultimately show ?thesis
    by (simp add: r summarize_def Let_def probe_batch_at_most three_way_count)
qed

definition sample_args :: "string list" where
  "sample_args = [''--timeout-ms'', ''900'', ''subscription.txt'']"

lemma sample_args_parsed: "parse_args sample_args cli_default = Inr (cli_default\<lparr>ca_timeout_ms := 900, ca_path := Some ''subscription.txt''\<rparr>)"
  by (simp add: sample_args_def cli_default_def parse_uint_def to_digit_def is_ascii_digit_def starts_with_def Let_def)

theorem cli_report_adds_up_witness:
  "\<exists>r. cli_main link_env (\<lambda>path. Inr ''ss://x'') (\<lambda>i. sample_net) (\<lambda>i. False) 1 sample_args = Inr r \<and>
     cr_reachable r + cr_unconfirmed r + cr_dead r = cr_scanned r"
proof -
  have "\<exists>r. cli_main link_env (\<lambda>path. Inr ''ss://x'') (\<lambda>i. sample_net) (\<lambda>i. False) 1 sample_args = Inr r"
    by (simp add: cli_main_def sample_args_parsed Let_def)
  then obtain r where "cli_main link_env (\<lambda>path. Inr ''ss://x'') (\<lambda>i. sample_net) (\<lambda>i. False) 1 sample_args = Inr r" ..
  with cli_report_adds_up[OF this] show ?thesis by auto
qed

end
