(* ===== verification/Netfilter.thy ===== *)
theory Netfilter
  imports Net_Addr
begin

text \<open>
  The routing backends of the daemon, \<open>crates/netd/src/netfilter.rs\<close>: the nftables ruleset
  text, the \<open>ip\<close> command lines, and the order in which they are applied and taken back.  The
  kernel, \<open>nft\<close> and \<open>ip\<close> are outside the repository: a value of \<open>net_ops\<close> stands for running
  them on a kernel state of any type.  The interface \<open>routing_backend\<close> states what the daemon
  relies on; the no-op and the nftables backend are its two implementations.
\<close>

record tproxy_settings =
  tp_port :: u16
  tp_fwmark :: u32
  tp_table_id :: u32
  tp_dns_ipv4 :: "ipv4 option"
  tp_bypass_subnets :: "string list"
  tp_bypass_subnets_v6 :: "string list"
  tp_core_uid :: "u32 option"

definition LOCAL_BYPASS_V4 :: "string list" where
  "LOCAL_BYPASS_V4 = [''127.0.0.0/8'', ''169.254.0.0/16'']"

definition LOCAL_BYPASS_V6 :: "string list" where
  "LOCAL_BYPASS_V6 = [''::1/128'', ''fe80::/10'', ''fc00::/7'']"

section \<open>Command lines\<close>

datatype op = Add | Del

definition rule_args :: "bool \<Rightarrow> op \<Rightarrow> tproxy_settings \<Rightarrow> string list" where
  "rule_args v4 p s = [''ip''] @ (if v4 then [] else [''-6'']) @ [''rule''] @
     [case p of Add \<Rightarrow> ''add'' | Del \<Rightarrow> ''del''] @
     [''fwmark'', show_hex (unat (tp_fwmark s)), ''lookup'', show_nat (unat (tp_table_id s))]"

definition route_args :: "bool \<Rightarrow> op \<Rightarrow> tproxy_settings \<Rightarrow> string list" where
  "route_args v4 p s = [''ip''] @ (if v4 then [] else [''-6'']) @ [''route''] @
     [case p of Add \<Rightarrow> ''add'' | Del \<Rightarrow> ''flush''] @
     (if p = Add then [''local'', if v4 then ''0.0.0.0/0'' else ''::/0'', ''dev'', ''lo''] else []) @
     [''table'', show_nat (unat (tp_table_id s))]"

section \<open>The ruleset\<close>

text \<open>\<open>cidr_set\<close> before it joins: the defaults, then each configured subnet not yet present.\<close>

fun push_new :: "string list \<Rightarrow> string list \<Rightarrow> string list" where
  "push_new cidrs [] = cidrs"
| "push_new cidrs (c # cs) = push_new (if c \<in> set cidrs then cidrs else cidrs @ [c]) cs"

definition cidr_set :: "string list \<Rightarrow> string list \<Rightarrow> string" where
  "cidr_set configured defaults = join '', '' (push_new defaults configured)"

abbreviation TAB :: string where "TAB \<equiv> [CHR 9]"
abbreviation NL :: string where "NL \<equiv> [CHR 10]"

definition uid_bypass :: "tproxy_settings \<Rightarrow> string list" where
  "uid_bypass s = (case tp_core_uid s of None \<Rightarrow> []
     | Some uid \<Rightarrow> [TAB @ TAB @ ''meta skuid '' @ show_nat (unat uid) @ '' return''])"

definition set_lines :: "tproxy_settings \<Rightarrow> string list" where
  "set_lines s =
     [TAB @ ''set bypass_v4 {'',
      TAB @ TAB @ ''type ipv4_addr'',
      TAB @ TAB @ ''flags interval'',
      TAB @ TAB @ ''elements = { '' @ cidr_set (tp_bypass_subnets s) LOCAL_BYPASS_V4 @ '' }'',
      TAB @ ''}'',
      TAB @ ''set bypass_v6 {'',
      TAB @ TAB @ ''type ipv6_addr'',
      TAB @ TAB @ ''flags interval'',
      TAB @ TAB @ ''elements = { '' @ cidr_set (tp_bypass_subnets_v6 s) LOCAL_BYPASS_V6 @ '' }'',
      TAB @ ''}'']"

definition mark_return :: "tproxy_settings \<Rightarrow> string" where
  "mark_return s = TAB @ TAB @ ''meta mark '' @ show_hex (unat (tp_fwmark s)) @ '' return''"

definition dns_intercept :: "tproxy_settings \<Rightarrow> string" where
  "dns_intercept s = TAB @ TAB @ ''meta l4proto { tcp, udp } th dport 53 meta mark set ''
     @ show_hex (unat (tp_fwmark s)) @ '' accept''"

definition bypass_v4_return :: string where
  "bypass_v4_return = TAB @ TAB @ ''ip daddr @bypass_v4 return''"

definition bypass_v6_return :: string where
  "bypass_v6_return = TAB @ TAB @ ''ip6 daddr @bypass_v6 return''"

definition prerouting_lines :: "tproxy_settings \<Rightarrow> string list" where
  "prerouting_lines s =
     [TAB @ ''chain prerouting {'',
      TAB @ TAB @ ''type filter hook prerouting priority mangle; policy accept;'',
      bypass_v4_return,
      bypass_v6_return,
      mark_return s,
      TAB @ TAB @ ''meta l4proto { tcp, udp } tproxy to :'' @ show_nat (unat (tp_port s))
        @ '' meta mark set '' @ show_hex (unat (tp_fwmark s)) @ '' accept'',
      TAB @ ''}'']"

definition output_lines :: "tproxy_settings \<Rightarrow> string list" where
  "output_lines s =
     [TAB @ ''chain output {'',
      TAB @ TAB @ ''type route hook output priority mangle; policy accept;'',
      mark_return s,
      dns_intercept s] @
     uid_bypass s @
     [bypass_v4_return,
      bypass_v6_return,
      TAB @ TAB @ ''meta l4proto { tcp, udp } meta mark set '' @ show_hex (unat (tp_fwmark s)) @ '' accept'',
      TAB @ ''}'']"

definition ruleset_lines :: "tproxy_settings \<Rightarrow> string list" where
  "ruleset_lines s = [''table inet myproxy {''] @ set_lines s @ prerouting_lines s @ output_lines s @ [''}'']"

definition render_ruleset :: "tproxy_settings \<Rightarrow> string" where
  "render_ruleset s = concat (map (\<lambda>l. l @ NL) (ruleset_lines s))"

section \<open>Applying it\<close>

record 'k net_ops =
  no_prerequisites :: "'k \<Rightarrow> unit res"
  no_run_ip :: "string list \<Rightarrow> 'k \<Rightarrow> unit res \<times> 'k"
  no_apply_ruleset :: "string \<Rightarrow> 'k \<Rightarrow> unit res \<times> 'k"

text \<open>A run of \<open>ip\<close> commands that stops at the first failure (\<open>?\<close>), and one that does not.\<close>

fun run_ips :: "'k net_ops \<Rightarrow> string list list \<Rightarrow> 'k \<Rightarrow> unit res \<times> 'k" where
  "run_ips no [] k = (Ok (), k)"
| "run_ips no (a # as) k = (case no_run_ip no a k of
     (Inl e, k') \<Rightarrow> (Err e, k') | (Inr _, k') \<Rightarrow> run_ips no as k')"

fun run_ips_all :: "'k net_ops \<Rightarrow> string list list \<Rightarrow> 'k \<Rightarrow> 'k" where
  "run_ips_all no [] k = k"
| "run_ips_all no (a # as) k = run_ips_all no as (snd (no_run_ip no a k))"

definition policy_args :: "op \<Rightarrow> tproxy_settings \<Rightarrow> string list list" where
  "policy_args p s = [rule_args True p s, route_args True p s, rule_args False p s, route_args False p s]"

definition install_policy_routing :: "'k net_ops \<Rightarrow> tproxy_settings \<Rightarrow> 'k \<Rightarrow> unit res \<times> 'k" where
  "install_policy_routing no s k = run_ips no (policy_args Add s) k"

definition remove_policy_routing :: "'k net_ops \<Rightarrow> tproxy_settings \<Rightarrow> 'k \<Rightarrow> unit res \<times> 'k" where
  "remove_policy_routing no s k = (Ok (), run_ips_all no (policy_args Del s) k)"

text \<open>The two methods of the \<open>RoutingBackend\<close> trait.\<close>

record 'k backend =
  be_enable :: "tproxy_settings \<Rightarrow> 'k \<Rightarrow> unit res \<times> 'k"
  be_disable :: "tproxy_settings option \<Rightarrow> 'k \<Rightarrow> unit res \<times> 'k"

definition nftables_enable :: "'k net_ops \<Rightarrow> tproxy_settings \<Rightarrow> 'k \<Rightarrow> unit res \<times> 'k" where
  "nftables_enable no s k =
     (case no_prerequisites no k of Inl e \<Rightarrow> (Err e, k) | Inr _ \<Rightarrow>
      (case install_policy_routing no s k of (Inl e, k1) \<Rightarrow> (Err e, k1) | (Inr _, k1) \<Rightarrow>
       (case no_apply_ruleset no (render_ruleset s) k1 of (Inr _, k2) \<Rightarrow> (Ok (), k2)
        | (Inl e, k2) \<Rightarrow>
          (case remove_policy_routing no s k2 of (Inl e', k3) \<Rightarrow> (Err e', k3)
           | (Inr _, k3) \<Rightarrow> (Err ''nftables ruleset failed; policy routing was rolled back'', k3)))))"

definition nftables_disable :: "'k net_ops \<Rightarrow> tproxy_settings option \<Rightarrow> 'k \<Rightarrow> unit res \<times> 'k" where
  "nftables_disable no so k =
     (let k1 = snd (no_apply_ruleset no ''delete table inet myproxy'' k)
      in case so of None \<Rightarrow> (Ok (), k1) | Some s \<Rightarrow>
         (case remove_policy_routing no s k1 of (Inl e, k2) \<Rightarrow> (Err e, k2) | (Inr _, k2) \<Rightarrow> (Ok (), k2)))"

definition NftablesBackend :: "'k net_ops \<Rightarrow> 'k backend" where
  "NftablesBackend no = \<lparr>be_enable = nftables_enable no, be_disable = nftables_disable no\<rparr>"

definition NoopBackend :: "'k backend" where
  "NoopBackend = \<lparr>be_enable = (\<lambda>s k. (Ok (), k)), be_disable = (\<lambda>so k. (Ok (), k))\<rparr>"

section \<open>The backend interface\<close>

text \<open>
  What the daemon's rollback relies on: taking the rules down reports success.  Both backends
  swallow the errors of the commands they run.
\<close>

locale routing_backend =
  fixes be :: "'k backend"
  assumes disable_ok: "fst (be_disable be so k) = Ok ()"
begin

lemma disable_cases:
  obtains k' where "be_disable be so k = (Ok (), k')"
  using disable_ok[of so k] by (metis prod.collapse)

end

interpretation noop: routing_backend NoopBackend
  by unfold_locales (simp add: NoopBackend_def)

interpretation nft: routing_backend "NftablesBackend no" for no
  by unfold_locales
     (simp add: NftablesBackend_def nftables_disable_def remove_policy_routing_def Let_def
       split: option.splits)

section \<open>Lemmas\<close>

lemma set_push_new: "set (push_new xs cs) = set xs \<union> set cs"
  by (induction cs arbitrary: xs) auto

lemma distinct_push_new: "distinct xs \<Longrightarrow> distinct (push_new xs cs)"
  by (induction cs arbitrary: xs) auto

lemma push_new_prefix: "\<exists>ys. push_new xs cs = xs @ ys"
proof (induction cs arbitrary: xs)
  case Nil
  then show ?case by simp
next
  case (Cons c cs)
  show ?case
  proof (cases "c \<in> set xs")
    case True
    with Cons show ?thesis by simp
  next
    case False
    obtain ys where "push_new (xs @ [c]) cs = (xs @ [c]) @ ys" using Cons by blast
    with False show ?thesis by simp
  qed
qed

lemma run_ips_fail_prefix:
  assumes "run_ips no as k = (Err e, k')"
  shows "\<exists>i < length as. \<exists>k1. run_ips no (take i as) k = (Ok (), k1) \<and> no_run_ip no (as ! i) k1 = (Err e, k')"
  using assms
proof (induction as arbitrary: k)
  case Nil
  then show ?case by simp
next
  case (Cons a as)
  obtain r k1 where a: "no_run_ip no a k = (r, k1)" by fastforce
  show ?case
  proof (cases r)
    case (Inl e')
    with Cons.prems a have "no_run_ip no ((a # as) ! 0) k = (Err e, k')" by simp
    then show ?thesis by (intro exI[of _ 0]) simp
  next
    case (Inr u)
    with Cons.prems a have "run_ips no as k1 = (Err e, k')" by simp
    then obtain i k2 where "i < length as" "run_ips no (take i as) k1 = (Ok (), k2)"
      "no_run_ip no (as ! i) k2 = (Err e, k')"
      using Cons.IH by blast
    with a Inr show ?thesis by (intro exI[of _ "Suc i"]) simp
  qed
qed

section \<open>Properties\<close>

text \<open>
  The bypass sets of the ruleset hold every local default and every configured
  subnet, each exactly once, with the defaults first.
\<close>

theorem cidr_set_no_duplicates:
  assumes "distinct defaults"
  shows "\<exists>cidrs. cidr_set configured defaults = join '', '' cidrs \<and> distinct cidrs
    \<and> set cidrs = set defaults \<union> set configured \<and> take (length defaults) cidrs = defaults"
proof -
  obtain ys where "push_new defaults configured = defaults @ ys" using push_new_prefix by blast
  then have "take (length defaults) (push_new defaults configured) = defaults" by simp
  with assms show ?thesis
    by (intro exI[of _ "push_new defaults configured"])
       (simp add: cidr_set_def set_push_new distinct_push_new)
qed

theorem cidr_set_no_duplicates_witness:
  "\<exists>cidrs. cidr_set [''127.0.0.0/8'', ''10.0.0.0/8''] LOCAL_BYPASS_V4 = join '', '' cidrs \<and> distinct cidrs
    \<and> set cidrs = {''127.0.0.0/8'', ''169.254.0.0/16'', ''10.0.0.0/8''}"
proof -
  have d: "distinct LOCAL_BYPASS_V4" by (simp add: LOCAL_BYPASS_V4_def)
  show ?thesis
    using cidr_set_no_duplicates[OF d, of "[''127.0.0.0/8'', ''10.0.0.0/8'']"]
    by (simp add: LOCAL_BYPASS_V4_def insert_commute) blast
qed

text \<open>
  Port 53 is intercepted before any bypass: the rendered text ends with the output
  chain, whose rules are, in this order and with nothing in between, the return for packets
  that already carry the mark, the DNS interception, the return for the core's user when one is
  configured, the two bypass returns and the final mark rule; the mark that is set is the mark
  the leading rule returns on.
\<close>

theorem output_chain_order:
  "\<exists>pre. render_ruleset s = pre @ TAB @ ''chain output {'' @ NL
     @ TAB @ TAB @ ''type route hook output priority mangle; policy accept;'' @ NL
     @ TAB @ TAB @ ''meta mark '' @ show_hex (unat (tp_fwmark s)) @ '' return'' @ NL
     @ TAB @ TAB @ ''meta l4proto { tcp, udp } th dport 53 meta mark set ''
         @ show_hex (unat (tp_fwmark s)) @ '' accept'' @ NL
     @ (case tp_core_uid s of None \<Rightarrow> [] | Some uid \<Rightarrow>
          TAB @ TAB @ ''meta skuid '' @ show_nat (unat uid) @ '' return'' @ NL)
     @ TAB @ TAB @ ''ip daddr @bypass_v4 return'' @ NL
     @ TAB @ TAB @ ''ip6 daddr @bypass_v6 return'' @ NL
     @ TAB @ TAB @ ''meta l4proto { tcp, udp } meta mark set '' @ show_hex (unat (tp_fwmark s))
         @ '' accept'' @ NL
     @ TAB @ ''}'' @ NL @ ''}'' @ NL"
proof -
  let ?pre = "concat (map (\<lambda>l. l @ NL) ([''table inet myproxy {''] @ set_lines s @ prerouting_lines s))"
  show ?thesis
    by (intro exI[of _ ?pre], cases "tp_core_uid s")
       (simp_all add: render_ruleset_def ruleset_lines_def output_lines_def uid_bypass_def
         mark_return_def dns_intercept_def bypass_v4_return_def bypass_v6_return_def)
qed

text \<open>
  When the ruleset is rejected, the policy routing that was installed for it is taken
  back with the same mark and table before the error is reported; when nothing is rejected, the
  four \<open>ip\<close> commands ran before the ruleset.
\<close>

theorem nftables_enable_rolls_back:
  assumes "no_prerequisites no k = Ok ()" and "install_policy_routing no s k = (Ok (), k1)"
  shows "nftables_enable no s k =
    (case no_apply_ruleset no (render_ruleset s) k1 of
       (Inr _, k2) \<Rightarrow> (Ok (), k2)
     | (Inl e, k2) \<Rightarrow> (Err ''nftables ruleset failed; policy routing was rolled back'',
          run_ips_all no (policy_args Del s) k2))"
  using assms by (simp add: nftables_enable_def remove_policy_routing_def split: prod.splits sum.splits)

text \<open>A kernel for examples: the list of the commands it accepted; \<open>ip \<dots> add\<close> of an entry that exists fails.\<close>

definition log_ip :: "string list \<Rightarrow> string list list \<Rightarrow> unit res \<times> string list list" where
  "log_ip a k = (if ''add'' \<in> set a \<and> a \<in> set k then (Err ''File exists'', k) else (Ok (), k @ [a]))"

definition reject_ops :: "string list list net_ops" where
  "reject_ops = \<lparr>no_prerequisites = (\<lambda>_. Ok ()), no_run_ip = log_ip,
     no_apply_ruleset = (\<lambda>r k. (Err ''syntax error'', k))\<rparr>"

definition sample_settings :: tproxy_settings where
  "sample_settings = \<lparr>tp_port = 12345, tp_fwmark = 1, tp_table_id = 100, tp_dns_ipv4 = None,
     tp_bypass_subnets = [''192.168.0.0/16''], tp_bypass_subnets_v6 = [], tp_core_uid = Some 1000\<rparr>"

lemma install_fresh: "no_run_ip no = log_ip \<Longrightarrow> install_policy_routing no s [] = (Ok (), policy_args Add s)"
  by (simp add: install_policy_routing_def policy_args_def log_ip_def rule_args_def route_args_def)

theorem nftables_enable_rolls_back_witness:
  "nftables_enable reject_ops sample_settings [] =
     (Err ''nftables ruleset failed; policy routing was rolled back'',
      policy_args Add sample_settings @ policy_args Del sample_settings)"
proof -
  have p: "no_prerequisites reject_ops [] = Ok ()" by (simp add: reject_ops_def)
  have i: "install_policy_routing reject_ops sample_settings [] = (Ok (), policy_args Add sample_settings)"
    by (rule install_fresh) (simp add: reject_ops_def)
  show ?thesis
    unfolding nftables_enable_rolls_back[OF p i]
    by (simp add: reject_ops_def policy_args_def log_ip_def rule_args_def route_args_def)
qed

text \<open>
  When the \<open>i\<close>-th policy routing command fails, the commands before it stay applied:
  the error is returned from the state the failing command left, with no removal, although the
  module comment promises that policy routing is rolled back on failure.
\<close>

theorem nftables_enable_leaves_partial_policy:
  assumes "no_prerequisites no k = Ok ()" and "install_policy_routing no s k = (Err e, k')"
  shows "nftables_enable no s k = (Err e, k')
    \<and> (\<exists>i < 4. \<exists>k1. run_ips no (take i (policy_args Add s)) k = (Ok (), k1)
         \<and> no_run_ip no (policy_args Add s ! i) k1 = (Err e, k'))"
proof -
  have "length (policy_args Add s) = 4" by (simp add: policy_args_def)
  with assms run_ips_fail_prefix[of no "policy_args Add s" k e k'] show ?thesis
    by (auto simp: nftables_enable_def install_policy_routing_def)
qed

text \<open>
  The example: an \<open>ip -6\<close> that does not work leaves the IPv4 rule and route behind.
\<close>

definition no_v6_ops :: "string list list net_ops" where
  "no_v6_ops = \<lparr>no_prerequisites = (\<lambda>_. Ok ()),
     no_run_ip = (\<lambda>a k. if ''-6'' \<in> set a then (Err ''no IPv6'', k) else log_ip a k),
     no_apply_ruleset = (\<lambda>r k. (Ok (), k))\<rparr>"

theorem nftables_enable_leaves_partial_policy_witness:
  "nftables_enable no_v6_ops sample_settings [] =
     (Err ''no IPv6'', [rule_args True Add sample_settings, route_args True Add sample_settings])"
proof -
  have p: "no_prerequisites no_v6_ops [] = Ok ()" by (simp add: no_v6_ops_def)
  have i: "install_policy_routing no_v6_ops sample_settings [] =
      (Err ''no IPv6'', [rule_args True Add sample_settings, route_args True Add sample_settings])"
    by (simp add: no_v6_ops_def install_policy_routing_def policy_args_def rule_args_def
        route_args_def log_ip_def sample_settings_def show_hex_def show_nat_def show_radix.simps
        digit_char_def char_of_def)
  show ?thesis using nftables_enable_leaves_partial_policy[OF p i] by simp
qed

end
