(* ===== verification/Netd.thy ===== *)
theory Netd
  imports Netfilter
begin

text \<open>
  The privileged daemon, \<open>crates/netd/src/main.rs\<close>, with the messages of
  \<open>crates/netd-proto/src/lib.rs\<close>: request validation, session ownership, the handler of one
  client connection, rollback and the heartbeat watchdog.  The handlers are functions on the
  daemon state; \<open>netd_step\<close> below interleaves the critical sections of several client tasks and
  the watchdog, which share the state under one lock but call the backend outside it.
\<close>

section \<open>Messages\<close>

definition PROTOCOL_VERSION :: u32 where "PROTOCOL_VERSION = 1"
definition WATCHDOG_TIMEOUT_SECS :: nat where "WATCHDOG_TIMEOUT_SECS = 5"
definition HEARTBEAT_INTERVAL_SECS :: nat where "HEARTBEAT_INTERVAL_SECS = 2"
definition MAX_FRAME_BYTES :: nat where "MAX_FRAME_BYTES = 64 * 1024"

record enable_request =
  rq_tproxy_port :: u16
  rq_proxy_fwmark :: u32
  rq_table_id :: u32
  rq_dns_ipv4 :: "ipv4 option"
  rq_bypass_subnets :: "string list"
  rq_bypass_subnets_v6 :: "string list"
  rq_core_uid :: "u32 option"

datatype netd_request =
    Handshake (client_version: u32)
  | EnableRouting u64 enable_request
  | DisableRouting u64
  | Heartbeat u64 u64

datatype netd_response =
    HandshakeOk u32 u64
  | RoutingEnabled
  | RoutingDisabled
  | HeartbeatAck u64
  | State bool
  | ErrorReply string

section \<open>Validation\<close>

text \<open>The \<open>ipnet\<close> crate: a network is an address and a prefix length.\<close>

type_synonym ipv4_net = "ipv4 \<times> u8"
type_synonym ipv6_net = "ipv6 \<times> u8"

record ipnet_ops =
  parse_net4 :: "string \<Rightarrow> ipv4_net res"
  parse_net6 :: "string \<Rightarrow> ipv6_net res"
  show_net4 :: "ipv4_net \<Rightarrow> string"
  show_net6 :: "ipv6_net \<Rightarrow> string"

record routing_config =
  rc_tproxy_port :: u16
  rc_proxy_fwmark :: u32
  rc_table_id :: u32
  rc_dns_ipv4 :: "ipv4 option"
  rc_bypass_subnets :: "ipv4_net list"
  rc_bypass_subnets_v6 :: "ipv6_net list"
  rc_core_uid :: "u32 option"

definition settings_of :: "ipnet_ops \<Rightarrow> routing_config \<Rightarrow> tproxy_settings" where
  "settings_of io c = \<lparr>tp_port = rc_tproxy_port c, tp_fwmark = rc_proxy_fwmark c, tp_table_id = rc_table_id c,
     tp_dns_ipv4 = rc_dns_ipv4 c, tp_bypass_subnets = map (show_net4 io) (rc_bypass_subnets c),
     tp_bypass_subnets_v6 = map (show_net6 io) (rc_bypass_subnets_v6 c), tp_core_uid = rc_core_uid c\<rparr>"

definition parse_bypass4 :: "ipnet_ops \<Rightarrow> string \<Rightarrow> ipv4_net res" where
  "parse_bypass4 io subnet =
     (case parse_net4 io subnet of
        Inl e \<Rightarrow> Err (''invalid IPv4 subnet: '' @ subnet)
      | Inr network \<Rightarrow> if snd network = 0 then Err ''the default route cannot be a bypass subnet''
                        else Ok network)"

definition parse_bypass6 :: "ipnet_ops \<Rightarrow> string \<Rightarrow> ipv6_net res" where
  "parse_bypass6 io subnet =
     (case parse_net6 io subnet of
        Inl e \<Rightarrow> Err (''invalid IPv6 subnet: '' @ subnet)
      | Inr network \<Rightarrow> if snd network = 0 then Err ''the default route cannot be a bypass subnet''
                        else Ok network)"

definition dns_unroutable :: "ipv4 \<Rightarrow> bool" where
  "dns_unroutable a = (is_unspecified_v4 a \<or> is_multicast_v4 a \<or> is_broadcast_v4 a)"

definition validate_config :: "ipnet_ops \<Rightarrow> enable_request \<Rightarrow> routing_config res" where
  "validate_config io r =
     (if \<not> 1024 \<le> rq_tproxy_port r then Err ''tproxy port must be between 1024 and 65535''
      else if rq_proxy_fwmark r = 0 \<or> rq_proxy_fwmark r = - 1
        then Err ''proxy firewall mark is outside the supported range''
      else if \<not> (1 \<le> rq_table_id r \<and> rq_table_id r \<le> 252)
        then Err ''routing table must be between 1 and 252''
      else if (case rq_dns_ipv4 r of None \<Rightarrow> False | Some a \<Rightarrow> dns_unroutable a)
        then Err ''DNS address is not routable''
      else if (case rq_core_uid r of None \<Rightarrow> False | Some uid \<Rightarrow> uid = 0 \<or> uid = - 1)
        then Err ''proxy core UID must be a real user id''
      else if 256 < length (rq_bypass_subnets r) then Err ''too many bypass subnets''
      else if 256 < length (rq_bypass_subnets_v6 r) then Err ''too many IPv6 bypass subnets''
      else try_then (try_map (parse_bypass4 io) (rq_bypass_subnets r)) (\<lambda>parsed.
           try_then (try_map (parse_bypass6 io) (rq_bypass_subnets_v6 r)) (\<lambda>parsed_v6.
           Ok \<lparr>rc_tproxy_port = rq_tproxy_port r, rc_proxy_fwmark = rq_proxy_fwmark r,
               rc_table_id = rq_table_id r, rc_dns_ipv4 = rq_dns_ipv4 r, rc_bypass_subnets = parsed,
               rc_bypass_subnets_v6 = parsed_v6, rc_core_uid = rq_core_uid r\<rparr>)))"

text \<open>The predicate validation establishes on the configuration that reaches the backend.\<close>

definition safe_config :: "routing_config \<Rightarrow> bool" where
  "safe_config c \<longleftrightarrow> 1024 \<le> rc_tproxy_port c \<and> rc_proxy_fwmark c \<noteq> 0 \<and> rc_proxy_fwmark c \<noteq> - 1
     \<and> 1 \<le> rc_table_id c \<and> rc_table_id c \<le> 252
     \<and> (\<forall>a. rc_dns_ipv4 c = Some a \<longrightarrow> \<not> dns_unroutable a)
     \<and> (\<forall>uid. rc_core_uid c = Some uid \<longrightarrow> uid \<noteq> 0 \<and> uid \<noteq> - 1)
     \<and> length (rc_bypass_subnets c) \<le> 256 \<and> length (rc_bypass_subnets_v6 c) \<le> 256
     \<and> list_all (\<lambda>n. snd n \<noteq> 0) (rc_bypass_subnets c)
     \<and> list_all (\<lambda>n. snd n \<noteq> 0) (rc_bypass_subnets_v6 c)"

section \<open>The daemon state and its critical sections\<close>

record daemon_state =
  active_session :: "u64 option"
  routing_active :: bool
  last_heartbeat :: instant
  routing_config :: "routing_config option"

definition initial_state :: "instant \<Rightarrow> daemon_state" where
  "initial_state now = \<lparr>active_session = None, routing_active = False, last_heartbeat = now, routing_config = None\<rparr>"

definition require_controller :: "u64 \<Rightarrow> u64 \<Rightarrow> unit res" where
  "require_controller request_session connection_session =
     (if request_session \<noteq> connection_session then Err ''session does not own the controller'' else Ok ())"

definition heartbeat_allowed :: "u64 option \<Rightarrow> bool \<Rightarrow> u64 \<Rightarrow> bool" where
  "heartbeat_allowed act routing session_id = (routing \<and> act = Some session_id)"

definition claim_controller :: "u64 \<Rightarrow> instant \<Rightarrow> daemon_state \<Rightarrow> unit res \<times> daemon_state" where
  "claim_controller sid now st =
     (if active_session st \<noteq> None \<and> active_session st \<noteq> Some sid
      then (Err ''another controller session is already active'', st)
      else (Ok (), st\<lparr>active_session := Some sid, last_heartbeat := now\<rparr>))"

definition release_session :: "u64 \<Rightarrow> daemon_state \<Rightarrow> daemon_state" where
  "release_session sid st = (if active_session st = Some sid then st\<lparr>active_session := None\<rparr> else st)"

text \<open>The last critical section of \<open>EnableRouting\<close> and the one of \<open>rollback\<close>.\<close>

definition commit_enable :: "routing_config \<Rightarrow> instant \<Rightarrow> daemon_state \<Rightarrow> daemon_state" where
  "commit_enable c now st = st\<lparr>routing_active := True, last_heartbeat := now, routing_config := Some c\<rparr>"

definition commit_rollback :: "daemon_state \<Rightarrow> daemon_state" where
  "commit_rollback st = st\<lparr>routing_active := False, routing_config := None, active_session := None\<rparr>"

record 'k app =
  ap_state :: daemon_state
  ap_kernel :: 'k

definition rollback :: "ipnet_ops \<Rightarrow> 'k backend \<Rightarrow> 'k app \<Rightarrow> unit res \<times> 'k app" where
  "rollback io be ap =
     (let settings = map_option (settings_of io) (routing_config (ap_state ap))
      in case be_disable be settings (ap_kernel ap) of
           (Inl e, k) \<Rightarrow> (Err e, ap\<lparr>ap_kernel := k\<rparr>)
         | (Inr _, k) \<Rightarrow> (Ok (), ap\<lparr>ap_kernel := k, ap_state := commit_rollback (ap_state ap)\<rparr>))"

definition process_enable ::
    "ipnet_ops \<Rightarrow> 'k backend \<Rightarrow> u64 \<Rightarrow> enable_request \<Rightarrow> u64 \<Rightarrow> instant \<Rightarrow> 'k app \<Rightarrow> netd_response res \<times> 'k app" where
  "process_enable io be request_session r sid now ap =
     (case require_controller request_session sid of Inl e \<Rightarrow> (Err e, ap) | Inr _ \<Rightarrow>
      (case validate_config io r of Inl e \<Rightarrow> (Err e, ap) | Inr config \<Rightarrow>
       (case claim_controller sid now (ap_state ap) of (Inl e, st) \<Rightarrow> (Err e, ap\<lparr>ap_state := st\<rparr>)
        | (Inr _, st) \<Rightarrow>
         (case be_enable be (settings_of io config) (ap_kernel ap) of
            (Inl e, k) \<Rightarrow> (Err e, ap\<lparr>ap_kernel := k, ap_state := release_session sid st\<rparr>)
          | (Inr _, k) \<Rightarrow>
              (Ok RoutingEnabled, ap\<lparr>ap_kernel := k, ap_state := commit_enable config now st\<rparr>)))))"

fun process_request ::
    "ipnet_ops \<Rightarrow> 'k backend \<Rightarrow> netd_request \<Rightarrow> u64 \<Rightarrow> instant \<Rightarrow> 'k app \<Rightarrow> netd_response res \<times> 'k app" where
  "process_request io be (EnableRouting request_session r) sid now ap =
     process_enable io be request_session r sid now ap"
| "process_request io be (DisableRouting request_session) sid now ap =
     (case require_controller request_session sid of Inl e \<Rightarrow> (Err e, ap) | Inr _ \<Rightarrow>
      (case rollback io be ap of (Inl e, ap') \<Rightarrow> (Err e, ap') | (Inr _, ap') \<Rightarrow> (Ok RoutingDisabled, ap')))"
| "process_request io be (Heartbeat request_session seq_no) sid now ap =
     (case require_controller request_session sid of Inl e \<Rightarrow> (Err e, ap) | Inr _ \<Rightarrow>
      (if \<not> heartbeat_allowed (active_session (ap_state ap)) (routing_active (ap_state ap)) sid
       then (Err ''session does not own the active controller'', ap)
       else (Ok (HeartbeatAck seq_no), ap\<lparr>ap_state := (ap_state ap)\<lparr>last_heartbeat := now\<rparr>\<rparr>)))"
| "process_request io be (Handshake v) sid now ap = (Err ''handshake may only be sent once'', ap)"

section \<open>One client connection\<close>

definition authorize_uid :: "string option \<Rightarrow> u32 \<Rightarrow> unit res" where
  "authorize_uid env uid =
     (if uid = 0 then Ok ()
      else case env of None \<Rightarrow> Err ''MYPROXY_NETD_ALLOWED_UID must be configured for non-root clients''
           | Some configured \<Rightarrow>
             (case parse_uint 10 (2 ^ 32 - 1) configured of
                None \<Rightarrow> Err ''MYPROXY_NETD_ALLOWED_UID is not numeric''
              | Some allowed \<Rightarrow> if uid \<noteq> word_of_nat allowed then Err ''client UID is not authorized'' else Ok ()))"

text \<open>
  What arrives on the connection: a request frame (with the time it is handled and whether the
  reply can be written), or a framing or decoding error.
\<close>

datatype frame_event = Req instant bool netd_request | FrameError string

fun reply_of :: "netd_response res \<Rightarrow> netd_response" where
  "reply_of (Inr r) = r"
| "reply_of (Inl e) = ErrorReply e"

text \<open>
  The loop of \<open>handle_client\<close> and what follows it.  The outcome is \<open>Err\<close> when a frame is broken
  or a reply cannot be written: then the code after the loop does not run.
\<close>

definition on_disconnect :: "ipnet_ops \<Rightarrow> 'k backend \<Rightarrow> u64 \<Rightarrow> 'k app \<Rightarrow> unit res \<times> 'k app" where
  "on_disconnect io be sid ap =
     (if active_session (ap_state ap) = Some sid \<and> routing_active (ap_state ap)
      then rollback io be ap
      else (Ok (), ap\<lparr>ap_state := release_session sid (ap_state ap)\<rparr>))"

fun serve :: "ipnet_ops \<Rightarrow> 'k backend \<Rightarrow> u64 \<Rightarrow> frame_event list \<Rightarrow> 'k app \<Rightarrow> netd_response list \<Rightarrow>
    unit res \<times> netd_response list \<times> 'k app" where
  "serve io be sid [] ap sent = (case on_disconnect io be sid ap of (r, ap') \<Rightarrow> (r, sent, ap'))"
| "serve io be sid (FrameError e # fs) ap sent = (Err e, sent, ap)"
| "serve io be sid (Req now writable rq # fs) ap sent =
     (case process_request io be rq sid now ap of (r, ap') \<Rightarrow>
        if writable then serve io be sid fs ap' (sent @ [reply_of r])
        else (Err ''broken pipe'', sent, ap'))"

definition next_session_id :: "u64 \<Rightarrow> u64 \<times> u64" where
  "next_session_id next = (next, next + 1)"

definition handle_client ::
    "ipnet_ops \<Rightarrow> 'k backend \<Rightarrow> string option \<Rightarrow> u32 \<Rightarrow> frame_event list \<Rightarrow> u64 \<Rightarrow> 'k app \<Rightarrow>
      unit res \<times> netd_response list \<times> u64 \<times> 'k app" where
  "handle_client io be env uid frames next ap =
     (case authorize_uid env uid of Inl e \<Rightarrow> (Err e, [], next, ap) | Inr _ \<Rightarrow>
      (case frames of
         [] \<Rightarrow> (Err ''client closed before handshake'', [], next, ap)
       | FrameError e # fs \<Rightarrow> (Err e, [], next, ap)
       | Req now writable (Handshake v) # fs \<Rightarrow>
           (if v = PROTOCOL_VERSION
            then (let (sid, next') = next_session_id next in
                  if writable
                  then (case serve io be sid fs ap [HandshakeOk PROTOCOL_VERSION sid] of
                          (r, sent, ap') \<Rightarrow> (r, sent, next', ap'))
                  else (Err ''broken pipe'', [], next', ap))
            else (Err ''protocol version mismatch'', [], next, ap))
       | Req now writable rq # fs \<Rightarrow> (Err ''handshake is required before other requests'', [], next, ap)))"

section \<open>The watchdog\<close>

definition watchdog_expired :: "instant \<Rightarrow> daemon_state \<Rightarrow> bool" where
  "watchdog_expired now st =
     (routing_active st \<and> from_secs WATCHDOG_TIMEOUT_SECS < elapsed now (last_heartbeat st))"

definition watchdog_tick :: "ipnet_ops \<Rightarrow> 'k backend \<Rightarrow> instant \<Rightarrow> 'k app \<Rightarrow> 'k app" where
  "watchdog_tick io be now ap =
     (if watchdog_expired now (ap_state ap) then snd (rollback io be ap) else ap)"

definition watchdog_interval :: duration where
  "watchdog_interval = from_secs (min HEARTBEAT_INTERVAL_SECS 1)"

text \<open>The loop of \<open>spawn_watchdog\<close> over \<open>n\<close> rounds, the first one an interval after \<open>t\<close>.\<close>

fun watchdog_run :: "ipnet_ops \<Rightarrow> 'k backend \<Rightarrow> instant \<Rightarrow> nat \<Rightarrow> 'k app \<Rightarrow> 'k app" where
  "watchdog_run io be t 0 ap = ap"
| "watchdog_run io be t (Suc n) ap =
     watchdog_run io be (t + watchdog_interval) n (watchdog_tick io be (t + watchdog_interval) ap)"

text \<open>\<open>choose_backend\<close>: the real backend only for root and only on request.\<close>

definition choose_backend :: "string option \<Rightarrow> bool \<Rightarrow> 'k net_ops \<Rightarrow> 'k backend" where
  "choose_backend env is_root no =
     (if env = Some ''netfilter'' \<and> is_root then NftablesBackend no else NoopBackend)"

interpretation chosen: routing_backend "choose_backend env is_root no" for env is_root no
  by unfold_locales (simp add: choose_backend_def noop.disable_ok nft.disable_ok)

section \<open>Interleaving\<close>

text \<open>
  The tasks of the daemon share the state under a lock that is held for single critical
  sections only; the backend is called with the lock released.  A task is a session or, as
  \<open>None\<close>, the watchdog; its phase says which section it runs next.
\<close>

datatype phase =
    Idle
  | Claimed routing_config
  | Installed routing_config
  | Releasing
  | Rolling
  | SettingsRead "tproxy_settings option"
  | RulesRemoved

record 'k world =
  wd_state :: daemon_state
  wd_kernel :: 'k
  wd_clock :: instant
  wd_phase :: "u64 option \<Rightarrow> phase"

inductive netd_step :: "ipnet_ops \<Rightarrow> 'k backend \<Rightarrow> 'k world \<Rightarrow> 'k world \<Rightarrow> bool" for io be where
  time_passes: "netd_step io be w (w\<lparr>wd_clock := wd_clock w + d\<rparr>)"
| claim: "\<lbrakk>wd_phase w (Some sid) = Idle; validate_config io r = Ok c;
    claim_controller sid (wd_clock w) (wd_state w) = (Ok (), st)\<rbrakk> \<Longrightarrow>
    netd_step io be w (w\<lparr>wd_state := st, wd_phase := (wd_phase w)(Some sid := Claimed c)\<rparr>)"
| enable_ok: "\<lbrakk>wd_phase w (Some sid) = Claimed c; be_enable be (settings_of io c) (wd_kernel w) = (Ok (), k)\<rbrakk> \<Longrightarrow>
    netd_step io be w (w\<lparr>wd_kernel := k, wd_phase := (wd_phase w)(Some sid := Installed c)\<rparr>)"
| enable_err: "\<lbrakk>wd_phase w (Some sid) = Claimed c; be_enable be (settings_of io c) (wd_kernel w) = (Err e, k)\<rbrakk> \<Longrightarrow>
    netd_step io be w (w\<lparr>wd_kernel := k, wd_phase := (wd_phase w)(Some sid := Releasing)\<rparr>)"
| enable_commit: "wd_phase w (Some sid) = Installed c \<Longrightarrow>
    netd_step io be w (w\<lparr>wd_state := commit_enable c (wd_clock w) (wd_state w),
      wd_phase := (wd_phase w)(Some sid := Idle)\<rparr>)"
| release: "wd_phase w (Some sid) = Releasing \<Longrightarrow>
    netd_step io be w (w\<lparr>wd_state := release_session sid (wd_state w),
      wd_phase := (wd_phase w)(Some sid := Idle)\<rparr>)"
| heartbeat: "\<lbrakk>wd_phase w (Some sid) = Idle;
    heartbeat_allowed (active_session (wd_state w)) (routing_active (wd_state w)) sid\<rbrakk> \<Longrightarrow>
    netd_step io be w (w\<lparr>wd_state := (wd_state w)\<lparr>last_heartbeat := wd_clock w\<rparr>\<rparr>)"
| disable_request: "wd_phase w (Some sid) = Idle \<Longrightarrow>
    netd_step io be w (w\<lparr>wd_phase := (wd_phase w)(Some sid := Rolling)\<rparr>)"
| disconnect_owner: "\<lbrakk>wd_phase w (Some sid) = Idle; active_session (wd_state w) = Some sid; routing_active (wd_state w)\<rbrakk> \<Longrightarrow>
    netd_step io be w (w\<lparr>wd_phase := (wd_phase w)(Some sid := Rolling)\<rparr>)"
| disconnect_other: "\<lbrakk>wd_phase w (Some sid) = Idle; \<not> (active_session (wd_state w) = Some sid \<and> routing_active (wd_state w))\<rbrakk> \<Longrightarrow>
    netd_step io be w (w\<lparr>wd_phase := (wd_phase w)(Some sid := Releasing)\<rparr>)"
| watchdog_fires: "\<lbrakk>wd_phase w None = Idle; watchdog_expired (wd_clock w) (wd_state w)\<rbrakk> \<Longrightarrow>
    netd_step io be w (w\<lparr>wd_phase := (wd_phase w)(None := Rolling)\<rparr>)"
| rollback_read: "wd_phase w t = Rolling \<Longrightarrow>
    netd_step io be w (w\<lparr>wd_phase := (wd_phase w)(t :=
      SettingsRead (map_option (settings_of io) (routing_config (wd_state w))))\<rparr>)"
| rollback_disable: "\<lbrakk>wd_phase w t = SettingsRead so; be_disable be so (wd_kernel w) = (r, k)\<rbrakk> \<Longrightarrow>
    netd_step io be w (w\<lparr>wd_kernel := k, wd_phase := (wd_phase w)(t := (if is_ok r then RulesRemoved else Idle))\<rparr>)"
| rollback_commit: "wd_phase w t = RulesRemoved \<Longrightarrow>
    netd_step io be w (w\<lparr>wd_state := commit_rollback (wd_state w), wd_phase := (wd_phase w)(t := Idle)\<rparr>)"

definition initial_world :: "instant \<Rightarrow> 'k \<Rightarrow> 'k world" where
  "initial_world now k = \<lparr>wd_state = initial_state now, wd_kernel = k, wd_clock = now, wd_phase = (\<lambda>_. Idle)\<rparr>"

definition state_ok :: "daemon_state \<Rightarrow> bool" where
  "state_ok st \<longleftrightarrow> (case routing_config st of None \<Rightarrow> \<not> routing_active st | Some c \<Rightarrow> routing_active st \<and> safe_config c)"

fun phase_ok :: "ipnet_ops \<Rightarrow> phase \<Rightarrow> bool" where
  "phase_ok io (Claimed c) = safe_config c"
| "phase_ok io (Installed c) = safe_config c"
| "phase_ok io (SettingsRead (Some s)) = (\<exists>c. safe_config c \<and> s = settings_of io c)"
| "phase_ok io _ = True"

definition world_ok :: "ipnet_ops \<Rightarrow> 'k world \<Rightarrow> bool" where
  "world_ok io w \<longleftrightarrow> state_ok (wd_state w) \<and> last_heartbeat (wd_state w) \<le> wd_clock w
     \<and> (\<forall>t. phase_ok io (wd_phase w t))"

section \<open>Lemmas\<close>

lemma parse_bypass_nonzero:
  "parse_bypass4 io s = Ok n4 \<Longrightarrow> snd n4 \<noteq> 0" "parse_bypass6 io s = Ok n6 \<Longrightarrow> snd n6 \<noteq> 0"
  by (auto simp: parse_bypass4_def parse_bypass6_def split: sum.splits if_splits)

lemma try_map_all:
  assumes "try_map f xs = Ok ys" and "\<And>x y. f x = Ok y \<Longrightarrow> P y"
  shows "list_all P ys"
proof -
  have "list_all2 (\<lambda>x y. f x = Ok y) xs ys" using assms(1) by (simp add: try_map_Inr_iff)
  then show ?thesis by (induction rule: list_all2_induct) (auto intro: assms(2))
qed

lemma validate_config_safe:
  assumes "validate_config io r = Ok c"
  shows "safe_config c"
proof -
  have "list_all (\<lambda>n. snd n \<noteq> 0) (rc_bypass_subnets c)"
    "list_all (\<lambda>n. snd n \<noteq> 0) (rc_bypass_subnets_v6 c)"
    using assms
    by (auto simp: validate_config_def elim!: try_map_all dest: parse_bypass_nonzero split: if_splits)
  with assms show ?thesis
    by (auto simp: validate_config_def safe_config_def try_map_length split: if_splits option.splits)
qed

lemma claim_controller_Ok:
  "claim_controller sid now st = (Ok u, st') \<longleftrightarrow>
     (active_session st = None \<or> active_session st = Some sid)
     \<and> st' = st\<lparr>active_session := Some sid, last_heartbeat := now\<rparr>"
  by (auto simp: claim_controller_def)

lemma state_ok_simps [simp]:
  "state_ok (initial_state now)"
  "state_ok (commit_rollback st)"
  "state_ok (commit_enable c now st) = safe_config c"
  "state_ok (st\<lparr>active_session := a\<rparr>) = state_ok st"
  "state_ok (st\<lparr>last_heartbeat := t\<rparr>) = state_ok st"
  "state_ok (release_session sid st) = state_ok st"
  by (simp_all add: state_ok_def initial_state_def commit_rollback_def commit_enable_def release_session_def
      split: option.splits)

lemma heartbeat_kept [simp]:
  "last_heartbeat (commit_rollback st) = last_heartbeat st"
  "last_heartbeat (release_session sid st) = last_heartbeat st"
  "last_heartbeat (commit_enable c now st) = now"
  by (simp_all add: commit_rollback_def release_session_def commit_enable_def)

lemma world_ok_upd:
  assumes "world_ok io w" "state_ok st" "last_heartbeat st \<le> wd_clock w" "phase_ok io p"
  shows "world_ok io (w\<lparr>wd_state := st, wd_phase := (wd_phase w)(t := p)\<rparr>)"
    and "world_ok io (w\<lparr>wd_state := st\<rparr>)"
    and "world_ok io (w\<lparr>wd_phase := (wd_phase w)(t := p)\<rparr>)"
    and "world_ok io (w\<lparr>wd_kernel := k, wd_phase := (wd_phase w)(t := p)\<rparr>)"
  using assms by (simp_all add: world_ok_def)

lemma world_ok_step:
  assumes "netd_step io be w w'" and "world_ok io w"
  shows "world_ok io w'"
  using assms
proof (induction rule: netd_step.induct)
  case (time_passes w d)
  then show ?case by (simp add: world_ok_def trans_le_add1)
next
  case (claim w sid r c st)
  then show ?case
    by (intro world_ok_upd) (auto simp: world_ok_def claim_controller_Ok validate_config_safe)
next
  case (enable_ok w sid c k)
  then have "safe_config c" by (metis phase_ok.simps(1) world_ok_def)
  with enable_ok show ?case by (simp add: world_ok_def)
next
  case (enable_commit w sid c)
  then have "safe_config c" by (metis phase_ok.simps(2) world_ok_def)
  with enable_commit show ?case by (intro world_ok_upd) (auto simp: world_ok_def)
next
  case (rollback_read w t)
  then have "phase_ok io (SettingsRead (map_option (settings_of io) (routing_config (wd_state w))))"
    by (auto simp: world_ok_def state_ok_def split: option.splits)
  with rollback_read show ?case by (simp add: world_ok_def)
qed (auto simp: world_ok_def)

lemma world_ok_reachable: "(netd_step io be)\<^sup>*\<^sup>* w w' \<Longrightarrow> world_ok io w \<Longrightarrow> world_ok io w'"
  by (induction rule: rtranclp_induct) (auto intro: world_ok_step)

subsection \<open>What the kernel is handed\<close>

definition safe_settings :: "ipnet_ops \<Rightarrow> tproxy_settings \<Rightarrow> bool" where
  "safe_settings io s \<longleftrightarrow> (\<exists>c. safe_config c \<and> s = settings_of io c)"

definition kernel_invariant :: "ipnet_ops \<Rightarrow> 'k backend \<Rightarrow> ('k \<Rightarrow> bool) \<Rightarrow> bool" where
  "kernel_invariant io be P \<longleftrightarrow>
     (\<forall>s k. safe_settings io s \<longrightarrow> P k \<longrightarrow> P (snd (be_enable be s k)))
     \<and> (\<forall>so k. (\<forall>s. so = Some s \<longrightarrow> safe_settings io s) \<longrightarrow> P k \<longrightarrow> P (snd (be_disable be so k)))"

definition app_ok :: "('k \<Rightarrow> bool) \<Rightarrow> 'k app \<Rightarrow> bool" where
  "app_ok P ap \<longleftrightarrow> P (ap_kernel ap) \<and> state_ok (ap_state ap)"

lemma kernel_invariant_enable:
  "\<lbrakk>kernel_invariant io be P; safe_config c; P k\<rbrakk> \<Longrightarrow> P (snd (be_enable be (settings_of io c) k))"
  by (auto simp: kernel_invariant_def safe_settings_def)

lemma rollback_app_ok:
  assumes "kernel_invariant io be P" and "app_ok P ap"
  shows "app_ok P (snd (rollback io be ap))"
proof -
  let ?so = "map_option (settings_of io) (routing_config (ap_state ap))"
  have "\<forall>s. ?so = Some s \<longrightarrow> safe_settings io s"
    using assms(2) by (auto simp: app_ok_def state_ok_def safe_settings_def split: option.splits)
  then have "P (snd (be_disable be ?so (ap_kernel ap)))"
    using assms by (simp add: kernel_invariant_def app_ok_def)
  with assms(2) show ?thesis
    by (auto simp: rollback_def app_ok_def Let_def split: prod.splits sum.splits)
qed

lemma process_enable_app_ok:
  assumes "kernel_invariant io be P" and "app_ok P ap"
  shows "app_ok P (snd (process_enable io be rs r sid now ap))"
proof (cases "validate_config io r")
  case (Inl e)
  with assms(2) show ?thesis by (simp add: process_enable_def split: sum.splits)
next
  case (Inr c)
  then have safe: "safe_config c" by (rule validate_config_safe)
  then have "P (snd (be_enable be (settings_of io c) (ap_kernel ap)))"
    using assms by (simp add: kernel_invariant_enable app_ok_def)
  with Inr safe assms(2) show ?thesis
    by (auto simp: process_enable_def app_ok_def claim_controller_def split: sum.splits prod.splits if_splits)
qed

lemma process_request_app_ok:
  assumes "kernel_invariant io be P" and "app_ok P ap"
  shows "app_ok P (snd (process_request io be rq sid now ap))"
proof (cases rq)
  case (EnableRouting rs r)
  with assms show ?thesis by (simp add: process_enable_app_ok)
next
  case (DisableRouting rs)
  with rollback_app_ok[OF assms] assms(2) show ?thesis by (auto split: sum.splits prod.splits)
next
  case (Heartbeat rs q)
  with assms(2) show ?thesis by (auto simp: app_ok_def split: sum.splits)
qed (use assms(2) in simp)

lemma on_disconnect_app_ok:
  assumes "kernel_invariant io be P" and "app_ok P ap"
  shows "app_ok P (snd (on_disconnect io be sid ap))"
  using rollback_app_ok[OF assms] assms(2) by (simp add: on_disconnect_def app_ok_def)

lemma serve_app_ok:
  "kernel_invariant io be P \<Longrightarrow> app_ok P ap \<Longrightarrow> app_ok P (snd (snd (serve io be sid fs ap sent)))"
proof (induction io be sid fs ap sent rule: serve.induct)
  case (1 io be sid ap sent)
  then have "app_ok P (snd (on_disconnect io be sid ap))" by (rule on_disconnect_app_ok)
  then show ?case by (simp add: case_prod_beta)
next
  case (3 io be sid now writable rq fs ap sent)
  then have "app_ok P (snd (process_request io be rq sid now ap))" by (intro process_request_app_ok)
  with 3 show ?case by (auto split: prod.splits)
qed simp

lemma process_request_cases_other:
  assumes "active_session (ap_state ap) = Some owner" and "sid \<noteq> owner" and "\<nexists>s. rq = DisableRouting s"
  shows "is_err (fst (process_request io be rq sid now ap)) \<and> snd (process_request io be rq sid now ap) = ap"
  using assms
  by (cases rq)
     (auto simp: process_enable_def require_controller_def claim_controller_def heartbeat_allowed_def
       split: sum.splits)

lemma handle_client_app_ok:
  assumes "kernel_invariant io be P" and "app_ok P ap"
  shows "app_ok P (snd (snd (snd (handle_client io be env uid frames next ap))))"
  using assms serve_app_ok[OF assms]
  by (auto simp: handle_client_def Let_def next_session_id_def case_prod_beta
      split: sum.splits list.splits frame_event.splits netd_request.splits)

lemma chosen_rollback:
  "\<exists>k. rollback io (choose_backend env is_root no) ap = (Ok (), ap\<lparr>ap_kernel := k, ap_state := commit_rollback (ap_state ap)\<rparr>)"
proof -
  let ?so = "map_option (settings_of io) (routing_config (ap_state ap))"
  obtain k where "be_disable (choose_backend env is_root no) ?so (ap_kernel ap) = (Ok (), k)"
    by (rule chosen.disable_cases)
  then show ?thesis by (intro exI[of _ k]) (simp add: rollback_def Let_def)
qed

lemma watchdog_run_inactive: "\<not> routing_active (ap_state ap) \<Longrightarrow> watchdog_run io be t n ap = ap"
  by (induction n arbitrary: t) (simp_all add: watchdog_tick_def watchdog_expired_def)

lemma watchdog_run_quiet:
  assumes "t + from_secs n \<le> last_heartbeat (ap_state ap) + from_secs 5"
  shows "watchdog_run io be t n ap = ap"
  using assms
  by (induction n arbitrary: t)
     (auto simp: watchdog_tick_def watchdog_expired_def elapsed_def watchdog_interval_def from_secs_def
       WATCHDOG_TIMEOUT_SECS_def HEARTBEAT_INTERVAL_SECS_def)

lemma watchdog_run_fires:
  assumes "last_heartbeat (ap_state ap) + from_secs 5 < t + from_secs n"
  shows "\<not> routing_active (ap_state (watchdog_run io (choose_backend env is_root no) t n ap)) \<or> n = 0"
  using assms
proof (induction n arbitrary: t ap)
  case 0
  then show ?case by simp
next
  case (Suc n)
  let ?be = "choose_backend env is_root no"
  let ?t = "t + watchdog_interval"
  have int: "?t = t + from_secs 1"
    by (simp add: watchdog_interval_def HEARTBEAT_INTERVAL_SECS_def)
  have Sn: "from_secs (Suc n) = from_secs 1 + from_secs n" by (simp add: from_secs_def)
  show ?case
  proof (cases "watchdog_expired ?t (ap_state ap)")
    case True
    obtain k where "rollback io ?be ap = (Ok (), ap\<lparr>ap_kernel := k, ap_state := commit_rollback (ap_state ap)\<rparr>)"
      using chosen_rollback[of io env is_root no ap] by blast
    with True have "\<not> routing_active (ap_state (watchdog_tick io ?be ?t ap))"
      by (simp add: watchdog_tick_def commit_rollback_def)
    then show ?thesis by (simp add: watchdog_run_inactive)
  next
    case False
    then have tick: "watchdog_tick io ?be ?t ap = ap" by (simp add: watchdog_tick_def)
    show ?thesis
    proof (cases "routing_active (ap_state ap)")
      case inactive: False
      then show ?thesis by (simp add: tick watchdog_run_inactive)
    next
      case active: True
      with False have "?t \<le> last_heartbeat (ap_state ap) + from_secs 5"
        by (simp add: watchdog_expired_def elapsed_def WATCHDOG_TIMEOUT_SECS_def)
      with Suc.prems int Sn have "n \<noteq> 0" by (cases n) (auto simp: from_secs_def)
      moreover have "last_heartbeat (ap_state ap) + from_secs 5 < ?t + from_secs n"
        using Suc.prems int Sn by simp
      ultimately show ?thesis using Suc.IH[of ap ?t] by (simp add: tick)
    qed
  qed
qed

lemma chosen_disconnect:
  "\<exists>ap'. on_disconnect io (choose_backend env is_root no) sid ap = (Ok (), ap')
     \<and> active_session (ap_state ap') \<noteq> Some sid"
  using chosen_rollback[of io env is_root no ap]
  by (auto simp: on_disconnect_def release_session_def commit_rollback_def)

lemma serve_chosen_ok:
  assumes "list_all (\<lambda>f. \<exists>now rq. f = Req now True rq) fs"
  shows "\<exists>sent' ap'. serve io (choose_backend env is_root no) sid fs ap sent = (Ok (), sent', ap')
     \<and> active_session (ap_state ap') \<noteq> Some sid \<and> length sent' = length sent + length fs"
  using assms
proof (induction fs arbitrary: ap sent)
  case Nil
  then show ?case using chosen_disconnect[of io env is_root no sid ap] by auto
next
  case (Cons f fs)
  then obtain now rq where f: "f = Req now True rq" by auto
  obtain r ap1 where "process_request io (choose_backend env is_root no) rq sid now ap = (r, ap1)" by fastforce
  with f Cons.prems Cons.IH[of ap1 "sent @ [reply_of r]"] show ?case by auto
qed

section \<open>Properties\<close>

text \<open>An \<open>ipnet\<close> that knows one network, a valid request, and a kernel that records settings.\<close>

definition sample_ipnet :: ipnet_ops where
  "sample_ipnet = \<lparr>parse_net4 = (\<lambda>s. if s = ''10.0.0.0/8'' then Ok (0x0A000000, 8) else Err ''invalid''),
     parse_net6 = (\<lambda>s. Err ''invalid''), show_net4 = (\<lambda>n. ''10.0.0.0/8''), show_net6 = (\<lambda>n. [])\<rparr>"

definition sample_request :: "u16 \<Rightarrow> enable_request" where
  "sample_request port = \<lparr>rq_tproxy_port = port, rq_proxy_fwmark = 1, rq_table_id = 100, rq_dns_ipv4 = None,
     rq_bypass_subnets = [''10.0.0.0/8''], rq_bypass_subnets_v6 = [], rq_core_uid = None\<rparr>"

definition sample_config :: "u16 \<Rightarrow> routing_config" where
  "sample_config port = \<lparr>rc_tproxy_port = port, rc_proxy_fwmark = 1, rc_table_id = 100, rc_dns_ipv4 = None,
     rc_bypass_subnets = [(0x0A000000, 8)], rc_bypass_subnets_v6 = [], rc_core_uid = None\<rparr>"

lemma sample_validates: "1024 \<le> port \<Longrightarrow> validate_config sample_ipnet (sample_request port) = Ok (sample_config port)"
  by (simp add: validate_config_def sample_request_def sample_config_def sample_ipnet_def parse_bypass4_def)

definition recorder :: "tproxy_settings list backend" where
  "recorder = \<lparr>be_enable = (\<lambda>s k. (Ok (), k @ [s])), be_disable = (\<lambda>so k. (Ok (), k))\<rparr>"

text \<open>
  Claim C1.  Only validated settings reach the kernel: whatever frames an authorised or
  unauthorised client sends, every property of the kernel state that survives applying and
  removing safe settings (port above 1023, mark neither 0 nor all ones, table 1 to 252, routable
  DNS address, real user id, at most 256 bypass networks and none of them the default route) is
  kept by the whole connection, and the configuration the daemon remembers is safe as well.
\<close>

theorem only_safe_settings_reach_kernel:
  assumes "kernel_invariant io be P" and "P (ap_kernel ap)" and "state_ok (ap_state ap)"
    and "handle_client io be env uid frames next ap = (r, sent, next', ap')"
  shows "P (ap_kernel ap') \<and> state_ok (ap_state ap')"
proof -
  have "app_ok P ap" using assms by (simp add: app_ok_def)
  then have "app_ok P (snd (snd (snd (handle_client io be env uid frames next ap))))"
    using assms(1) by (simp add: handle_client_app_ok)
  then show ?thesis by (simp add: assms(4) app_ok_def)
qed

theorem only_safe_settings_reach_kernel_witness:
  "\<exists>r sent ap'. handle_client sample_ipnet recorder None 0
       [Req 0 True (Handshake 1), Req 1 True (EnableRouting 1 (sample_request 80)),
        Req 2 True (EnableRouting 1 (sample_request 12345))] 1
       \<lparr>ap_state = initial_state 0, ap_kernel = []\<rparr> = (r, sent, 2, ap')
     \<and> map tp_port (ap_kernel ap') = [12345] \<and> list_all (\<lambda>s. 1024 \<le> tp_port s) (ap_kernel ap')"
proof -
  let ?P = "list_all (\<lambda>s. 1024 \<le> tp_port s)"
  let ?ap = "\<lparr>ap_state = initial_state 0, ap_kernel = []\<rparr>"
  have inv: "kernel_invariant sample_ipnet recorder ?P"
    by (auto simp: kernel_invariant_def recorder_def safe_settings_def safe_config_def settings_of_def)
  have low: "is_err (validate_config sample_ipnet (sample_request 80))"
    by (simp add: validate_config_def sample_request_def)
  then obtain e where low: "validate_config sample_ipnet (sample_request 80) = Err e"
    by (cases "validate_config sample_ipnet (sample_request 80)") auto
  obtain r sent ap' where run: "handle_client sample_ipnet recorder None 0
       [Req 0 True (Handshake 1), Req 1 True (EnableRouting 1 (sample_request 80)),
        Req 2 True (EnableRouting 1 (sample_request 12345))] 1 ?ap = (r, sent, 2, ap')"
    and ports: "map tp_port (ap_kernel ap') = [12345]"
    by (simp add: handle_client_def authorize_uid_def PROTOCOL_VERSION_def next_session_id_def
        process_enable_def require_controller_def low sample_validates claim_controller_def
        initial_state_def recorder_def on_disconnect_def commit_enable_def rollback_def Let_def
        settings_of_def sample_config_def)
  have "?P (ap_kernel ap')"
    using only_safe_settings_reach_kernel[OF inv _ _ run] by simp
  with run ports show ?thesis
    by (intro exI[of _ r] exI[of _ sent] exI[of _ ap'] conjI)
qed

text \<open>
  Claim C4.  Exclusive ownership: while another session owns the controller, a session can
  neither enable routing, nor refresh the watchdog, nor shake hands again; the request is
  answered with an error and neither the daemon state nor the kernel changes.
\<close>

theorem foreign_session_refused:
  assumes "active_session (ap_state ap) = Some owner" and "sid \<noteq> owner" and "\<nexists>s. rq = DisableRouting s"
  shows "\<exists>e. process_request io be rq sid now ap = (Err e, ap)"
  using process_request_cases_other[OF assms, of io be now]
  by (cases "process_request io be rq sid now ap") (auto simp: is_ok_iff sum.exhaust_sel, metis sum.exhaust)

theorem foreign_session_refused_witness:
  "\<exists>e. process_request sample_ipnet recorder (EnableRouting 2 (sample_request 12345)) 2 9
      \<lparr>ap_state = (initial_state 0)\<lparr>active_session := Some 1\<rparr>, ap_kernel = []\<rparr>
    = (Err e, \<lparr>ap_state = (initial_state 0)\<lparr>active_session := Some 1\<rparr>, ap_kernel = []\<rparr>)"
  by (rule foreign_session_refused[of _ 1]) auto

text \<open>
  \<open>DisableRouting\<close> is not protected by ownership: with either backend, any session
  that quotes its own session id takes down the routing of whichever session owns it and clears
  the ownership.
\<close>

theorem disable_ignores_ownership:
  "\<exists>k. process_request io (choose_backend env is_root no) (DisableRouting sid) sid now ap =
     (Ok RoutingDisabled, \<lparr>ap_state = (ap_state ap)\<lparr>routing_active := False, routing_config := None,
        active_session := None\<rparr>, ap_kernel = k\<rparr>)"
  using chosen_rollback[of io env is_root no ap]
  by (cases ap) (auto simp: require_controller_def commit_rollback_def)

text \<open>
  Claim C2.  The dead man's switch: without heartbeats the watchdog, which looks once a second,
  leaves the daemon alone as long as the last heartbeat is at most five seconds old, and after
  the first look past that moment routing is off; starting from the moment of the last heartbeat
  that is exactly the sixth look.
\<close>

theorem watchdog_bound:
  assumes "last_heartbeat (ap_state ap) = h"
  shows "(t + from_secs n \<le> h + from_secs 5 \<longrightarrow> watchdog_run io (choose_backend env is_root no) t n ap = ap)
    \<and> (h \<le> t \<and> 6 \<le> n \<longrightarrow> \<not> routing_active (ap_state (watchdog_run io (choose_backend env is_root no) t n ap)))"
proof (intro conjI impI)
  assume "t + from_secs n \<le> h + from_secs 5"
  with assms show "watchdog_run io (choose_backend env is_root no) t n ap = ap"
    by (simp add: watchdog_run_quiet)
next
  assume le: "h \<le> t \<and> 6 \<le> n"
  then have "from_secs 5 < from_secs n" by (simp add: from_secs_def)
  with le assms show "\<not> routing_active (ap_state (watchdog_run io (choose_backend env is_root no) t n ap))"
    using watchdog_run_fires[of ap t n io env is_root no] by auto
qed

theorem watchdog_bound_witness:
  "(let ap = \<lparr>ap_state = commit_enable (sample_config 12345) 0 (initial_state 0), ap_kernel = []\<rparr>;
        be = choose_backend None True reject_ops
    in watchdog_run sample_ipnet be 0 5 ap = ap \<and> routing_active (ap_state ap)
       \<and> \<not> routing_active (ap_state (watchdog_run sample_ipnet be 0 6 ap)))"
proof -
  let ?ap = "\<lparr>ap_state = commit_enable (sample_config 12345) 0 (initial_state 0), ap_kernel = []\<rparr>"
  have h: "last_heartbeat (ap_state ?ap) = 0" by simp
  show ?thesis
    using watchdog_bound[OF h, of 0 5 sample_ipnet None True reject_ops]
      watchdog_bound[OF h, of 0 6 sample_ipnet None True reject_ops]
    by (simp add: Let_def commit_enable_def)
qed

text \<open>
  A controller whose repeated \<open>EnableRouting\<close> fails loses the ownership of routing
  that stays marked active: the old configuration remains in force, the controller's own
  heartbeats are refused from then on, and any other session may claim the controller.
\<close>

theorem failed_reenable_orphans_routing:
  assumes "validate_config io r = Ok c" and "active_session (ap_state ap) = Some sid"
    and "routing_active (ap_state ap)" and "be_enable be (settings_of io c) (ap_kernel ap) = (Err e, k)"
  shows "\<exists>ap'. process_request io be (EnableRouting sid r) sid now ap = (Err e, ap')
    \<and> routing_active (ap_state ap') \<and> routing_config (ap_state ap') = routing_config (ap_state ap)
    \<and> is_err (fst (process_request io be (Heartbeat sid q) sid now2 ap'))
    \<and> is_ok (fst (claim_controller other now3 (ap_state ap')))"
  using assms
  by (simp add: process_enable_def require_controller_def claim_controller_def release_session_def
      heartbeat_allowed_def)

definition refusing :: "unit backend" where
  "refusing = \<lparr>be_enable = (\<lambda>s k. (Err ''rejected'', k)), be_disable = (\<lambda>so k. (Ok (), k))\<rparr>"

theorem failed_reenable_orphans_routing_witness:
  "\<exists>ap'. process_request sample_ipnet refusing (EnableRouting 1 (sample_request 12345)) 1 7
      \<lparr>ap_state = \<lparr>active_session = Some 1, routing_active = True, last_heartbeat = 5,
         routing_config = Some (sample_config 2000)\<rparr>, ap_kernel = ()\<rparr> = (Err ''rejected'', ap')
    \<and> routing_active (ap_state ap') \<and> routing_config (ap_state ap') = Some (sample_config 2000)
    \<and> is_err (fst (process_request sample_ipnet refusing (Heartbeat 1 3) 1 8 ap'))
    \<and> is_ok (fst (claim_controller 2 9 (ap_state ap')))"
proof -
  let ?ap = "\<lparr>ap_state = \<lparr>active_session = Some 1, routing_active = True, last_heartbeat = 5,
         routing_config = Some (sample_config 2000)\<rparr>, ap_kernel = ()\<rparr>"
  have v: "validate_config sample_ipnet (sample_request 12345) = Ok (sample_config 12345)"
    by (simp add: sample_validates)
  have e: "be_enable refusing (settings_of sample_ipnet (sample_config 12345)) (ap_kernel ?ap) = (Err ''rejected'', ())"
    by (simp add: refusing_def)
  have "active_session (ap_state ?ap) = Some 1" "routing_active (ap_state ?ap)" by simp_all
  from failed_reenable_orphans_routing[OF v this e, of 7 3 8 2 9] show ?thesis by simp
qed

text \<open>
  A connection that ends in an orderly way leaves nothing behind: if every frame was
  a request and every reply could be written, the handler succeeds, each request and the
  handshake got exactly one reply, and the session it was given no longer owns the controller.
\<close>

theorem orderly_disconnect_releases:
  assumes "authorize_uid env' uid = Ok ()" and "list_all (\<lambda>f. \<exists>now rq. f = Req now True rq) fs"
  shows "\<exists>sent ap'. handle_client io (choose_backend env is_root no) env' uid
      (Req now True (Handshake PROTOCOL_VERSION) # fs) next ap = (Ok (), sent, next + 1, ap')
    \<and> active_session (ap_state ap') \<noteq> Some next \<and> length sent = Suc (length fs)"
  using serve_chosen_ok[OF assms(2), of io env is_root no "next" ap "[HandshakeOk PROTOCOL_VERSION next]"] assms(1)
  by (auto simp: handle_client_def next_session_id_def)

theorem orderly_disconnect_releases_witness:
  "\<exists>sent ap'. handle_client sample_ipnet (choose_backend None True reject_ops) None 0
      [Req 0 True (Handshake PROTOCOL_VERSION), Req 1 True (EnableRouting 7 (sample_request 12345))] 7
      \<lparr>ap_state = initial_state 0, ap_kernel = []\<rparr> = (Ok (), sent, 7 + 1, ap')
    \<and> active_session (ap_state ap') \<noteq> Some 7 \<and> length sent = Suc (length [Req 1 True (EnableRouting 7 (sample_request 12345))])"
  by (rule orderly_disconnect_releases) (simp_all add: authorize_uid_def)

text \<open>
  Claim C3.  Whatever the order in which sessions, disconnects and the watchdog reach their
  critical sections, in every reachable state routing is marked active exactly when a
  configuration is remembered, that configuration is safe, the last heartbeat is not in the
  future, and every configuration a task is about to install or take down is safe.
\<close>

theorem reachable_world_ok:
  assumes "(netd_step io be)\<^sup>*\<^sup>* (initial_world now k) w"
  shows "world_ok io w"
  using assms world_ok_reachable[of io be "initial_world now k" w]
  by (simp add: initial_world_def world_ok_def initial_state_def state_ok_def)

text \<open>A kernel of which only the presence of the \<open>myproxy\<close> table is observed.\<close>

definition table_ops :: "bool net_ops" where
  "table_ops = \<lparr>no_prerequisites = (\<lambda>_. Ok ()), no_run_ip = (\<lambda>a k. (Ok (), k)),
     no_apply_ruleset = (\<lambda>r k. (Ok (), r \<noteq> ''delete table inet myproxy''))\<rparr>"

abbreviation table_backend :: "bool backend" where
  "table_backend \<equiv> choose_backend (Some ''netfilter'') True table_ops"

lemma table_enable: "be_enable table_backend s k = (Ok (), True)"
  by (simp add: choose_backend_def NftablesBackend_def nftables_enable_def table_ops_def
      install_policy_routing_def policy_args_def render_ruleset_def ruleset_lines_def)

lemma table_disable: "be_disable table_backend so k = (Ok (), False)"
  by (simp add: choose_backend_def NftablesBackend_def nftables_disable_def table_ops_def Let_def
      remove_policy_routing_def policy_args_def split: option.splits)

definition mk_world :: "daemon_state \<Rightarrow> bool \<Rightarrow> instant \<Rightarrow> phase \<Rightarrow> phase \<Rightarrow> bool world" where
  "mk_world st k now p wp = \<lparr>wd_state = st, wd_kernel = k, wd_clock = now,
     wd_phase = (\<lambda>_. Idle)(Some 1 := p, None := wp)\<rparr>"

lemma mk_world_initial: "mk_world (initial_state now) k now Idle Idle = initial_world now k"
  by (auto simp: mk_world_def initial_world_def)

text \<open>One enable request of session 1 while the watchdog is at phase \<open>wp\<close>.\<close>

lemma mk_world_enable:
  assumes "active_session st = None \<or> active_session st = Some 1"
  shows "(netd_step sample_ipnet table_backend)\<^sup>*\<^sup>* (mk_world st k now Idle wp)
     (mk_world (commit_enable (sample_config 2000) now (st\<lparr>active_session := Some 1, last_heartbeat := now\<rparr>)) True now Idle wp)"
proof -
  let ?S = "netd_step sample_ipnet table_backend" and ?c = "sample_config 2000"
  let ?st = "st\<lparr>active_session := Some 1, last_heartbeat := now\<rparr>"
  have "?S (mk_world st k now Idle wp) (mk_world ?st k now (Claimed ?c) wp)"
    using netd_step.claim[of "mk_world st k now Idle wp" 1 sample_ipnet "sample_request 2000" ?c ?st]
      assms by (simp add: mk_world_def sample_validates claim_controller_Ok fun_upd_twist)
  moreover have "?S (mk_world ?st k now (Claimed ?c) wp) (mk_world ?st True now (Installed ?c) wp)"
    using netd_step.enable_ok[of "mk_world ?st k now (Claimed ?c) wp" 1 ?c table_backend sample_ipnet]
    by (simp add: mk_world_def table_enable fun_upd_twist)
  moreover have "?S (mk_world ?st True now (Installed ?c) wp) (mk_world (commit_enable ?c now ?st) True now Idle wp)"
    using netd_step.enable_commit[of "mk_world ?st True now (Installed ?c) wp" 1 ?c]
    by (simp add: mk_world_def fun_upd_twist)
  ultimately show ?thesis by (meson converse_rtranclp_into_rtranclp r_into_rtranclp)
qed

lemma mk_world_watchdog_starts:
  assumes "routing_active st" and "last_heartbeat st = 0"
  shows "(netd_step sample_ipnet table_backend)\<^sup>*\<^sup>* (mk_world st k 0 Idle Idle)
     (mk_world st False (from_secs 6) Idle RulesRemoved)"
proof -
  let ?S = "netd_step sample_ipnet table_backend" and ?t = "from_secs 6"
  let ?so = "map_option (settings_of sample_ipnet) (routing_config st)"
  have "?S (mk_world st k 0 Idle Idle) (mk_world st k ?t Idle Idle)"
    using netd_step.time_passes[of _ _ "mk_world st k 0 Idle Idle" ?t] by (simp add: mk_world_def)
  moreover have "?S (mk_world st k ?t Idle Idle) (mk_world st k ?t Idle Rolling)"
    using netd_step.watchdog_fires[of "mk_world st k ?t Idle Idle"] assms
    by (simp add: mk_world_def watchdog_expired_def elapsed_def from_secs_def WATCHDOG_TIMEOUT_SECS_def)
  moreover have "?S (mk_world st k ?t Idle Rolling) (mk_world st k ?t Idle (SettingsRead ?so))"
    using netd_step.rollback_read[of "mk_world st k ?t Idle Rolling" None] by (simp add: mk_world_def)
  moreover have "?S (mk_world st k ?t Idle (SettingsRead ?so)) (mk_world st False ?t Idle RulesRemoved)"
    using netd_step.rollback_disable[of "mk_world st k ?t Idle (SettingsRead ?so)" None ?so table_backend "Ok ()" False]
    by (simp add: mk_world_def table_disable)
  ultimately show ?thesis by (meson converse_rtranclp_into_rtranclp r_into_rtranclp)
qed

text \<open>
  Claim C6.  The lock does not cover the backend call, and a rollback can overtake an enable: a
  run of the nftables backend exists after which every task is idle, the ruleset is loaded, and
  yet the daemon believes routing is off, so that neither the watchdog nor a disconnect will
  take it down.  (The watchdog removes the rules, the owner re-enables and commits, then the
  watchdog commits its rollback.)
\<close>

theorem rollback_race_leaks_rules:
  "\<exists>w. (netd_step sample_ipnet (choose_backend (Some ''netfilter'') True table_ops))\<^sup>*\<^sup>* (initial_world 0 False) w
     \<and> (\<forall>t. wd_phase w t = Idle) \<and> wd_kernel w \<and> \<not> routing_active (wd_state w)
     \<and> active_session (wd_state w) = None \<and> (\<forall>now. \<not> watchdog_expired now (wd_state w))"
proof -
  let ?S = "netd_step sample_ipnet table_backend"
  define st1 where "st1 = commit_enable (sample_config 2000) 0 ((initial_state 0)\<lparr>active_session := Some 1, last_heartbeat := 0\<rparr>)"
  then have st1: "routing_active st1" "last_heartbeat st1 = 0" "active_session st1 = Some 1"
    by (simp_all add: commit_enable_def)
  have run1: "?S\<^sup>*\<^sup>* (initial_world 0 False) (mk_world st1 True 0 Idle Idle)"
    unfolding st1_def mk_world_initial[symmetric] by (rule mk_world_enable) (simp add: initial_state_def)
  have run2: "?S\<^sup>*\<^sup>* (mk_world st1 True 0 Idle Idle) (mk_world st1 False (from_secs 6) Idle RulesRemoved)"
    using st1 by (intro mk_world_watchdog_starts)
  obtain st2 where run3: "?S\<^sup>*\<^sup>* (mk_world st1 False (from_secs 6) Idle RulesRemoved)
      (mk_world st2 True (from_secs 6) Idle RulesRemoved)"
    using mk_world_enable[of st1 False "from_secs 6" RulesRemoved] st1 by blast
  have "?S (mk_world st2 True (from_secs 6) Idle RulesRemoved)
      (mk_world (commit_rollback st2) True (from_secs 6) Idle Idle)"
    using netd_step.rollback_commit[of "mk_world st2 True (from_secs 6) Idle RulesRemoved" None]
    by (simp add: mk_world_def)
  with run1 run2 run3 have "?S\<^sup>*\<^sup>* (initial_world 0 False) (mk_world (commit_rollback st2) True (from_secs 6) Idle Idle)"
    by (meson rtranclp.rtrancl_into_rtrancl rtranclp_trans)
  then show ?thesis
    by (intro exI[of _ "mk_world (commit_rollback st2) True (from_secs 6) Idle Idle"] conjI)
       (simp_all add: mk_world_def commit_rollback_def watchdog_expired_def)
qed

theorem reachable_world_ok_witness:
  "world_ok sample_ipnet (mk_world (commit_enable (sample_config 2000) 0
     ((initial_state 0)\<lparr>active_session := Some 1, last_heartbeat := 0\<rparr>)) True 0 Idle Idle)"
proof (rule reachable_world_ok)
  show "(netd_step sample_ipnet table_backend)\<^sup>*\<^sup>* (initial_world 0 False)
     (mk_world (commit_enable (sample_config 2000) 0
       ((initial_state 0)\<lparr>active_session := Some 1, last_heartbeat := 0\<rparr>)) True 0 Idle Idle)"
    unfolding mk_world_initial[symmetric]
    by (rule mk_world_enable) (simp add: initial_state_def)
qed

text \<open>
  Peer authorisation: with the allowed user configured as a decimal number, exactly
  root and that user are served; any other peer gets no reply, no session id is spent on it and
  it changes nothing.
\<close>

theorem unauthorized_peer_changes_nothing:
  "(authorize_uid (Some (show_nat (unat allowed))) uid = Ok () \<longleftrightarrow> uid = 0 \<or> uid = allowed)
   \<and> (\<not> (uid = 0 \<or> uid = allowed) \<longrightarrow>
       handle_client io be (Some (show_nat (unat allowed))) uid frames next ap
         = (Err ''client UID is not authorized'', [], next, ap))"
proof -
  have "unat allowed \<le> 2 ^ 32 - 1" using unsigned_less[of allowed, where 'a = nat] by simp
  then have "parse_uint 10 (2 ^ 32 - 1) (show_nat (unat allowed)) = Some (unat allowed)"
    by (rule parse_uint_show_nat)
  then have "authorize_uid (Some (show_nat (unat allowed))) uid =
      (if uid = 0 \<or> uid = allowed then Ok () else Err ''client UID is not authorized'')"
    by (simp add: authorize_uid_def)
  then show ?thesis by (simp add: handle_client_def)
qed

theorem unauthorized_peer_changes_nothing_witness:
  "handle_client sample_ipnet recorder (Some (show_nat (unat (1000 :: u32)))) 1001 [] 5
     \<lparr>ap_state = initial_state 0, ap_kernel = []\<rparr>
   = (Err ''client UID is not authorized'', [], 5, \<lparr>ap_state = initial_state 0, ap_kernel = []\<rparr>)"
  using unauthorized_peer_changes_nothing[of 1000 1001 sample_ipnet recorder "[]" 5] by simp

end
