(* ===== verification/Netd_Host.thy ===== *)
theory Netd_Host
  imports Netd Rust_Utf8
begin

text \<open>
  The daemon on its host: the commands the nftables backend runs (\<open>ensure_prerequisites\<close>,
  \<open>apply_ruleset\<close> and \<open>run_ip\<close> of \<open>crates/netd/src/netfilter.rs\<close>) and the start of the daemon up to its accept
  loop (\<open>main\<close>, \<open>prepare_socket\<close>, \<open>socket_path\<close> of \<open>main.rs\<close>).  Processes and the file system are parameters: a
  command is its argument vector and what is written to its standard input.
\<close>

section \<open>Commands\<close>

record process_output =
  pr_success :: bool
  pr_stderr :: string

datatype piped = SpawnFailed | WriteFailed | WaitFailed string | Exited process_output

record 'k host =
  ho_euid :: nat
  ho_version_runs :: "string \<Rightarrow> bool"
  ho_output :: "string list \<Rightarrow> 'k \<Rightarrow> process_output option \<times> 'k"
  ho_pipe :: "string list \<Rightarrow> string \<Rightarrow> 'k \<Rightarrow> piped \<times> 'k"

definition ensure_prerequisites :: "'k host \<Rightarrow> unit res" where
  "ensure_prerequisites h =
     (if ho_euid h \<noteq> 0 then Err ''nftables backend requires root privileges''
      else case find (\<lambda>binary. \<not> ho_version_runs h binary) [''nft'', ''ip''] of
             Some binary \<Rightarrow> Err (''required binary `'' @ binary @ ''` is not available'')
           | None \<Rightarrow> Ok ())"

definition nft_command :: "string list" where
  "nft_command = [''nft'', ''-f'', ''-'']"

definition apply_ruleset :: "'k host \<Rightarrow> string \<Rightarrow> 'k \<Rightarrow> unit res \<times> 'k" where
  "apply_ruleset h ruleset k =
     (case ho_pipe h nft_command ruleset k of
        (SpawnFailed, k') \<Rightarrow> (Err ''failed to run `nft -f -`'', k')
      | (WriteFailed, k') \<Rightarrow> (Err ''failed to write ruleset to nft'', k')
      | (WaitFailed e, k') \<Rightarrow> (Err e, k')
      | (Exited out, k') \<Rightarrow>
          (if pr_success out then Ok ()
           else Err (''nft rejected the ruleset: '' @ trim (from_utf8_lossy (pr_stderr out))), k'))"

definition run_ip :: "'k host \<Rightarrow> string list \<Rightarrow> 'k \<Rightarrow> unit res \<times> 'k" where
  "run_ip h args k =
     (case ho_output h args k of
        (None, k') \<Rightarrow> (Err (''failed to run `'' @ join '' '' args @ ''`''), k')
      | (Some out, k') \<Rightarrow>
          (if pr_success out then Ok ()
           else Err (''`ip` rejected arguments `'' @ join '' '' args @ ''`: ''
             @ trim (from_utf8_lossy (pr_stderr out))), k'))"

definition host_ops :: "'k host \<Rightarrow> 'k net_ops" where
  "host_ops h = \<lparr>no_prerequisites = (\<lambda>k. ensure_prerequisites h), no_run_ip = run_ip h,
     no_apply_ruleset = apply_ruleset h\<rparr>"

section \<open>The start of the daemon\<close>

datatype fs_action = Remove string | Mkdir string | Chmod string nat | Bind string

record fs =
  fs_exists :: "string \<Rightarrow> bool"
  fs_parent :: "string \<Rightarrow> string option"
  fs_act :: "fs_action \<Rightarrow> unit res"

definition dir_mode :: nat where "dir_mode = 7 * 8 ^ 2 + 5 * 8"
definition socket_mode :: nat where "socket_mode = 6 * 8 ^ 2 + 6 * 8"

definition DEFAULT_SOCKET_PATH :: string where
  "DEFAULT_SOCKET_PATH = ''/run/myproxy/netd.sock''"

definition socket_path :: "string option \<Rightarrow> string" where
  "socket_path env = unwrap_or DEFAULT_SOCKET_PATH env"

text \<open>Actions in order, up to and with the first that fails.\<close>

fun perform :: "fs \<Rightarrow> fs_action list \<Rightarrow> unit res \<times> fs_action list" where
  "perform f [] = (Ok (), [])"
| "perform f (a # as) =
     (case fs_act f a of
        Inl e \<Rightarrow> (Err e, [a])
      | Inr u \<Rightarrow> (case perform f as of (r, did) \<Rightarrow> (r, a # did)))"

definition prepare_socket :: "fs \<Rightarrow> string \<Rightarrow> fs_action list" where
  "prepare_socket f path =
     (if fs_exists f path then [Remove path] else [])
     @ (case fs_parent f path of None \<Rightarrow> [] | Some parent \<Rightarrow> [Mkdir parent, Chmod parent dir_mode])"

text \<open>
  \<open>main\<close> up to the accept loop: the state and the backend the daemon serves with, and the actions taken.
\<close>

definition daemon_start ::
    "'k host \<Rightarrow> fs \<Rightarrow> string option \<Rightarrow> string option \<Rightarrow> instant \<Rightarrow> (daemon_state \<times> 'k backend) res \<times> fs_action list" where
  "daemon_start h f socket_env backend_env now =
     (if ho_euid h \<noteq> 0
      then (Err ''myproxy-netd must run as root or with equivalent network capabilities'', [])
      else
        let path = socket_path socket_env in
        case perform f (prepare_socket f path @ [Bind path, Chmod path socket_mode]) of
          (Inl e, did) \<Rightarrow> (Err e, did)
        | (Inr u, did) \<Rightarrow>
            (Ok (initial_state now, choose_backend backend_env (ho_euid h = 0) (host_ops h)), did))"

section \<open>Traces of commands\<close>

text \<open>A command that was run: its arguments, its input, and whether it succeeded.\<close>

type_synonym command = "string list \<times> string \<times> bool"

definition output_ok :: "process_output option \<Rightarrow> bool" where
  "output_ok r = (case r of None \<Rightarrow> False | Some out \<Rightarrow> pr_success out)"

definition piped_ok :: "piped \<Rightarrow> bool" where
  "piped_ok r = (case r of Exited out \<Rightarrow> pr_success out | _ \<Rightarrow> False)"

definition logged :: "'k host \<Rightarrow> ('k \<times> command list) host" where
  "logged h = \<lparr>ho_euid = ho_euid h, ho_version_runs = ho_version_runs h,
     ho_output = (\<lambda>args (k, tr). case ho_output h args k of (r, k') \<Rightarrow> (r, (k', tr @ [(args, [], output_ok r)]))),
     ho_pipe = (\<lambda>args inp (k, tr). case ho_pipe h args inp k of (r, k') \<Rightarrow> (r, (k', tr @ [(args, inp, piped_ok r)])))\<rparr>"

text \<open>Commands without input that all succeeded.\<close>

definition succeeded :: "string list list \<Rightarrow> command list" where
  "succeeded argss = map (\<lambda>args. (args, [], True)) argss"

lemma prerequisites_logged: "no_prerequisites (host_ops (logged h)) k = ensure_prerequisites h"
proof -
  have "ho_euid (logged h) = ho_euid h" "ho_version_runs (logged h) = ho_version_runs h" by (simp_all add: logged_def)
  then show ?thesis by (simp only: host_ops_def net_ops.simps ensure_prerequisites_def)
qed

lemma run_ip_logged:
  "run_ip (logged h) args (k, tr) = (r, k', tr') \<Longrightarrow> tr' = tr @ [(args, [], is_ok r)]"
  by (auto simp: run_ip_def logged_def output_ok_def split: prod.splits option.splits if_splits)

lemma apply_ruleset_logged:
  "apply_ruleset (logged h) rs (k, tr) = (r, k', tr') \<Longrightarrow> tr' = tr @ [(nft_command, rs, is_ok r)]"
  by (auto simp: apply_ruleset_def logged_def piped_ok_def split: prod.splits piped.splits if_splits)

lemma run_ips_logged:
  "run_ips (host_ops (logged h)) argss (k, tr) = (r, k', tr') \<Longrightarrow>
     (r = Inr () \<and> tr' = tr @ succeeded argss) \<or>
     (is_err r \<and> (\<exists>n < length argss. tr' = tr @ succeeded (take n argss) @ [(argss ! n, [], False)]))"
proof (induction argss arbitrary: k tr)
  case Nil
  then show ?case by (simp add: succeeded_def)
next
  case (Cons a as)
  obtain r1 k1 tr1 where one: "run_ip (logged h) a (k, tr) = (r1, k1, tr1)" by (metis prod_cases3)
  note tr1 = run_ip_logged[OF one]
  show ?case
  proof (cases r1)
    case (Inl e)
    with Cons.prems one tr1 show ?thesis by (intro disjI2) (auto simp: host_ops_def succeeded_def intro!: exI[of _ 0])
  next
    case (Inr u)
    with Cons.prems one have "run_ips (host_ops (logged h)) as (k1, tr1) = (r, k', tr')" by (simp add: host_ops_def)
    from Cons.IH[OF this] show ?thesis
    proof
      assume "r = Inr () \<and> tr' = tr1 @ succeeded as"
      with tr1 Inr show ?thesis by (simp add: succeeded_def)
    next
      assume "is_err r \<and> (\<exists>n < length as. tr' = tr1 @ succeeded (take n as) @ [(as ! n, [], False)])"
      then obtain n where "is_err r" "n < length as" "tr' = tr1 @ succeeded (take n as) @ [(as ! n, [], False)]" by blast
      with tr1 Inr show ?thesis by (intro disjI2 conjI exI[of _ "Suc n"]) (simp_all add: succeeded_def)
    qed
  qed
qed

lemma run_ips_all_logged:
  "\<exists>oks. length oks = length argss \<and>
     snd (run_ips_all (host_ops (logged h)) argss (k, tr)) = tr @ map2 (\<lambda>args ok. (args, [], ok)) argss oks"
proof (induction argss arbitrary: k tr)
  case (Cons a as)
  obtain r1 k1 tr1 where one: "run_ip (logged h) a (k, tr) = (r1, k1, tr1)" by (metis prod_cases3)
  obtain oks where "length oks = length as"
    "snd (run_ips_all (host_ops (logged h)) as (k1, tr1)) = tr1 @ map2 (\<lambda>args ok. (args, [], ok)) as oks" using Cons by blast
  with run_ip_logged[OF one] one show ?case by (intro exI[of _ "is_ok r1 # oks"]) (simp add: host_ops_def)
qed simp

text \<open>
  Claim C23.  Enabling the nftables backend succeeds exactly when the prerequisites hold, the four \<open>ip\<close> commands succeed in
  order and then \<open>nft\<close> accepts the rendered ruleset.  Without the prerequisites nothing is run; the first \<open>ip\<close> command
  that fails is the last one run; and a ruleset that was not loaded is followed by the four commands that take the policy
  routing back, each run whether or not the one before it succeeded.
\<close>

theorem enable_command_traces:
  assumes "nftables_enable (host_ops (logged h)) s (k, tr) = (r, k', tr')"
  shows "(is_err (ensure_prerequisites h) \<and> is_err r \<and> tr' = tr) \<or>
     (ensure_prerequisites h = Ok () \<and>
       ((is_err r \<and> (\<exists>n < 4. tr' = tr @ succeeded (take n (policy_args Add s)) @ [(policy_args Add s ! n, [], False)])) \<or>
        (is_err r \<and> (\<exists>oks. length oks = 4 \<and> tr' = tr @ succeeded (policy_args Add s) @ [(nft_command, render_ruleset s, False)]
            @ map2 (\<lambda>args ok. (args, [], ok)) (policy_args Del s) oks)) \<or>
        (r = Ok () \<and> tr' = tr @ succeeded (policy_args Add s) @ [(nft_command, render_ruleset s, True)])))"
proof (cases "ensure_prerequisites h")
  case (Inl e)
  then have "no_prerequisites (host_ops (logged h)) (k, tr) = Inl e" by (simp only: prerequisites_logged)
  with assms have "r = Inl e" "tr' = tr" by (simp_all add: nftables_enable_def)
  with Inl show ?thesis by simp
next
  case (Inr u)
  then have pre: "no_prerequisites (host_ops (logged h)) (k, tr) = Inr u"
    by (simp only: prerequisites_logged)
  obtain r1 k1 tr1 where ips: "run_ips (host_ops (logged h)) (policy_args Add s) (k, tr) = (r1, k1, tr1)"
    by (metis prod_cases3)
  have four: "length (policy_args Add s) = 4" "length (policy_args Del s) = 4" by (simp_all add: policy_args_def)
  show ?thesis
  proof (cases r1)
    case (Inl e)
    with run_ips_logged[OF ips, unfolded four] assms pre ips \<open>ensure_prerequisites h = Inr u\<close> show ?thesis
      by (auto simp: nftables_enable_def install_policy_routing_def)
  next
    case (Inr v)
    then have tr1: "tr1 = tr @ succeeded (policy_args Add s)" using run_ips_logged[OF ips] by auto
    obtain r2 k2 tr2 where nft: "apply_ruleset (logged h) (render_ruleset s) (k1, tr1) = (r2, k2, tr2)"
      by (metis prod_cases3)
    note tr2 = apply_ruleset_logged[OF nft]
    obtain oks where oks: "length oks = 4" "snd (run_ips_all (host_ops (logged h)) (policy_args Del s) (k2, tr2)) =
        tr2 @ map2 (\<lambda>args ok. (args, [], ok)) (policy_args Del s) oks"
      using run_ips_all_logged[of "policy_args Del s" h k2 tr2] four by auto
    show ?thesis
    proof (cases r2)
      case (Inl e)
      have "is_err r" "tr' = tr @ succeeded (policy_args Add s) @ [(nft_command, render_ruleset s, False)]
            @ map2 (\<lambda>args ok. (args, [], ok)) (policy_args Del s) oks"
        using assms pre ips Inr nft tr1 tr2 oks Inl
        by (auto simp: nftables_enable_def install_policy_routing_def remove_policy_routing_def host_ops_def split: prod.splits)
      with oks(1) \<open>ensure_prerequisites h = Inr u\<close> show ?thesis by auto
    next
      case r2: (Inr x)
      have "r = Ok ()" "tr' = tr @ succeeded (policy_args Add s) @ [(nft_command, render_ruleset s, True)]"
        using assms pre ips Inr nft tr1 tr2 r2
        by (auto simp: nftables_enable_def install_policy_routing_def host_ops_def split: prod.splits)
      with \<open>ensure_prerequisites h = Inr u\<close> show ?thesis by auto
    qed
  qed
qed

section \<open>Only root listens\<close>

lemma perform_all: "perform f as = (Inr u, did) \<Longrightarrow> did = as"
  by (induction as arbitrary: did) (auto split: sum.splits prod.splits)

text \<open>A daemon that serves runs as root, behind a socket whose permissions were set after binding it.\<close>

lemma daemon_start_ok:
  assumes "daemon_start h f socket_env backend_env now = (Inr (st, be), did)"
  shows "ho_euid h = 0 \<and> st = initial_state now \<and>
     did = prepare_socket f (socket_path socket_env) @ [Bind (socket_path socket_env), Chmod (socket_path socket_env) socket_mode]"
  using assms perform_all
  by (fastforce simp: daemon_start_def Let_def split: if_splits prod.splits sum.splits)

definition obliging_host :: "unit host" where
  "obliging_host = \<lparr>ho_euid = 0, ho_version_runs = (\<lambda>b. True),
     ho_output = (\<lambda>args k. (Some \<lparr>pr_success = True, pr_stderr = []\<rparr>, k)),
     ho_pipe = (\<lambda>args inp k. (Exited \<lparr>pr_success = True, pr_stderr = []\<rparr>, k))\<rparr>"

text \<open>A host on which the second command fails.\<close>

definition failing_host :: "nat host" where
  "failing_host = \<lparr>ho_euid = 0, ho_version_runs = (\<lambda>b. True),
     ho_output = (\<lambda>args k. (Some \<lparr>pr_success = (k \<noteq> 1), pr_stderr = []\<rparr>, k + 1)),
     ho_pipe = (\<lambda>args inp k. (Exited \<lparr>pr_success = True, pr_stderr = []\<rparr>, k + 1))\<rparr>"

theorem enable_command_traces_witness:
  "\<exists>s r k' tr'. nftables_enable (host_ops (logged failing_host)) s (0, []) = (r, k', tr') \<and> is_err r \<and> length tr' = 2"
proof -
  fix s :: tproxy_settings
  have "\<exists>r k' tr'. nftables_enable (host_ops (logged failing_host)) s (0, []) = (r, k', tr') \<and> length tr' = 2"
    by (simp add: nftables_enable_def host_ops_def ensure_prerequisites_def logged_def failing_host_def
        install_policy_routing_def policy_args_def run_ip_def apply_ruleset_def)
  then obtain r k' tr' where run: "nftables_enable (host_ops (logged failing_host)) s (0, []) = (r, k', tr')" "length tr' = 2" by blast
  have "length (policy_args Del s) = 4" "length (policy_args Add s) = 4" by (simp_all add: policy_args_def)
  with enable_command_traces[OF run(1)] run(2) have "is_err r" by (auto simp: succeeded_def)
  with run show ?thesis by blast
qed

end
