(* ===== verification/Socket_Health.thy ===== *)
theory Socket_Health
  imports Net_Addr
begin

text \<open>
  Kernel telemetry, \<open>crates/probe/src/socket_health.rs\<close>: the \<open>sock_diag\<close> request, the decoding of
  netlink replies, and the health grade of a connection.  The memory layout of \<open>libc::tcp_info\<close>
  is not part of the repository: a function from the attribute bytes stands for reading it.  The
  machine is little-endian; a \<open>u32\<close> multiplication wraps, as in a release build.
\<close>

unbundle bit_operations_syntax

section \<open>Samples and grades\<close>

record tcp_stats =
  ts_rtt_ms :: u32
  ts_rtt_var_ms :: u32
  ts_retransmits :: u32
  ts_total_retrans :: u32
  ts_unacked :: u32

record health_thresholds =
  ht_rtt_degrade_ms :: u32
  ht_retransmit_spike :: u32
  ht_retransmit_total :: u32
  ht_unacked_backlog :: u32

definition HealthThresholds_default :: health_thresholds where
  "HealthThresholds_default = \<lparr>ht_rtt_degrade_ms = 1200, ht_retransmit_spike = 5,
     ht_retransmit_total = 12, ht_unacked_backlog = 64\<rparr>"

definition health_grade :: "tcp_stats \<Rightarrow> health_thresholds \<Rightarrow> nat" where
  "health_grade s t =
     (let score = (100 :: int);
          score = (if ht_rtt_degrade_ms t \<le> ts_rtt_ms s
                   then (let excess = min (ts_rtt_ms s - ht_rtt_degrade_ms t) 3000
                         in score - uint (min (excess div 100) 40)) else score);
          score = (if ht_retransmit_spike t \<le> ts_retransmits s then score - 30 else score);
          score = (if ht_retransmit_total t \<le> ts_total_retrans s
                   then score - uint (min (saturating_sub (ts_total_retrans s) (ht_retransmit_total t) * 5) 30)
                   else score);
          score = (if ht_unacked_backlog t \<le> ts_unacked s then score - 20 else score)
      in nat (max 0 (min 100 score)))"

text \<open>The fields of \<open>libc::tcp_info\<close> that are read.\<close>

record tcp_info =
  tcpi_rtt :: u32
  tcpi_rttvar :: u32
  tcpi_retransmits :: u8
  tcpi_total_retrans :: u32
  tcpi_unacked :: u32

definition parse_tcp_info :: "tcp_info \<Rightarrow> tcp_stats" where
  "parse_tcp_info info = \<lparr>ts_rtt_ms = tcpi_rtt info div 1000, ts_rtt_var_ms = tcpi_rttvar info div 1000,
     ts_retransmits = ucast (tcpi_retransmits info), ts_total_retrans = tcpi_total_retrans info,
     ts_unacked = tcpi_unacked info\<rparr>"

section \<open>The request\<close>

record inet_diag_sockid =
  sk_port :: "u16 \<times> u16"
  sk_src :: "u32 list"
  sk_dst :: "u32 list"
  sk_iface :: u32
  sk_cookie :: "u32 list"

record inet_diag_req_v2 =
  dr_family :: u8
  dr_protocol :: u8
  dr_ext :: u8
  dr_pad :: u8
  dr_states :: u32
  dr_id :: inet_diag_sockid

definition INET_DIAG_INFO :: nat where "INET_DIAG_INFO = 2"
definition TCP_ESTABLISHED :: nat where "TCP_ESTABLISHED = 1"
definition NLMSG_ALIGNTO :: nat where "NLMSG_ALIGNTO = 4"

text \<open>\<open>to_be\<close> on a little-endian machine, and a \<open>u32\<close> whose bytes in memory are given.\<close>

definition to_be16 :: "u16 \<Rightarrow> u16" where
  "to_be16 p = word_of_nat (unat p mod 256 * 256 + unat p div 256)"

definition le_bytes :: "nat list \<Rightarrow> nat" where
  "le_bytes bs = foldr (\<lambda>b acc. b + 256 * acc) bs 0"

definition octets_v6 :: "ipv6 \<Rightarrow> nat list" where
  "octets_v6 a = concat (map (\<lambda>s. [s div 256, s mod 256]) (segments_v6 a))"

definition build_request :: "u8 \<Rightarrow> socket_addr \<Rightarrow> inet_diag_req_v2" where
  "build_request family peer =
     \<lparr>dr_family = family, dr_protocol = 6, dr_ext = push_bit (INET_DIAG_INFO - 1) 1, dr_pad = 0,
      dr_states = push_bit TCP_ESTABLISHED 1,
      dr_id = \<lparr>sk_port = (0, to_be16 (sa_port peer)), sk_src = [0, 0, 0, 0],
        sk_dst = (case sa_ip peer of
            V4 a \<Rightarrow> [0, 0, 0, word_of_nat (le_bytes (octets_v4 a))]
          | V6 a \<Rightarrow> map (\<lambda>i. word_of_nat (le_bytes (take 4 (drop (4 * i) (octets_v6 a))))) [0, 1, 2, 3]),
        sk_iface = 0, sk_cookie = [0, 0]\<rparr>\<rparr>"

section \<open>Replies\<close>

definition nlmsg_align :: "nat \<Rightarrow> nat" where
  "nlmsg_align len = (len + NLMSG_ALIGNTO - 1) div NLMSG_ALIGNTO * NLMSG_ALIGNTO"

definition header_len :: nat where "header_len = 16"
definition inet_diag_msg_size :: nat where "inet_diag_msg_size = 72"
definition nlmsgerr_size :: nat where "nlmsgerr_size = 20"

definition slice :: "nat \<Rightarrow> nat \<Rightarrow> 'a list \<Rightarrow> 'a list" where
  "slice a b xs = take (b - a) (drop a xs)"

definition read_le :: "nat \<Rightarrow> nat \<Rightarrow> bytes \<Rightarrow> nat" where
  "read_le off n bs = le_bytes (map unat (slice off (off + n) bs))"

text \<open>
  The attribute loop of \<open>collect_message\<close>.  It is driven by the attribute lengths the message
  carries, so its recursion takes fuel; \<open>None\<close> is a loop that has not ended.
\<close>

fun attr_loop :: "(bytes \<Rightarrow> tcp_info) \<Rightarrow> bytes \<Rightarrow> nat \<Rightarrow> nat \<Rightarrow> tcp_stats list option" where
  "attr_loop dec payload 0 offset = None"
| "attr_loop dec payload (Suc fuel) offset =
     (if \<not> offset + 4 \<le> length payload then Some []
      else let attr_len = read_le offset 2 payload;
               attr_type = read_le (offset + 2) 2 payload;
               data_offset = offset + 4
           in if length payload < data_offset + (attr_len - 4) then Some []
              else if attr_type = INET_DIAG_INFO
              then Some [parse_tcp_info (dec (slice data_offset (min (data_offset + (attr_len - 4)) (length payload)) payload))]
              else attr_loop dec payload fuel (offset + nlmsg_align attr_len))"

definition collect_message :: "nat \<Rightarrow> (bytes \<Rightarrow> tcp_info) \<Rightarrow> bytes \<Rightarrow> tcp_stats list option" where
  "collect_message fuel dec payload =
     (if length payload < inet_diag_msg_size then Some []
      else if unat (payload ! 1) \<noteq> TCP_ESTABLISHED then Some []
      else attr_loop dec payload fuel (nlmsg_align inet_diag_msg_size))"

text \<open>One received datagram: the statistics so far and whether the dump is finished.\<close>

datatype dgram_result = Continue "tcp_stats list" | Finished "tcp_stats list" | OsError nat

fun dgram_loop :: "nat \<Rightarrow> (bytes \<Rightarrow> tcp_info) \<Rightarrow> bytes \<Rightarrow> nat \<Rightarrow> nat \<Rightarrow> tcp_stats list \<Rightarrow> dgram_result option" where
  "dgram_loop afuel dec buf 0 offset stats = None"
| "dgram_loop afuel dec buf (Suc fuel) offset stats =
     (if \<not> offset + header_len \<le> length buf then Some (Continue stats)
      else let message_length = read_le offset 4 buf;
               msg_type = read_le (offset + 4) 2 buf
           in if message_length < header_len \<or> length buf < offset + message_length then Some (Continue stats)
              else let payload = slice (offset + header_len) (offset + message_length) buf;
                       next = offset + nlmsg_align message_length
                   in if msg_type = 2
                      then (if nlmsgerr_size \<le> length payload \<and> read_le 0 4 payload \<noteq> 0
                            then Some (OsError (unat (- (word_of_nat (read_le 0 4 payload) :: u32))))
                            else dgram_loop afuel dec buf fuel next stats)
                      else if msg_type = 3 then Some (Finished stats)
                      else if msg_type = 20
                      then (case collect_message afuel dec payload of None \<Rightarrow> None
                            | Some new \<Rightarrow> dgram_loop afuel dec buf fuel next (stats @ new))
                      else dgram_loop afuel dec buf fuel next stats)"

datatype recv_result = Datagram bytes | WouldBlock | RecvError nat

text \<open>\<open>read_replies\<close> over what \<open>recv\<close> returns; the end of the list is the end of the stream.\<close>

fun read_replies :: "nat \<Rightarrow> (bytes \<Rightarrow> tcp_info) \<Rightarrow> recv_result list \<Rightarrow> tcp_stats list \<Rightarrow> (nat + tcp_stats list) option" where
  "read_replies afuel dec [] stats = Some (Ok stats)"
| "read_replies afuel dec (WouldBlock # rs) stats = Some (Ok stats)"
| "read_replies afuel dec (RecvError e # rs) stats = Some (Err e)"
| "read_replies afuel dec (Datagram buf # rs) stats =
     (if buf = [] then Some (Ok stats)
      else case dgram_loop afuel dec buf (Suc (length buf)) 0 stats of
             None \<Rightarrow> None
           | Some (Continue stats') \<Rightarrow> read_replies afuel dec rs stats'
           | Some (Finished stats') \<Rightarrow> Some (Ok stats')
           | Some (OsError e) \<Rightarrow> Some (Err e))"

section \<open>Lemmas\<close>

lemma nlmsg_align_ge: "len \<le> nlmsg_align len"
  by (simp add: nlmsg_align_def NLMSG_ALIGNTO_def)

lemma nlmsg_align_dvd: "4 dvd nlmsg_align len"
  by (simp add: nlmsg_align_def NLMSG_ALIGNTO_def)

text \<open>
  The positions at which the loop looks at an attribute: it goes on from one that is within the message, fits and is not the
  telemetry.
\<close>

inductive visits :: "bytes \<Rightarrow> nat \<Rightarrow> nat \<Rightarrow> bool" for payload where
  visits_here: "visits payload off off"
| visits_on: "off + 4 \<le> length payload \<Longrightarrow> off + 4 + (read_le off 2 payload - 4) \<le> length payload \<Longrightarrow>
    read_le (off + 2) 2 payload \<noteq> INET_DIAG_INFO \<Longrightarrow> visits payload (off + nlmsg_align (read_le off 2 payload)) off' \<Longrightarrow>
    visits payload off off'"

definition empty_attr :: "bytes \<Rightarrow> nat \<Rightarrow> bool" where
  "empty_attr payload off \<longleftrightarrow> off + 4 \<le> length payload \<and> read_le off 2 payload = 0 \<and> read_le (off + 2) 2 payload \<noteq> INET_DIAG_INFO"

definition meets_empty_attr :: "bytes \<Rightarrow> bool" where
  "meets_empty_attr payload \<longleftrightarrow> inet_diag_msg_size \<le> length payload \<and> unat (payload ! 1) = TCP_ESTABLISHED \<and>
     (\<exists>off. visits payload (nlmsg_align inet_diag_msg_size) off \<and> empty_attr payload off)"

lemma attr_loop_ends:
  "\<lbrakk>length payload - offset < fuel; \<nexists>off. visits payload offset off \<and> empty_attr payload off\<rbrakk>
   \<Longrightarrow> \<exists>r. attr_loop dec payload fuel offset = Some r"
proof (induction dec payload fuel offset rule: attr_loop.induct)
  case (2 dec payload fuel offset)
  let ?len = "read_le offset 2 payload"
  show ?case
  proof (cases "offset + 4 \<le> length payload \<and> \<not> length payload < offset + 4 + (?len - 4)
      \<and> read_le (offset + 2) 2 payload \<noteq> INET_DIAG_INFO")
    case True
    then have "?len \<noteq> 0" using "2.prems"(2) visits_here[of payload offset] by (auto simp: empty_attr_def)
    then have "0 < nlmsg_align ?len" using nlmsg_align_ge[of ?len] by linarith
    then have "length payload - (offset + nlmsg_align ?len) < fuel" using "2.prems"(1) True by linarith
    moreover have "\<nexists>off. visits payload (offset + nlmsg_align ?len) off \<and> empty_attr payload off"
      using "2.prems"(2) True visits_on[of offset payload] by (metis not_less)
    ultimately have "\<exists>r. attr_loop dec payload fuel (offset + nlmsg_align ?len) = Some r"
      using True by (intro "2.IH"[OF _ refl refl refl]) auto
    with True show ?thesis by (simp add: Let_def)
  next
    case False
    then show ?thesis by (auto simp: Let_def)
  qed
qed simp

lemma attr_loop_zero: "empty_attr payload offset \<Longrightarrow> attr_loop dec payload fuel offset = None"
  unfolding empty_attr_def by (induction fuel) (simp_all add: Let_def nlmsg_align_def NLMSG_ALIGNTO_def)

lemma attr_loop_stuck:
  "visits payload offset off \<Longrightarrow> empty_attr payload off \<Longrightarrow> attr_loop dec payload fuel offset = None"
proof (induction arbitrary: fuel rule: visits.induct)
  case (visits_on off off')
  then show ?case by (cases fuel) (simp_all add: Let_def not_less)
qed (rule attr_loop_zero)

lemma attr_loop_short: "attr_loop dec payload fuel offset = Some r \<Longrightarrow> length r \<le> 1"
  by (induction dec payload fuel offset rule: attr_loop.induct) (auto simp: Let_def split: if_splits)

text \<open>What the telemetry of the grade may do: a sample that is no better in any field.\<close>

definition no_better :: "tcp_stats \<Rightarrow> tcp_stats \<Rightarrow> bool" where
  "no_better s s' \<longleftrightarrow> ts_rtt_ms s \<le> ts_rtt_ms s' \<and> ts_retransmits s \<le> ts_retransmits s'
     \<and> ts_total_retrans s \<le> ts_total_retrans s' \<and> ts_unacked s \<le> ts_unacked s'"

definition rtt_penalty :: "nat \<Rightarrow> nat \<Rightarrow> int" where
  "rtt_penalty t r = (if t \<le> r then int (min (min (r - t) 3000 div 100) 40) else 0)"

definition retrans_penalty :: "nat \<Rightarrow> nat \<Rightarrow> int" where
  "retrans_penalty t r = (if t \<le> r then int (min ((r - t) * 5) 30) else 0)"

lemma int_unat: "int (unat w) = uint w"
  by simp

lemma unat_min: "unat (min (a :: 'a::len word) b) = min (unat a) (unat b)"
  by (auto simp: min_def word_le_nat_alt)

lemma health_grade_penalties:
  assumes "unat (ts_total_retrans s) \<le> 858993459"
  shows "health_grade s t = nat (max 0 (min 100 (100
      - rtt_penalty (unat (ht_rtt_degrade_ms t)) (unat (ts_rtt_ms s))
      - (if ht_retransmit_spike t \<le> ts_retransmits s then 30 else 0)
      - retrans_penalty (unat (ht_retransmit_total t)) (unat (ts_total_retrans s))
      - (if ht_unacked_backlog t \<le> ts_unacked s then 20 else 0))))"
proof -
  have rtt: "ht_rtt_degrade_ms t \<le> ts_rtt_ms s \<Longrightarrow>
      uint (min (min (ts_rtt_ms s - ht_rtt_degrade_ms t) 3000 div 100) 40)
        = rtt_penalty (unat (ht_rtt_degrade_ms t)) (unat (ts_rtt_ms s))"
    unfolding int_unat[symmetric]
    by (simp add: rtt_penalty_def unat_min unat_div word_le_nat_alt unat_sub)
  have "unat (saturating_sub (ts_total_retrans s) (ht_retransmit_total t) * 5)
      = (unat (ts_total_retrans s) - unat (ht_retransmit_total t)) * 5"
    using assms by (simp add: unat_word_ariths unat_saturating_sub)
  then have ret: "ht_retransmit_total t \<le> ts_total_retrans s \<Longrightarrow>
      uint (min (saturating_sub (ts_total_retrans s) (ht_retransmit_total t) * 5) 30)
        = retrans_penalty (unat (ht_retransmit_total t)) (unat (ts_total_retrans s))"
    unfolding int_unat[symmetric] by (simp add: retrans_penalty_def unat_min word_le_nat_alt)
  have rtt': "(if ht_rtt_degrade_ms t \<le> ts_rtt_ms s
      then x - uint (min (min (ts_rtt_ms s - ht_rtt_degrade_ms t) 3000 div 100) 40) else x)
      = x - rtt_penalty (unat (ht_rtt_degrade_ms t)) (unat (ts_rtt_ms s))" for x
    by (cases "ht_rtt_degrade_ms t \<le> ts_rtt_ms s") (simp_all add: rtt, simp add: rtt_penalty_def word_le_nat_alt)
  have ret': "(if ht_retransmit_total t \<le> ts_total_retrans s
      then x - uint (min (saturating_sub (ts_total_retrans s) (ht_retransmit_total t) * 5) 30) else x)
      = x - retrans_penalty (unat (ht_retransmit_total t)) (unat (ts_total_retrans s))" for x
    by (cases "ht_retransmit_total t \<le> ts_total_retrans s") (simp_all add: ret, simp add: retrans_penalty_def word_le_nat_alt)
  have pull: "(if b then x - y else x) = x - (if b then y else 0)" for b and x y :: int by simp
  show ?thesis unfolding health_grade_def Let_def rtt' ret' pull[of _ _ 30] pull[of _ _ 20] ..
qed

lemma rtt_penalty_mono: "r \<le> r' \<Longrightarrow> rtt_penalty t r \<le> rtt_penalty t r'"
  unfolding rtt_penalty_def by (auto intro!: min.mono div_le_mono)

lemma retrans_penalty_mono: "r \<le> r' \<Longrightarrow> retrans_penalty t r \<le> retrans_penalty t r'"
  by (auto simp: retrans_penalty_def)

lemma penalties_antitone:
  fixes p p' q q' :: int
  assumes "p \<le> p'" "q \<le> q'" "a \<Longrightarrow> a'" "b \<Longrightarrow> b'"
  shows "nat (max 0 (min 100 (100 - p' - (if a' then 30 else 0) - q' - (if b' then 20 else 0))))
     \<le> nat (max 0 (min 100 (100 - p - (if a then 30 else 0) - q - (if b then 20 else 0))))"
proof -
  have "(if a then 30 else 0) \<le> (if a' then 30 else 0 :: int)" "(if b then 20 else 0) \<le> (if b' then 20 else 0 :: int)"
    using assms(3,4) by simp_all
  with assms(1,2) have "100 - p' - (if a' then 30 else 0) - q' - (if b' then 20 else 0)
      \<le> 100 - p - (if a then 30 else 0) - q - (if b then 20 else 0)" by linarith
  then show ?thesis by (intro nat_mono max.mono min.mono order_refl)
qed

section \<open>Properties\<close>

text \<open>
  The grade is at most 100, and a sample that is worse in round-trip time,
  retransmissions or backlog and better in none never gets a better grade, as long as the total
  of retransmissions stays below the point where the multiplication by five leaves 32 bits.
\<close>

theorem health_grade_antitone:
  assumes "no_better s s'" and "unat (ts_total_retrans s') \<le> 858993459"
  shows "health_grade s' t \<le> health_grade s t \<and> health_grade s t \<le> 100"
proof -
  have small: "unat (ts_total_retrans s) \<le> 858993459"
    using assms by (simp add: no_better_def word_le_nat_alt)
  have "rtt_penalty (unat (ht_rtt_degrade_ms t)) (unat (ts_rtt_ms s))
      \<le> rtt_penalty (unat (ht_rtt_degrade_ms t)) (unat (ts_rtt_ms s'))"
    using assms by (intro rtt_penalty_mono) (simp add: no_better_def word_le_nat_alt)
  moreover have "retrans_penalty (unat (ht_retransmit_total t)) (unat (ts_total_retrans s))
      \<le> retrans_penalty (unat (ht_retransmit_total t)) (unat (ts_total_retrans s'))"
    using assms by (intro retrans_penalty_mono) (simp add: no_better_def word_le_nat_alt)
  moreover have "ht_retransmit_spike t \<le> ts_retransmits s \<Longrightarrow> ht_retransmit_spike t \<le> ts_retransmits s'"
    "ht_unacked_backlog t \<le> ts_unacked s \<Longrightarrow> ht_unacked_backlog t \<le> ts_unacked s'"
    using assms(1) by (auto simp: no_better_def intro: order_trans)
  ultimately have "health_grade s' t \<le> health_grade s t"
    unfolding health_grade_penalties[OF assms(2)] health_grade_penalties[OF small] by (intro penalties_antitone)
  moreover have "health_grade s t \<le> 100" unfolding health_grade_penalties[OF small] by simp
  ultimately show ?thesis ..
qed

definition sample_stats :: "u32 \<Rightarrow> u32 \<Rightarrow> tcp_stats" where
  "sample_stats rtt tot = \<lparr>ts_rtt_ms = rtt, ts_rtt_var_ms = 5, ts_retransmits = 0,
     ts_total_retrans = tot, ts_unacked = 0\<rparr>"

theorem health_grade_antitone_witness:
  "health_grade (sample_stats 1500 14) HealthThresholds_default \<le> health_grade (sample_stats 40 0) HealthThresholds_default
   \<and> health_grade (sample_stats 40 0) HealthThresholds_default \<le> 100"
  by (rule health_grade_antitone) (simp_all add: no_better_def sample_stats_def)

text \<open>
  Claim C15.  The attribute loop of \<open>collect_message\<close> runs for ever exactly on the messages in which it comes to an
  attribute that claims the length zero and is not the telemetry itself, wherever in the message that is; on every other message,
  whatever bytes its attributes hold, it ends within as many rounds as the message has bytes, with one sample at most.
\<close>

theorem collect_message_ends_iff_no_empty_attr:
  "((\<forall>fuel. collect_message fuel dec payload = None) \<longleftrightarrow> meets_empty_attr payload) \<and>
   ((\<exists>r. collect_message (Suc (length payload)) dec payload = Some r \<and> length r \<le> 1) \<longleftrightarrow> \<not> meets_empty_attr payload)"
proof (cases "meets_empty_attr payload")
  case True
  then have "collect_message fuel dec payload = None" for fuel
    using attr_loop_stuck by (auto simp: meets_empty_attr_def collect_message_def)
  with True show ?thesis by simp
next
  case False
  have "\<exists>r. collect_message (Suc (length payload)) dec payload = Some r \<and> length r \<le> 1"
  proof (cases "inet_diag_msg_size \<le> length payload \<and> unat (payload ! 1) = TCP_ESTABLISHED")
    case True
    with False have "\<nexists>off. visits payload (nlmsg_align inet_diag_msg_size) off \<and> empty_attr payload off"
      by (auto simp: meets_empty_attr_def)
    then have "\<exists>r. attr_loop dec payload (Suc (length payload)) (nlmsg_align inet_diag_msg_size) = Some r"
      by (intro attr_loop_ends) auto
    with True show ?thesis using attr_loop_short by (auto simp: collect_message_def simp del: attr_loop.simps)
  qed (auto simp: collect_message_def)
  with False show ?thesis by (metis option.distinct(1))
qed

text \<open>
  A reply with an empty attribute after another one, and a reply whose attribute holds nothing but zero bytes.
\<close>

definition empty_attr_payload :: bytes where
  "empty_attr_payload = [2, 1] @ replicate 70 0 @ [8, 0, 1, 0, 7, 7, 7, 7] @ [0, 0, 1, 0]"

definition zero_data_payload :: bytes where
  "zero_data_payload = [2, 1] @ replicate 70 0 @ [8, 0, 1, 0, 0, 0, 0, 0]"

definition zero_info :: "bytes \<Rightarrow> tcp_info" where
  "zero_info bs = \<lparr>tcpi_rtt = 0, tcpi_rttvar = 0, tcpi_retransmits = 0, tcpi_total_retrans = 0, tcpi_unacked = 0\<rparr>"

lemma payload_reads:
  "length empty_attr_payload = 84" "unat (empty_attr_payload ! 1) = TCP_ESTABLISHED"
  "read_le 72 2 empty_attr_payload = 8" "read_le 74 2 empty_attr_payload = 1"
  "read_le 80 2 empty_attr_payload = 0" "read_le 82 2 empty_attr_payload = 1"
  "length zero_data_payload = 80" "read_le 72 2 zero_data_payload = 8"
  by code_simp+

lemma align_reads: "nlmsg_align 8 = 8" "nlmsg_align inet_diag_msg_size = 72" "inet_diag_msg_size = 72" "nlmsg_align 72 = 72"
  by code_simp+

theorem collect_message_ends_iff_no_empty_attr_witness:
  "(\<forall>fuel. collect_message fuel zero_info empty_attr_payload = None)
   \<and> (\<exists>r. collect_message (Suc (length zero_data_payload)) zero_info zero_data_payload = Some r \<and> length r \<le> 1)"
proof -
  have "visits empty_attr_payload 72 80"
    by (rule visits_on) (simp_all add: payload_reads align_reads INET_DIAG_INFO_def visits_here)
  moreover have "empty_attr empty_attr_payload 80" by (simp add: empty_attr_def payload_reads INET_DIAG_INFO_def)
  ultimately have "meets_empty_attr empty_attr_payload"
    unfolding meets_empty_attr_def align_reads(2) using payload_reads(1,2) align_reads(3) by auto
  moreover have "off = 72 \<or> off = 80" if "visits zero_data_payload 72 off" for off
    using that
  proof (cases rule: visits.cases)
    case visits_on
    then have "visits zero_data_payload 80 off" by (simp add: payload_reads align_reads)
    then show ?thesis by (cases rule: visits.cases) (simp_all add: payload_reads)
  qed simp
  then have "\<not> empty_attr zero_data_payload off" if "visits zero_data_payload 72 off" for off
    using that by (fastforce simp: empty_attr_def payload_reads)
  then have "\<not> meets_empty_attr zero_data_payload" by (auto simp: meets_empty_attr_def align_reads)
  ultimately show ?thesis
    using collect_message_ends_iff_no_empty_attr[of zero_info empty_attr_payload]
      collect_message_ends_iff_no_empty_attr[of zero_info zero_data_payload] by blast
qed

end
