(* ===== verification/Sock_Diag.thy ===== *)
theory Sock_Diag
  imports Socket_Health
begin

text \<open>
  The \<open>sock_diag\<close> exchange as a whole (\<open>crates/probe/src/socket_health.rs\<close>): the bytes of a request,
  its sequence number, the socket calls around it and the ways they fail; with it the two functions that
  read a descriptor instead.  The system calls are parameters: each is its result, an error number on the left.
\<close>

unbundle bit_operations_syntax

section \<open>The request on the wire\<close>

definition SOCK_DIAG_BY_FAMILY :: u16 where "SOCK_DIAG_BY_FAMILY = 20"
definition NLM_F_REQUEST :: u16 where "NLM_F_REQUEST = 0x1"
definition NLM_F_DUMP :: u16 where "NLM_F_DUMP = 0x300"

record nlmsghdr =
  nh_len :: u32
  nh_type :: u16
  nh_flags :: u16
  nh_seq :: u32
  nh_pid :: u32

text \<open>Integers in memory order on a little-endian machine.\<close>

definition put16 :: "u16 \<Rightarrow> bytes" where
  "put16 w = [ucast w, ucast (drop_bit 8 w)]"

definition put32 :: "u32 \<Rightarrow> bytes" where
  "put32 w = [ucast w, ucast (drop_bit 8 w), ucast (drop_bit 16 w), ucast (drop_bit 24 w)]"

definition header_bytes :: "nlmsghdr \<Rightarrow> bytes" where
  "header_bytes h = put32 (nh_len h) @ put16 (nh_type h) @ put16 (nh_flags h) @ put32 (nh_seq h) @ put32 (nh_pid h)"

definition sockid_bytes :: "inet_diag_sockid \<Rightarrow> bytes" where
  "sockid_bytes s = put16 (fst (sk_port s)) @ put16 (snd (sk_port s)) @ concat (map put32 (sk_src s))
     @ concat (map put32 (sk_dst s)) @ put32 (sk_iface s) @ concat (map put32 (sk_cookie s))"

definition request_bytes :: "inet_diag_req_v2 \<Rightarrow> bytes" where
  "request_bytes r = [dr_family r, dr_protocol r, dr_ext r, dr_pad r] @ put32 (dr_states r) @ sockid_bytes (dr_id r)"

definition request_size :: nat where "request_size = 56"

definition request_header :: "u32 \<Rightarrow> nlmsghdr" where
  "request_header sequence = \<lparr>nh_len = word_of_nat (nlmsg_align (header_len + request_size)),
     nh_type = SOCK_DIAG_BY_FAMILY, nh_flags = NLM_F_REQUEST OR NLM_F_DUMP, nh_seq = sequence, nh_pid = 0\<rparr>"

text \<open>The buffer of \<open>send_request\<close>: zeros, the header over its start, the request behind the header.\<close>

definition send_buffer :: "nlmsghdr \<Rightarrow> inet_diag_req_v2 \<Rightarrow> bytes" where
  "send_buffer h r =
     (let total_len = max (unat (nh_len h)) (header_len + request_size)
      in header_bytes h @ request_bytes r @ replicate (total_len - header_len - request_size) 0)"

section \<open>The exchange\<close>

record netlink =
  nl_socket :: "nat + int"
  nl_bind :: "nat + unit"
  nl_send :: "bytes \<Rightarrow> nat + nat"
  nl_recv :: "recv_result list"

definition address_family :: "socket_addr \<Rightarrow> u8" where
  "address_family peer = (case sa_ip peer of V4 a \<Rightarrow> 2 | V6 a \<Rightarrow> 10)"

text \<open>The result, and the next sequence number; the counter advances before the socket is opened.\<close>

definition tcp_info_for_peer ::
    "nat \<Rightarrow> (bytes \<Rightarrow> tcp_info) \<Rightarrow> netlink \<Rightarrow> u32 \<Rightarrow> socket_addr \<Rightarrow> (nat + tcp_stats list) option \<times> u32" where
  "tcp_info_for_peer afuel dec nl sequence peer =
     (let request = build_request (address_family peer) peer; h = request_header sequence in
      (case nl_socket nl of
         Inl e \<Rightarrow> Some (Err e)
       | Inr fd \<Rightarrow>
           (case nl_bind nl of
              Inl e \<Rightarrow> Some (Err e)
            | Inr u \<Rightarrow>
                (case nl_send nl (send_buffer h request) of
                   Inl e \<Rightarrow> Some (Err e)
                 | Inr sent \<Rightarrow> read_replies afuel dec (nl_recv nl) [])), sequence + 1))"

definition inspect_socket_health :: "(int \<Rightarrow> nat + tcp_info) \<Rightarrow> int \<Rightarrow> nat + tcp_stats" where
  "inspect_socket_health getsockopt fd = try_then (getsockopt fd) (\<lambda>info. Ok (parse_tcp_info info))"

text \<open>Duplicating a child's descriptor: the error of the second call is kept over the closing of the pidfd.\<close>

definition dup_child_fd :: "(int \<Rightarrow> nat + int) \<Rightarrow> (int \<Rightarrow> int \<Rightarrow> nat + int) \<Rightarrow> int \<Rightarrow> int \<Rightarrow> nat + int" where
  "dup_child_fd pidfd_open pidfd_getfd child_pid target_fd =
     try_then (pidfd_open child_pid) (\<lambda>pidfd. pidfd_getfd pidfd target_fd)"

section \<open>What the kernel reads\<close>

lemma put_length [simp]: "length (put16 w) = 2" "length (put32 v) = 4"
  by (simp_all add: put16_def put32_def)

lemma concat_put32_length: "length (concat (map put32 ws)) = 4 * length ws"
  by (induction ws) simp_all

lemma header_bytes_length: "length (header_bytes h) = header_len"
  by (simp add: header_bytes_def header_len_def)

lemma request_bytes_length: "length (request_bytes (build_request family peer)) = request_size"
  by (simp add: request_bytes_def sockid_bytes_def concat_put32_length build_request_def request_size_def
      split: ip_addr.splits)

lemma send_buffer_layout:
  "send_buffer (request_header sequence) (build_request family peer)
     = header_bytes (request_header sequence) @ request_bytes (build_request family peer)"
  by (simp add: send_buffer_def request_header_def nlmsg_align_def NLMSG_ALIGNTO_def header_len_def
      request_size_def Let_def)

lemma unat_low_byte: "unat (ucast w :: u8) = unat w mod 256" for w :: "'a::len word"
  by (simp add: unsigned_ucast_eq take_bit_eq_mod)

lemma unat_byte: "unat (ucast (drop_bit n w) :: u8) = unat w div 2 ^ n mod 256" for w :: "'a::len word"
proof -
  have "unat (drop_bit n w) = drop_bit n (unat w)"
    by (simp only: unsigned_drop_bit_eq take_bit_of_nat unsigned_take_bit_eq flip: ) (simp add: take_bit_nat_eq_self)
  then show ?thesis by (simp add: unat_low_byte drop_bit_eq_div)
qed

lemma unat_word_u16: "n < 65536 \<Longrightarrow> unat (word_of_nat n :: u16) = n"
  by (simp add: unat_of_nat take_bit_nat_eq_self)

lemma unat_word_u32: "n < 4294967296 \<Longrightarrow> unat (word_of_nat n :: u32) = n"
  by (simp add: unat_of_nat take_bit_nat_eq_self)

lemma split16: "n < 65536 \<Longrightarrow> n mod 256 + 256 * (n div 2 ^ 8 mod 256) = (n :: nat)"
  by simp

lemma split32:
  assumes "n < (4294967296 :: nat)"
  shows "n mod 256 + 256 * (n div 2 ^ 8 mod 256 + 256 * (n div 2 ^ 16 mod 256 + 256 * (n div 2 ^ 24 mod 256))) = n"
proof -
  have "n div 2 ^ 16 = n div 2 ^ 8 div 256" "n div 2 ^ 24 = n div 2 ^ 8 div 256 div 256" by (simp_all add: div_mult2_eq[symmetric])
  moreover have "n div 2 ^ 8 div 256 div 256 < 256" using assms by (simp add: div_mult2_eq[symmetric] less_mult_imp_div_less)
  ultimately show ?thesis by simp
qed

lemma put16_values: "map unat (put16 w) = [unat w mod 256, unat w div 2 ^ 8 mod 256]"
  unfolding put16_def list.map unat_byte unfolding unat_low_byte by (rule refl)

lemma put32_values:
  "map unat (put32 w) = [unat w mod 256, unat w div 2 ^ 8 mod 256, unat w div 2 ^ 16 mod 256, unat w div 2 ^ 24 mod 256]"
  unfolding put32_def list.map unat_byte unfolding unat_low_byte by (rule refl)

lemma le_bytes_four: "le_bytes [a, b, c, d] = a + 256 * (b + 256 * (c + 256 * d))"
  by (simp add: le_bytes_def)

lemma le_bytes_put16: "le_bytes (map unat (put16 w)) = unat w"
proof -
  have "unat w < 65536" using unsigned_less[of w, where ?'a = nat] by simp
  from split16[OF this] show ?thesis unfolding put16_values le_bytes_def by simp
qed

lemma le_bytes_put32: "le_bytes (map unat (put32 w)) = unat w"
proof -
  have "unat w < 4294967296" using unsigned_less[of w, where ?'a = nat] by simp
  from split32[OF this] show ?thesis unfolding put32_values le_bytes_four .
qed

lemma put32_le_bytes:
  assumes "a < 256" "b < 256" "c < 256" "d < 256"
  shows "map unat (put32 (word_of_nat (le_bytes [a, b, c, d]))) = [a, b, c, d]"
proof -
  have "unat (word_of_nat (le_bytes [a, b, c, d]) :: u32) = a + 256 * (b + 256 * (c + 256 * d))"
    using unat_word_u32[of "le_bytes [a, b, c, d]"] assms by (simp add: le_bytes_four)
  moreover have "(a + 256 * (b + 256 * (c + 256 * d))) div 2 ^ 8 = b + 256 * (c + 256 * d)"
    "(a + 256 * (b + 256 * (c + 256 * d))) div 2 ^ 16 = c + 256 * d"
    "(a + 256 * (b + 256 * (c + 256 * d))) div 2 ^ 24 = d"
    using assms by (simp_all add: div_eq_dividend_iff div_nat_eqI)
  moreover have "(a + 256 * (b + 256 * (c + 256 * d))) mod 256 = a" "(b + 256 * (c + 256 * d)) mod 256 = b"
    "(c + 256 * d) mod 256 = c" "d mod 256 = d"
    using assms by (simp_all only: mod_mult_self2 mod_less)
  ultimately show ?thesis unfolding put32_values by (simp only:)
qed

lemma put16_to_be: "map unat (put16 (to_be16 p)) = [unat p div 256, unat p mod 256]"
proof -
  have p: "unat p < 65536" using unsigned_less[of p, where ?'a = nat] by simp
  then have q: "unat p div 256 < 256" by (simp add: less_mult_imp_div_less)
  have "unat (to_be16 p) = unat p mod 256 * 256 + unat p div 256"
    unfolding to_be16_def by (rule unat_word_u16) (use q in \<open>simp add: mod_less_divisor\<close>)
  with q show ?thesis unfolding put16_values by simp
qed

lemma read_le_at: "length pre = off \<Longrightarrow> length mid = n \<Longrightarrow> read_le off n (pre @ mid @ post) = le_bytes (map unat mid)"
  by (simp add: read_le_def slice_def)

lemma slice_at: "length pre = a \<Longrightarrow> a + length mid = b \<Longrightarrow> slice a b (pre @ mid @ post) = mid"
  by (auto simp: slice_def)

lemma octets_v4_four: "\<exists>a b c d. octets_v4 ip = [a, b, c, d] \<and> a < 256 \<and> b < 256 \<and> c < 256 \<and> d < 256"
proof (intro exI conjI)
  show "octets_v4 ip = [unat ip div 2 ^ 24, unat ip div 2 ^ 16 mod 256, unat ip div 2 ^ 8 mod 256, unat ip mod 256]"
    by (simp only: octets_v4_def Let_def)
  show "unat ip div 2 ^ 24 < 256" by (rule octets_v4_bound[of _ ip]) (simp add: octets_v4_def Let_def)
qed (simp_all only: mod_less_divisor zero_less_numeral)

definition request_prefix :: "u32 \<Rightarrow> socket_addr \<Rightarrow> bytes" where
  "request_prefix sequence peer = header_bytes (request_header sequence) @ [address_family peer, 6, 2, 0] @ put32 2 @ put16 0"

lemma request_prefix_length: "length (request_prefix sequence peer) = 26"
  by (simp add: request_prefix_def header_bytes_length header_len_def)

lemma send_buffer_parts:
  "send_buffer (request_header sequence) (build_request (address_family peer) peer)
     = request_prefix sequence peer @ put16 (to_be16 (sa_port peer)) @ replicate 16 0
       @ concat (map put32 (sk_dst (dr_id (build_request (address_family peer) peer)))) @ replicate 12 0"
proof -
  have zero: "put32 0 = [0, 0, 0, 0]" by (simp add: put32_def)
  show ?thesis
    unfolding send_buffer_layout request_prefix_def
    by (simp add: request_bytes_def sockid_bytes_def build_request_def zero INET_DIAG_INFO_def TCP_ESTABLISHED_def
        eval_nat_numeral replicate_append_same)
qed

lemma put32_chunk:
  assumes "length ys = 4" and "\<forall>y \<in> set ys. y < 256"
  shows "map unat (put32 (word_of_nat (le_bytes ys))) = ys"
proof -
  obtain a b c d where ys: "ys = [a, b, c, d]" using assms(1) by (auto simp: length_Suc_conv eval_nat_numeral)
  show ?thesis unfolding ys by (rule put32_le_bytes) (use assms(2) ys in simp_all)
qed

lemma put32_chunks:
  assumes "length xs = 16" and "\<forall>x \<in> set xs. x < 256"
  shows "map unat (concat (map put32 (map (\<lambda>i. word_of_nat (le_bytes (take 4 (drop (4 * i) xs)))) [0, 1, 2, 3]))) = xs"
proof -
  have "map unat (put32 (word_of_nat (le_bytes (take 4 (drop (4 * i) xs))))) = take 4 (drop (4 * i) xs)" if "i < 4" for i
    by (rule put32_chunk) (use assms that in \<open>auto dest: in_set_takeD in_set_dropD\<close>)
  from this[of 0] this[of 1] this[of 2] this[of 3]
  have "map unat (concat (map put32 (map (\<lambda>i. word_of_nat (le_bytes (take 4 (drop (4 * i) xs)))) [0, 1, 2, 3])))
      = take 4 xs @ take 4 (drop 4 xs) @ take 4 (drop 8 xs) @ take 4 (drop 12 xs)" by simp
  also have "take 4 (drop 12 xs) = drop 12 xs" using assms(1) by simp
  also have "take 4 (drop 8 xs) @ drop 12 xs = drop 8 xs"
    using append_take_drop_id[of 4 "drop 8 xs"] by simp
  also have "take 4 (drop 4 xs) @ drop 8 xs = drop 4 xs"
    using append_take_drop_id[of 4 "drop 4 xs"] by simp
  finally show ?thesis by simp
qed

lemma octets_v6_ok: "length (octets_v6 a) = 16" "\<forall>x \<in> set (octets_v6 a). x < 256"
proof -
  have "s < 65536" if "s \<in> set (segments_v6 a)" for s using that by (auto simp: segments_v6_def)
  then show "\<forall>x \<in> set (octets_v6 a). x < 256"
    by (auto simp: octets_v6_def less_mult_imp_div_less)
  show "length (octets_v6 a) = 16" by (simp add: octets_v6_def segments_v6_def upt_rec)
qed

text \<open>The address as the kernel finds it in the request: the last four bytes of the field for IPv4.\<close>

definition peer_octets :: "socket_addr \<Rightarrow> nat list" where
  "peer_octets peer = (case sa_ip peer of V4 a \<Rightarrow> replicate 12 0 @ octets_v4 a | V6 a \<Rightarrow> octets_v6 a)"

lemma dst_octets:
  "map unat (concat (map put32 (sk_dst (dr_id (build_request family peer))))) = peer_octets peer"
proof (cases "sa_ip peer")
  case (V4 a)
  obtain w x y z where o4: "octets_v4 a = [w, x, y, z]" "w < 256" "x < 256" "y < 256" "z < 256"
    using octets_v4_four by blast
  have "map unat (put32 (word_of_nat (le_bytes [w, x, y, z]))) = [w, x, y, z]" by (rule put32_le_bytes) (use o4 in simp_all)
  moreover have "map unat (put32 0) = [0, 0, 0, 0]" by (simp add: put32_def)
  ultimately show ?thesis using V4 o4(1) by (simp add: build_request_def peer_octets_def eval_nat_numeral)
next
  case (V6 a)
  with put32_chunks[OF octets_v6_ok, of a] show ?thesis by (simp add: build_request_def peer_octets_def)
qed

lemma peer_octets_length: "length (peer_octets peer) = 16"
  by (auto simp: peer_octets_def octets_v6_ok octets_v4_def Let_def split: ip_addr.splits)

text \<open>
  The datagram a query sends is one netlink message of 72 bytes whose header says so, a dump
  request with the given sequence number; it carries the peer's port in network order and
  the octets of its address in the destination field.
\<close>

theorem request_on_the_wire:
  "let buf = send_buffer (request_header sequence) (build_request (address_family peer) peer) in
     length buf = 72 \<and> read_le 0 4 buf = 72 \<and> read_le 4 2 buf = 20 \<and> read_le 6 2 buf = 0x301
     \<and> read_le 8 4 buf = unat sequence
     \<and> map unat (slice 26 28 buf) = [unat (sa_port peer) div 256, unat (sa_port peer) mod 256]
     \<and> map unat (slice 44 60 buf) = peer_octets peer"
proof -
  let ?r = "build_request (address_family peer) peer" and ?h = "request_header sequence"
  let ?dst = "concat (map put32 (sk_dst (dr_id ?r)))"
  have dst: "map unat ?dst = peer_octets peer" by (rule dst_octets)
  then have dlen: "length ?dst = 16" using peer_octets_length[of peer] by (metis length_map)
  have hdr: "send_buffer ?h ?r = put32 72 @ put16 20 @ put16 0x301 @ put32 sequence @ put32 0 @ request_bytes ?r"
    unfolding send_buffer_layout
    by (simp add: header_bytes_def request_header_def SOCK_DIAG_BY_FAMILY_def NLM_F_REQUEST_def NLM_F_DUMP_def
        nlmsg_align_def NLMSG_ALIGNTO_def header_len_def request_size_def)
  have "length (send_buffer ?h ?r) = 72"
    unfolding send_buffer_layout by (simp add: header_bytes_length request_bytes_length header_len_def request_size_def)
  moreover have "read_le 0 4 (send_buffer ?h ?r) = 72"
    unfolding hdr using read_le_at[of "[]" 0 "put32 72" 4] by (simp add: le_bytes_put32)
  moreover have "read_le 4 2 (send_buffer ?h ?r) = 20"
    unfolding hdr using read_le_at[of "put32 72" 4 "put16 20" 2] by (simp add: le_bytes_put16)
  moreover have "read_le 6 2 (send_buffer ?h ?r) = 0x301"
    unfolding hdr using read_le_at[of "put32 72 @ put16 20" 6 "put16 0x301" 2] by (simp add: le_bytes_put16)
  moreover have "read_le 8 4 (send_buffer ?h ?r) = unat sequence"
    unfolding hdr using read_le_at[of "put32 72 @ put16 20 @ put16 0x301" 8 "put32 sequence" 4] by (simp add: le_bytes_put32)
  moreover have "slice 26 28 (send_buffer ?h ?r) = put16 (to_be16 (sa_port peer))"
    unfolding send_buffer_parts by (rule slice_at) (simp_all add: request_prefix_length)
  moreover have "slice 44 60 (send_buffer ?h ?r) = ?dst"
    unfolding send_buffer_parts
    using slice_at[of "request_prefix sequence peer @ put16 (to_be16 (sa_port peer)) @ replicate 16 0" 44 ?dst 60 "replicate 12 0"]
    by (simp add: request_prefix_length dlen)
  ultimately show ?thesis using dst by (simp add: Let_def put16_to_be)
qed

section \<open>What a reply contributes\<close>

text \<open>
  Of the fixed part of a reply only the state is read: the socket a reply is about is never compared with the
  peer that was asked for, so the samples are those of the tunnel only as far as the kernel filters the
  dump.
\<close>

lemma attr_loop_suffix:
  "length p = length q \<Longrightarrow> drop k p = drop k q \<Longrightarrow> k \<le> offset \<Longrightarrow> attr_loop dec p fuel offset = attr_loop dec q fuel offset"
proof (induction fuel arbitrary: offset)
  case (Suc fuel)
  have sl: "slice a b p = slice a b q" if "k \<le> a" for a b
  proof -
    have "drop a p = drop (a - k) (drop k p)" "drop a q = drop (a - k) (drop k q)" using that by simp_all
    then show ?thesis using Suc.prems(2) by (simp add: slice_def)
  qed
  have "read_le a n p = read_le a n q" if "k \<le> a" for a n using sl[OF that] by (simp add: read_le_def)
  with Suc.prems(3) have reads: "read_le offset 2 p = read_le offset 2 q" "read_le (offset + 2) 2 p = read_le (offset + 2) 2 q"
    by simp_all
  have data: "slice (offset + 4) b p = slice (offset + 4) b q" for b using Suc.prems(3) by (intro sl) simp
  have "attr_loop dec p fuel (offset + n) = attr_loop dec q fuel (offset + n)" for n
    using Suc.prems by (intro Suc.IH) simp_all
  then show ?case by (simp only: attr_loop.simps Let_def reads data Suc.prems(1))
qed simp

lemma reply_peer_ignored:
  assumes "length p = length q" and "p ! 1 = q ! 1" and "drop inet_diag_msg_size p = drop inet_diag_msg_size q"
  shows "collect_message fuel dec p = collect_message fuel dec q"
proof -
  have "attr_loop dec p fuel (nlmsg_align inet_diag_msg_size) = attr_loop dec q fuel (nlmsg_align inet_diag_msg_size)"
    by (rule attr_loop_suffix[OF assms(1,3)]) (simp add: nlmsg_align_def NLMSG_ALIGNTO_def inet_diag_msg_size_def)
  with assms show ?thesis by (simp add: collect_message_def)
qed

end
