(* ===== verification/Auto_Select.thy ===== *)
theory Auto_Select
  imports IR Socket_Health
begin

text \<open>
  Node selection, \<open>crates/controller/src/auto_select.rs\<close>, with the score type it shares with
  \<open>proxy_controller.rs\<close>: the rolling reputation of a node, the selection cost, the ranking of
  verified candidates, the decision with its switch margin, the selector that keeps the tracks,
  and the kernel view of the live tunnel.  An \<open>f64\<close> is a real number, so rounding and the values
  that are not numbers are left out; name resolution and the netlink exchange are parameters.
\<close>

section \<open>Scores and tracks\<close>

record candidate_score =
  cs_node_index :: nat
  cs_label :: string
  cs_sub_id :: sub_id
  cs_verified :: nat
  cs_total :: nat
  cs_passes :: bool
  cs_median_latency :: "duration option"
  cs_latency_spread :: "duration option"

record node_track =
  tk_latency_ewma_ms :: "real option"
  tk_spread_ewma_ms :: "real option"
  tk_failure_weight :: real
  tk_last_failure :: "instant option"
  tk_consecutive_failures :: u32
  tk_samples :: u32

definition NodeTrack_default :: node_track where
  "NodeTrack_default = \<lparr>tk_latency_ewma_ms = None, tk_spread_ewma_ms = None, tk_failure_weight = 0,
     tk_last_failure = None, tk_consecutive_failures = 0, tk_samples = 0\<rparr>"

definition clamp :: "'a::linorder \<Rightarrow> 'a \<Rightarrow> 'a \<Rightarrow> 'a" where
  "clamp lo hi x = (if x < lo then lo else if hi < x then hi else x)"

definition ewma :: "real \<Rightarrow> real \<Rightarrow> real option \<Rightarrow> real" where
  "ewma alpha x prev = (case prev of None \<Rightarrow> x | Some previous \<Rightarrow> alpha * x + (1 - alpha) * previous)"

definition record_success :: "real \<Rightarrow> real \<Rightarrow> real \<Rightarrow> instant \<Rightarrow> node_track \<Rightarrow> node_track" where
  "record_success median_ms spread_ms alpha0 now t =
     (let alpha = clamp 0 1 alpha0 in
      t\<lparr>tk_latency_ewma_ms := Some (ewma alpha median_ms (tk_latency_ewma_ms t)),
        tk_spread_ewma_ms := Some (ewma alpha spread_ms (tk_spread_ewma_ms t)),
        tk_failure_weight := tk_failure_weight t * (1 / 2),
        tk_consecutive_failures := 0,
        tk_samples := saturating_add (tk_samples t) 1\<rparr>)"

definition record_failure :: "instant \<Rightarrow> node_track \<Rightarrow> node_track" where
  "record_failure now t =
     t\<lparr>tk_consecutive_failures := saturating_add (tk_consecutive_failures t) 1,
       tk_failure_weight := min (tk_failure_weight t + 1) 4,
       tk_last_failure := Some now\<rparr>"

definition decayed_failure :: "duration \<Rightarrow> instant \<Rightarrow> node_track \<Rightarrow> real" where
  "decayed_failure half_life now t =
     (case tk_last_failure t of None \<Rightarrow> 0
      | Some failed_at \<Rightarrow> tk_failure_weight t *
          (1 / 2) powr (as_secs_f64 (elapsed now failed_at) / max (as_secs_f64 half_life) 1))"

definition is_cold :: "node_track \<Rightarrow> bool" where
  "is_cold t = (tk_samples t = 0)"

record auto_select_config =
  ac_w_latency :: real
  ac_w_spread :: real
  ac_w_quorum :: real
  ac_w_failure :: real
  ac_latency_scale :: real
  ac_switch_margin :: real
  ac_failure_half_life :: duration
  ac_alpha :: real

definition AutoSelectConfig_default :: auto_select_config where
  "AutoSelectConfig_default = \<lparr>ac_w_latency = 1, ac_w_spread = 6 / 10, ac_w_quorum = 5 / 10,
     ac_w_failure = 12 / 10, ac_latency_scale = 1000, ac_switch_margin = 8 / 100,
     ac_failure_half_life = from_secs (30 * 60), ac_alpha = 35 / 100\<rparr>"

section \<open>Cost and ranking\<close>

record ranked_node =
  rn_node_index :: nat
  rn_cost :: real
  rn_quorum_margin :: real
  rn_track :: node_track

definition decisively_beats :: "ranked_node \<Rightarrow> ranked_node \<Rightarrow> real \<Rightarrow> bool" where
  "decisively_beats a other margin = (rn_cost a + margin < rn_cost other)"

definition selection_cost :: "candidate_score \<Rightarrow> node_track \<Rightarrow> auto_select_config \<Rightarrow> instant \<Rightarrow> real" where
  "selection_cost score track config now =
     (let fresh_ms = unwrap_or (ac_latency_scale config * 2) (map_option (\<lambda>d. as_secs_f64 d * 1000) (cs_median_latency score));
          fresh_spread_ms = unwrap_or 0 (map_option (\<lambda>d. as_secs_f64 d * 1000) (cs_latency_spread score));
          latency_ms = unwrap_or fresh_ms (tk_latency_ewma_ms track);
          spread_ms = unwrap_or fresh_spread_ms (tk_spread_ewma_ms track);
          latency_term = clamp 0 4 (latency_ms / ac_latency_scale config);
          spread_term = clamp 0 4 (spread_ms / ac_latency_scale config);
          disagreement = (if cs_total score = 0 then 1 else 1 - real (cs_verified score) / real (cs_total score));
          failure_term = decayed_failure (ac_failure_half_life config) now track
      in ac_w_latency config * latency_term + ac_w_spread config * spread_term
         + ac_w_quorum config * disagreement + ac_w_failure config * failure_term)"

type_synonym tracks = "u32 \<Rightarrow> node_track option"

definition rank_one :: "tracks \<Rightarrow> u32 list \<Rightarrow> auto_select_config \<Rightarrow> instant \<Rightarrow> candidate_score \<Rightarrow> ranked_node" where
  "rank_one tracks ids config now score =
     (let node_index = cs_node_index score;
          track = unwrap_or NodeTrack_default (Option.bind (vec_get ids node_index) tracks)
      in \<lparr>rn_node_index = node_index, rn_cost = selection_cost score track config now,
          rn_quorum_margin = (if cs_total score = 0 then 0 else real (cs_verified score) / real (cs_total score)),
          rn_track = track\<rparr>)"

definition ranked_cmp :: "ranked_node \<Rightarrow> ranked_node \<Rightarrow> ordering" where
  "ranked_cmp a b = then_with (cmp (rn_cost a) (rn_cost b)) (cmp (rn_node_index a) (rn_node_index b))"

definition rank_working_nodes ::
    "candidate_score list \<Rightarrow> tracks \<Rightarrow> u32 list \<Rightarrow> auto_select_config \<Rightarrow> instant \<Rightarrow> ranked_node list" where
  "rank_working_nodes scores tracks ids config now =
     sort_by ranked_cmp (map (rank_one tracks ids config now) (filter cs_passes scores))"

interpretation rk: exact_comparator ranked_cmp
  unfolding ranked_cmp_def[abs_def] by (intro exact_then exact_key)

section \<open>The decision\<close>

definition should_switch :: "ranked_node \<Rightarrow> ranked_node \<Rightarrow> real \<Rightarrow> bool" where
  "should_switch challenger incumbent margin = decisively_beats challenger incumbent margin"

datatype auto_decision =
    Adopted nat string real
  | Kept nat string
  | Switch nat string real
  | NoVerifiedNode

definition decide_with_margin ::
    "ranked_node list \<Rightarrow> candidate_score list \<Rightarrow> nat option \<Rightarrow> real \<Rightarrow> auto_decision" where
  "decide_with_margin ranked scores incumbent margin =
     (case ranked of [] \<Rightarrow> NoVerifiedNode | best # _ \<Rightarrow>
      (let label = unwrap_or [] (map_option cs_label (vec_get scores (rn_node_index best))) in
       case incumbent of None \<Rightarrow> Adopted (rn_node_index best) label (rn_cost best)
       | Some incumbent_index \<Rightarrow>
         (case find (\<lambda>node. rn_node_index node = incumbent_index) ranked of
            None \<Rightarrow> Switch (rn_node_index best) label (rn_cost best)
          | Some current \<Rightarrow>
              if should_switch best current margin
              then Switch (rn_node_index best) label (rn_cost best)
              else Kept incumbent_index
                (if rn_node_index best = incumbent_index then ''incumbent is the best verified node''
                 else ''challenger not decisively better''))))"

section \<open>The selector\<close>

record auto_selector =
  as_config :: auto_select_config
  as_tracks :: tracks

definition AutoSelector_new :: "auto_select_config \<Rightarrow> auto_selector" where
  "AutoSelector_new config = \<lparr>as_config = config, as_tracks = Map.empty\<rparr>"

definition update_track :: "u32 \<Rightarrow> (node_track \<Rightarrow> node_track) \<Rightarrow> auto_selector \<Rightarrow> auto_selector" where
  "update_track node_id f sel =
     sel\<lparr>as_tracks := (as_tracks sel)(node_id \<mapsto> f (unwrap_or NodeTrack_default (as_tracks sel node_id)))\<rparr>"

definition observe_verified :: "u32 \<Rightarrow> real \<Rightarrow> real \<Rightarrow> instant \<Rightarrow> auto_selector \<Rightarrow> auto_selector" where
  "observe_verified node_id median_ms spread_ms now sel =
     update_track node_id (record_success median_ms spread_ms (ac_alpha (as_config sel)) now) sel"

definition observe_failed :: "u32 \<Rightarrow> instant \<Rightarrow> auto_selector \<Rightarrow> auto_selector" where
  "observe_failed node_id now sel = update_track node_id (record_failure now) sel"

fun observe_round :: "u32 list \<Rightarrow> candidate_score list \<Rightarrow> instant \<Rightarrow> auto_selector \<Rightarrow> auto_selector" where
  "observe_round ids [] now sel = sel"
| "observe_round ids (score # scores) now sel =
     (case vec_get ids (cs_node_index score) of
        None \<Rightarrow> observe_round ids scores now sel
      | Some node_id \<Rightarrow>
          if cs_passes score
          then observe_round ids scores now (observe_verified node_id
                 (unwrap_or 0 (map_option (\<lambda>d. as_secs_f64 d * 1000) (cs_median_latency score)))
                 (unwrap_or 0 (map_option (\<lambda>d. as_secs_f64 d * 1000) (cs_latency_spread score))) now sel)
          else observe_round ids scores now (observe_failed node_id now sel))"

definition decide :: "candidate_score list \<Rightarrow> u32 list \<Rightarrow> nat option \<Rightarrow> instant \<Rightarrow> auto_selector \<Rightarrow> auto_decision \<times> ranked_node list" where
  "decide scores ids incumbent now sel =
     (let ranked = rank_working_nodes scores (as_tracks sel) ids (as_config sel) now
      in (decide_with_margin ranked scores incumbent (ac_switch_margin (as_config sel)), ranked))"

section \<open>The live tunnel\<close>

record tunnel_health =
  th_grade :: nat
  th_rtt_ms :: u32
  th_spread_ms :: u32
  th_retransmits :: u32
  th_connections :: nat

text \<open>\<open>Iterator::max_by_key\<close> returns the last of several maximal elements.\<close>

fun max_by_key :: "('a \<Rightarrow> 'k::linorder) \<Rightarrow> 'a list \<Rightarrow> 'a option" where
  "max_by_key f [] = None"
| "max_by_key f (x # xs) =
     (case max_by_key f xs of None \<Rightarrow> Some x | Some y \<Rightarrow> if f x \<le> f y then Some y else Some x)"

definition aggregate :: "tcp_stats list \<Rightarrow> health_thresholds \<Rightarrow> tunnel_health option" where
  "aggregate stats thresholds =
     map_option (\<lambda>best. \<lparr>th_grade = health_grade best thresholds, th_rtt_ms = ts_rtt_ms best,
         th_spread_ms = ts_rtt_var_ms best, th_retransmits = ts_total_retrans best,
         th_connections = length stats\<rparr>)
       (max_by_key (\<lambda>sample. health_grade sample thresholds) stats)"

definition resolve_endpoint :: "(string \<Rightarrow> u16 \<Rightarrow> socket_addr list res) \<Rightarrow> canonical_node \<Rightarrow> socket_addr list option" where
  "resolve_endpoint lookup node =
     (case cn_endpoint node of Ip a \<Rightarrow> Some [a] | Domain host port \<Rightarrow> ok (lookup host port))"

fun best_tunnel :: "(socket_addr \<Rightarrow> tcp_stats list res) \<Rightarrow> health_thresholds \<Rightarrow> socket_addr list \<Rightarrow>
    tunnel_health option \<Rightarrow> tunnel_health option" where
  "best_tunnel tcp_info_for_peer thresholds [] best = best"
| "best_tunnel tcp_info_for_peer thresholds (address # addresses) best =
     best_tunnel tcp_info_for_peer thresholds addresses
       (case tcp_info_for_peer address of
          Inl _ \<Rightarrow> best
        | Inr stats \<Rightarrow>
            if stats = [] then best
            else (case aggregate stats thresholds of
                    None \<Rightarrow> best
                  | Some chosen \<Rightarrow>
                      (case best of
                         Some current \<Rightarrow> if th_grade chosen \<le> th_grade current then Some current else Some chosen
                       | None \<Rightarrow> Some chosen)))"

definition tunnel_health_of ::
    "(string \<Rightarrow> u16 \<Rightarrow> socket_addr list res) \<Rightarrow> (socket_addr \<Rightarrow> tcp_stats list res) \<Rightarrow>
      canonical_node \<Rightarrow> health_thresholds \<Rightarrow> tunnel_health option" where
  "tunnel_health_of lookup tcp_info_for_peer node thresholds =
     (case resolve_endpoint lookup node of None \<Rightarrow> None
      | Some addresses \<Rightarrow> best_tunnel tcp_info_for_peer thresholds addresses None)"

section \<open>Lemmas\<close>

definition track_ok :: "node_track \<Rightarrow> bool" where
  "track_ok t \<longleftrightarrow> 0 \<le> tk_failure_weight t \<and> tk_failure_weight t \<le> 4
     \<and> (tk_last_failure t = None \<longrightarrow> tk_failure_weight t = 0)
     \<and> (case tk_latency_ewma_ms t of None \<Rightarrow> tk_samples t = 0 | Some x \<Rightarrow> 0 \<le> x)
     \<and> (case tk_spread_ewma_ms t of None \<Rightarrow> tk_samples t = 0 | Some x \<Rightarrow> 0 \<le> x)"

lemma clamp_bounds: "lo \<le> hi \<Longrightarrow> lo \<le> clamp lo hi x \<and> clamp lo hi x \<le> hi"
  by (auto simp: clamp_def)

lemma ewma_nonneg:
  assumes "0 \<le> a" "a \<le> 1" "0 \<le> x" "case p of None \<Rightarrow> True | Some y \<Rightarrow> 0 \<le> y"
  shows "0 \<le> ewma a x p"
  using assms by (simp add: ewma_def split: option.splits)

lemma ewma_between:
  assumes "0 \<le> a" "a \<le> 1" "lo \<le> x" "x \<le> hi" "case p of None \<Rightarrow> True | Some y \<Rightarrow> lo \<le> y \<and> y \<le> hi"
  shows "lo \<le> ewma a x p \<and> ewma a x p \<le> hi"
proof (cases p)
  case None
  with assms show ?thesis by (simp add: ewma_def)
next
  case (Some y)
  have "a * lo + (1 - a) * lo \<le> a * x + (1 - a) * y" "a * x + (1 - a) * y \<le> a * hi + (1 - a) * hi"
    using assms Some by (intro add_mono mult_left_mono; simp)+
  moreover have "a * z + (1 - a) * z = z" for z by (simp add: algebra_simps)
  ultimately show ?thesis using Some by (simp add: ewma_def)
qed

lemma track_ok_default: "track_ok NodeTrack_default"
  by (simp add: track_ok_def NodeTrack_default_def)

lemma track_ok_success:
  assumes "track_ok t" "0 \<le> m" "0 \<le> sp"
  shows "track_ok (record_success m sp alpha now t)"
  using assms clamp_bounds[of 0 1 alpha]
  by (auto simp: record_success_def track_ok_def Let_def intro!: ewma_nonneg split: option.splits)

lemma track_ok_failure: "track_ok t \<Longrightarrow> track_ok (record_failure now t)"
  by (auto simp: record_failure_def track_ok_def split: option.splits)

lemma decayed_failure_bounds:
  assumes "track_ok t"
  shows "0 \<le> decayed_failure hl now t \<and> decayed_failure hl now t \<le> tk_failure_weight t"
proof (cases "tk_last_failure t")
  case None
  with assms show ?thesis by (simp add: decayed_failure_def track_ok_def)
next
  case (Some lf)
  let ?x = "as_secs_f64 (elapsed now lf) / max (as_secs_f64 hl) 1"
  have "0 \<le> ?x" by (simp add: as_secs_f64_def)
  then have "(1 / 2 :: real) powr ?x \<le> 1" by (simp add: powr_le1)
  then show ?thesis
    using assms Some by (simp add: decayed_failure_def track_ok_def mult_left_le)
qed

lemma decayed_failure_antitone:
  assumes "track_ok t" "now \<le> later"
  shows "decayed_failure hl later t \<le> decayed_failure hl now t"
proof (cases "tk_last_failure t")
  case (Some lf)
  have "as_secs_f64 (elapsed now lf) / max (as_secs_f64 hl) 1 \<le> as_secs_f64 (elapsed later lf) / max (as_secs_f64 hl) 1"
    using assms by (intro divide_right_mono) (auto simp: as_secs_f64_def elapsed_def)
  then have "(1 / 2 :: real) powr (as_secs_f64 (elapsed later lf) / max (as_secs_f64 hl) 1)
      \<le> (1 / 2) powr (as_secs_f64 (elapsed now lf) / max (as_secs_f64 hl) 1)"
    by (simp add: powr_mono')
  with assms Some show ?thesis by (simp add: decayed_failure_def track_ok_def mult_left_mono)
qed (simp add: decayed_failure_def)

lemma decayed_failure_half:
  assumes "tk_last_failure t = Some lf" "from_secs 1 \<le> hl"
  shows "decayed_failure hl (lf + hl) t = tk_failure_weight t / 2"
proof -
  have "1 \<le> as_secs_f64 hl" using assms(2) by (simp add: as_secs_f64_def from_secs_def)
  then show ?thesis using assms by (simp add: decayed_failure_def elapsed_def max_def)
qed

lemma rank_mem:
  "r \<in> set (rank_working_nodes scores tracks ids config now) \<longleftrightarrow>
     (\<exists>s \<in> set scores. cs_passes s \<and> r = rank_one tracks ids config now s)"
  by (auto simp: rank_working_nodes_def)

lemma rank_one_index [simp]: "rn_node_index (rank_one tracks ids config now s) = cs_node_index s"
  by (simp add: rank_one_def Let_def)

lemma rank_head_cheapest:
  assumes "rank_working_nodes scores tracks ids config now = best # rest" and "r \<in> set (best # rest)"
  shows "rn_cost best \<le> rn_cost r"
proof -
  let ?xs = "map (rank_one tracks ids config now) (filter cs_passes scores)"
  have "r \<in> set ?xs" using assms unfolding rank_working_nodes_def by (metis set_sort_by)
  then have "ranked_cmp best r \<noteq> Greater"
    using assms(1) rk.sort_by_hd_least[of ?xs] by (simp add: rank_working_nodes_def)
  then show ?thesis by (auto simp: ranked_cmp_def cmp_def split: if_splits)
qed

lemma rank_order:
  "sorted_wrt (\<lambda>a b. rn_cost a < rn_cost b \<or> rn_cost a = rn_cost b \<and> rn_node_index a \<le> rn_node_index b)
     (rank_working_nodes scores tracks ids config now)"
  unfolding rank_working_nodes_def
  by (rule sorted_wrt_mono_rel[OF _ rk.sorted_sort_by]) (auto simp: ranked_cmp_def cmp_def split: if_splits)

text \<open>
  What the cost is made of: the smoothed latency and spread, or the fresh ones of a node without history, counted up to
  four times the scale; the share of targets that did not verify; and the decayed failures.
\<close>

definition merits :: "auto_select_config \<Rightarrow> instant \<Rightarrow> node_track \<Rightarrow> candidate_score \<Rightarrow> real list" where
  "merits config now track score =
     [max 0 (min (4 * ac_latency_scale config)
        (case tk_latency_ewma_ms track of
           Some ms \<Rightarrow> ms
         | None \<Rightarrow> (case cs_median_latency score of Some d \<Rightarrow> as_secs_f64 d * 1000 | None \<Rightarrow> 2 * ac_latency_scale config))),
      max 0 (min (4 * ac_latency_scale config)
        (case tk_spread_ewma_ms track of
           Some ms \<Rightarrow> ms
         | None \<Rightarrow> (case cs_latency_spread score of Some d \<Rightarrow> as_secs_f64 d * 1000 | None \<Rightarrow> 0))),
      1 - (if cs_total score = 0 then 0 else real (cs_verified score) / real (cs_total score)),
      decayed_failure (ac_failure_half_life config) now track]"

text \<open>One candidate is better than another when no merit of it is worse and some merit is better.\<close>

definition better :: "real list \<Rightarrow> real list \<Rightarrow> bool" where
  "better xs ys \<longleftrightarrow> list_all2 (\<le>) xs ys \<and> xs \<noteq> ys"

definition weights_ok :: "auto_select_config \<Rightarrow> bool" where
  "weights_ok config \<longleftrightarrow> 0 < ac_w_latency config \<and> 0 < ac_w_spread config \<and> 0 < ac_w_quorum config \<and>
     0 < ac_w_failure config \<and> 0 < ac_latency_scale config"

lemma clamp_scaled:
  fixes k x :: real
  assumes "0 < k"
  shows "clamp 0 4 (x / k) = max 0 (min (4 * k) x) / k"
  using assms by (auto simp: clamp_def max_def min_def field_simps split: if_splits)

lemma selection_cost_merits:
  assumes "0 < ac_latency_scale config" and "merits config now track score = [l, sp, q, f]"
  shows "selection_cost score track config now = ac_w_latency config * (l / ac_latency_scale config)
    + ac_w_spread config * (sp / ac_latency_scale config) + ac_w_quorum config * q + ac_w_failure config * f"
  using assms(2) unfolding selection_cost_def Let_def clamp_scaled[OF assms(1)]
  by (auto simp: merits_def mult.commute split: option.splits)

lemma better_cheaper:
  assumes "weights_ok config" and "better (merits config now t s) (merits config now t' s')"
  shows "selection_cost s t config now < selection_cost s' t' config now"
proof -
  obtain l sp q f l' sp' q' f' where m: "merits config now t s = [l, sp, q, f]" "merits config now t' s' = [l', sp', q', f']"
    by (simp add: merits_def)
  have w: "0 < ac_w_latency config" "0 < ac_w_spread config" "0 < ac_w_quorum config" "0 < ac_w_failure config"
    and k: "0 < ac_latency_scale config" using assms(1) by (simp_all add: weights_ok_def)
  have le: "l \<le> l'" "sp \<le> sp'" "q \<le> q'" "f \<le> f'" and ne: "l < l' \<or> sp < sp' \<or> q < q' \<or> f < f'"
    using assms(2) by (auto simp: better_def m)
  have le': "ac_w_latency config * (l / ac_latency_scale config) \<le> ac_w_latency config * (l' / ac_latency_scale config)"
    "ac_w_spread config * (sp / ac_latency_scale config) \<le> ac_w_spread config * (sp' / ac_latency_scale config)"
    "ac_w_quorum config * q \<le> ac_w_quorum config * q'" "ac_w_failure config * f \<le> ac_w_failure config * f'"
    using le w k by (simp_all add: divide_right_mono)
  moreover have "ac_w_latency config * (l / ac_latency_scale config) < ac_w_latency config * (l' / ac_latency_scale config) \<or>
    ac_w_spread config * (sp / ac_latency_scale config) < ac_w_spread config * (sp' / ac_latency_scale config) \<or>
    ac_w_quorum config * q < ac_w_quorum config * q' \<or> ac_w_failure config * f < ac_w_failure config * f'"
    using ne w k by (auto simp: divide_strict_right_mono)
  ultimately show ?thesis unfolding selection_cost_merits[OF k m(1)] selection_cost_merits[OF k m(2)] by linarith
qed

definition track_of :: "tracks \<Rightarrow> u32 list \<Rightarrow> candidate_score \<Rightarrow> node_track" where
  "track_of tracks ids score = unwrap_or NodeTrack_default (Option.bind (vec_get ids (cs_node_index score)) tracks)"

lemma rank_one_cost: "rn_cost (rank_one tracks ids config now s) = selection_cost s (track_of tracks ids s) config now"
  by (simp add: rank_one_def track_of_def Let_def)

lemma update_track_other: "node_id \<noteq> k \<Longrightarrow> as_tracks (update_track node_id f sel) k = as_tracks sel k"
  by (simp add: update_track_def)

lemma config_kept [simp]:
  "as_config (observe_verified i m sp now sel) = as_config sel"
  "as_config (observe_failed i now sel) = as_config sel"
  "as_config (update_track i f sel) = as_config sel"
  by (simp_all add: observe_verified_def observe_failed_def update_track_def)

definition selector_ok :: "auto_selector \<Rightarrow> bool" where
  "selector_ok sel \<longleftrightarrow> (\<forall>i t. as_tracks sel i = Some t \<longrightarrow> track_ok t)"

lemma selector_ok_update:
  assumes "selector_ok sel" "\<And>t. track_ok t \<Longrightarrow> track_ok (f t)"
  shows "selector_ok (update_track i f sel)"
  using assms track_ok_default
  by (auto simp: selector_ok_def update_track_def) (metis not_None_eq unwrap_or.simps)

lemma millis_nonneg: "0 \<le> unwrap_or 0 (map_option (\<lambda>d. as_secs_f64 d * 1000) x)"
  by (cases x) (simp_all add: as_secs_f64_def)

lemma selector_ok_round: "selector_ok sel \<Longrightarrow> selector_ok (observe_round ids scores now sel)"
proof (induction ids scores now sel rule: observe_round.induct)
  case (2 ids score scores now sel)
  show ?case
  proof (cases "vec_get ids (cs_node_index score)")
    case None
    with 2 show ?thesis by simp
  next
    case (Some i)
    with 2 show ?thesis
      by (auto simp: observe_verified_def observe_failed_def
          intro!: selector_ok_update track_ok_success track_ok_failure millis_nonneg)
  qed
qed simp

lemma max_by_key_None: "max_by_key f xs = None \<longleftrightarrow> xs = []"
  by (cases xs) (auto split: option.splits)

lemma max_by_key_Some:
  "max_by_key f xs = Some y \<Longrightarrow> y \<in> set xs \<and> (\<forall>x \<in> set xs. f x \<le> f y)"
proof (induction xs arbitrary: y)
  case (Cons a xs)
  then show ?case
    by (cases "max_by_key f xs") (auto simp: max_by_key_None split: if_splits)
qed simp

lemma aggregate_None: "aggregate stats t = None \<longleftrightarrow> stats = []"
  by (simp add: aggregate_def max_by_key_None)

lemma aggregate_Some:
  assumes "aggregate stats t = Some h"
  shows "\<exists>x \<in> set stats. th_grade h = health_grade x t" "\<forall>x \<in> set stats. health_grade x t \<le> th_grade h"
  using assms max_by_key_Some[of "\<lambda>x. health_grade x t" stats] by (auto simp: aggregate_def)

text \<open>The samples the kernel reports for a list of addresses.\<close>

definition samples_of :: "(socket_addr \<Rightarrow> tcp_stats list res) \<Rightarrow> socket_addr list \<Rightarrow> tcp_stats list" where
  "samples_of peer addresses = concat (map (\<lambda>a. unwrap_or [] (ok (peer a))) addresses)"

definition best_of :: "tunnel_health option \<Rightarrow> nat set \<Rightarrow> bool" where
  "best_of best grades \<longleftrightarrow> (case best of None \<Rightarrow> grades = {}
     | Some h \<Rightarrow> th_grade h \<in> grades \<and> (\<forall>g \<in> grades. g \<le> th_grade h))"

lemma best_tunnel_best:
  "best_of best G \<Longrightarrow>
   best_of (best_tunnel peer t addresses best) (G \<union> (\<lambda>x. health_grade x t) ` set (samples_of peer addresses))"
proof (induction addresses arbitrary: best G)
  case Nil
  then show ?case by (simp add: samples_of_def)
next
  case (Cons a as)
  let ?g = "\<lambda>x. health_grade x t"
  let ?new = "set (unwrap_or [] (ok (peer a)))"
  have split: "set (samples_of peer (a # as)) = ?new \<union> set (samples_of peer as)"
    by (simp add: samples_of_def)
  show ?case
  proof (cases "?new = {}")
    case True
    then have "best_tunnel peer t (a # as) best = best_tunnel peer t as best"
      by (auto split: sum.splits)
    with Cons True show ?thesis by (simp add: split)
  next
    case False
    then obtain stats where st: "peer a = Ok stats" "stats \<noteq> []" by (cases "peer a") auto
    obtain h where h: "aggregate stats t = Some h" using st aggregate_None[of stats t] by fastforce
    let ?best = "case best of Some c \<Rightarrow> if th_grade h \<le> th_grade c then Some c else Some h | None \<Rightarrow> Some h"
    have "best_of ?best (G \<union> ?g ` set stats)"
      using Cons.prems aggregate_Some[OF h]
      by (auto simp: best_of_def split: option.splits if_splits)
    from Cons.IH[OF this] show ?thesis using st h by (simp add: split Un_assoc image_Un)
  qed
qed

section \<open>Properties\<close>

text \<open>
  Claim C11.  The ranking holds every candidate that passed the quorum exactly as often as it was scored and no other, cheapest
  first and the lower catalog index first among equal costs; and the cost means something: with positive weights a
  candidate that is better than another, in latency, spread, agreement or failures and worse in none of them, stands before
  it.
\<close>

theorem rank_working_nodes_exact:
  "mset (rank_working_nodes scores tracks ids config now) = image_mset (rank_one tracks ids config now) (mset (filter cs_passes scores))
   \<and> sorted_wrt (\<lambda>a b. rn_cost a < rn_cost b \<or> rn_cost a = rn_cost b \<and> rn_node_index a \<le> rn_node_index b)
       (rank_working_nodes scores tracks ids config now)
   \<and> (weights_ok config \<and> i < length (rank_working_nodes scores tracks ids config now) \<and>
      j < length (rank_working_nodes scores tracks ids config now) \<and>
      rank_working_nodes scores tracks ids config now ! i = rank_one tracks ids config now s \<and>
      rank_working_nodes scores tracks ids config now ! j = rank_one tracks ids config now s' \<and>
      better (merits config now (track_of tracks ids s) s) (merits config now (track_of tracks ids s') s') \<longrightarrow> i < j)"
proof (intro conjI impI)
  let ?R = "rank_working_nodes scores tracks ids config now"
  show "mset ?R = image_mset (rank_one tracks ids config now) (mset (filter cs_passes scores))"
    by (simp add: rank_working_nodes_def)
  assume h: "weights_ok config \<and> i < length ?R \<and> j < length ?R \<and> ?R ! i = rank_one tracks ids config now s \<and>
    ?R ! j = rank_one tracks ids config now s' \<and>
    better (merits config now (track_of tracks ids s) s) (merits config now (track_of tracks ids s') s')"
  then have "rn_cost (?R ! i) < rn_cost (?R ! j)" using better_cheaper by (simp add: rank_one_cost)
  moreover have "rn_cost (?R ! j) \<le> rn_cost (?R ! i)" if "j < i"
    using sorted_wrt_nth_less[OF rank_order that] h by fastforce
  ultimately show "i < j" by (cases i j rule: linorder_cases) auto
qed (rule rank_order)

text \<open>The cost a score has in a round.\<close>

abbreviation cost_in :: "auto_selector \<Rightarrow> u32 list \<Rightarrow> instant \<Rightarrow> candidate_score \<Rightarrow> real" where
  "cost_in sel ids now s \<equiv> rn_cost (rank_one (as_tracks sel) ids (as_config sel) now s)"

text \<open>
  The decision is what the margin rule asks for.  Nothing is chosen exactly when no
  candidate passed; an adopted or new node passed the quorum and no passing candidate is cheaper;
  a switch happens only if the incumbent did not pass or is dearer than the new node by more than
  the margin; the incumbent is kept only if it passed and no passing candidate undercuts it by
  more than the margin.
\<close>

theorem decide_sound:
  assumes "decide scores ids incumbent now sel = (d, ranked)"
  shows "case d of
      NoVerifiedNode \<Rightarrow> \<forall>s \<in> set scores. \<not> cs_passes s
    | Adopted i label c \<Rightarrow> incumbent = None
        \<and> (\<exists>s \<in> set scores. cs_passes s \<and> cs_node_index s = i \<and> cost_in sel ids now s = c)
        \<and> (\<forall>s \<in> set scores. cs_passes s \<longrightarrow> c \<le> cost_in sel ids now s)
    | Switch i label c \<Rightarrow>
        (\<exists>s \<in> set scores. cs_passes s \<and> cs_node_index s = i \<and> cost_in sel ids now s = c)
        \<and> (\<forall>s \<in> set scores. cs_passes s \<longrightarrow> c \<le> cost_in sel ids now s)
        \<and> (\<exists>inc. incumbent = Some inc \<and>
             ((\<forall>s \<in> set scores. cs_passes s \<longrightarrow> cs_node_index s \<noteq> inc)
              \<or> (\<exists>s \<in> set scores. cs_passes s \<and> cs_node_index s = inc
                   \<and> c + ac_switch_margin (as_config sel) < cost_in sel ids now s)))
    | Kept i reason \<Rightarrow> incumbent = Some i
        \<and> (\<exists>cur \<in> set scores. cs_passes cur \<and> cs_node_index cur = i
             \<and> (\<forall>s \<in> set scores. cs_passes s \<longrightarrow>
                  cost_in sel ids now cur \<le> cost_in sel ids now s + ac_switch_margin (as_config sel)))"
proof -
  let ?R = "rank_working_nodes scores (as_tracks sel) ids (as_config sel) now"
  have d: "d = decide_with_margin ?R scores incumbent (ac_switch_margin (as_config sel))"
    using assms by (auto simp: decide_def Let_def)
  have mem: "r \<in> set ?R \<longleftrightarrow> (\<exists>s \<in> set scores. cs_passes s \<and> r = rank_one (as_tracks sel) ids (as_config sel) now s)" for r
    by (rule rank_mem)
  show ?thesis
  proof (cases ?R)
    case Nil
    with mem show ?thesis by (auto simp: d decide_with_margin_def)
  next
    case (Cons best rest)
    have least: "\<forall>s \<in> set scores. cs_passes s \<longrightarrow> rn_cost best \<le> cost_in sel ids now s"
      using rank_head_cheapest[OF Cons] mem Cons by fastforce
    have "best \<in> set ?R" using Cons by simp
    then obtain b where b: "b \<in> set scores" "cs_passes b"
      "best = rank_one (as_tracks sel) ids (as_config sel) now b"
      using mem by blast
    show ?thesis
    proof (cases "Option.bind incumbent (\<lambda>inc. find (\<lambda>node. rn_node_index node = inc) ?R)")
      case None
      have "cs_node_index s \<noteq> inc" if "incumbent = Some inc" "s \<in> set scores" "cs_passes s" for s inc
      proof -
        have "rank_one (as_tracks sel) ids (as_config sel) now s \<in> set ?R" using that mem by blast
        moreover have "find (\<lambda>node. rn_node_index node = inc) ?R = None" using None that by simp
        ultimately show ?thesis
          using find_None_all[of "\<lambda>node. rn_node_index node = inc" ?R] rank_one_index by metis
      qed
      with None b least show ?thesis
        by (cases incumbent) (auto simp: d decide_with_margin_def Cons simp del: find.simps)
    next
      case (Some cur)
      then obtain inc where inc: "incumbent = Some inc" "find (\<lambda>node. rn_node_index node = inc) ?R = Some cur"
        by (cases incumbent) auto
      then have "cur \<in> set ?R" "rn_node_index cur = inc" by (auto dest: find_Some_mem)
      then obtain c where c: "c \<in> set scores" "cs_passes c" "cs_node_index c = inc"
        "cur = rank_one (as_tracks sel) ids (as_config sel) now c"
        using mem by auto
      with inc b least show ?thesis
        by (fastforce simp: d decide_with_margin_def Cons should_switch_def decisively_beats_def simp del: find.simps)
    qed
  qed
qed

definition sample_score :: "nat \<Rightarrow> string \<Rightarrow> bool \<Rightarrow> nat \<Rightarrow> candidate_score" where
  "sample_score i l p ms = \<lparr>cs_node_index = i, cs_label = l, cs_sub_id = 1, cs_verified = 2, cs_total = 2,
     cs_passes = p, cs_median_latency = Some (from_millis ms), cs_latency_spread = Some 0\<rparr>"

definition sample_selector :: auto_selector where
  "sample_selector = AutoSelector_new AutoSelectConfig_default"

lemma sample_cost:
  assumes "ms \<le> 4000"
  shows "cost_in sample_selector ids now (sample_score i l p ms) = real ms / 1000"
proof -
  have "unwrap_or NodeTrack_default (Option.bind (vec_get ids i) Map.empty) = NodeTrack_default"
    by (cases "vec_get ids i") simp_all
  with assms show ?thesis
    by (simp add: rank_one_def Let_def selection_cost_def sample_selector_def AutoSelector_new_def sample_score_def
        AutoSelectConfig_default_def NodeTrack_default_def decayed_failure_def as_secs_f64_def from_millis_def
        clamp_def)
qed

theorem rank_working_nodes_exact_witness:
  "\<exists>i j. rank_working_nodes [sample_score 5 ''slow'' True 900, sample_score 7 ''fast'' True 40] Map.empty [] AutoSelectConfig_default 0 ! i
       = rank_one Map.empty [] AutoSelectConfig_default 0 (sample_score 7 ''fast'' True 40) \<and>
     rank_working_nodes [sample_score 5 ''slow'' True 900, sample_score 7 ''fast'' True 40] Map.empty [] AutoSelectConfig_default 0 ! j
       = rank_one Map.empty [] AutoSelectConfig_default 0 (sample_score 5 ''slow'' True 900) \<and> i < j"
proof -
  let ?s = "sample_score 7 ''fast'' True 40" and ?s' = "sample_score 5 ''slow'' True 900"
  let ?R = "rank_working_nodes [?s', ?s] Map.empty [] AutoSelectConfig_default 0"
  let ?one = "rank_one Map.empty [] AutoSelectConfig_default 0"
  have "?one ?s \<in> set ?R" "?one ?s' \<in> set ?R" by (auto simp: rank_mem sample_score_def)
  then obtain i j where ij: "i < length ?R" "?R ! i = ?one ?s" "j < length ?R" "?R ! j = ?one ?s'"
    unfolding in_set_conv_nth by blast
  have "better (merits AutoSelectConfig_default 0 (track_of Map.empty [] ?s) ?s) (merits AutoSelectConfig_default 0 (track_of Map.empty [] ?s') ?s')"
    by (simp add: better_def merits_def track_of_def vec_get_def sample_score_def NodeTrack_default_def AutoSelectConfig_default_def
        as_secs_f64_def from_millis_def decayed_failure_def)
  moreover have "weights_ok AutoSelectConfig_default" by (simp add: weights_ok_def AutoSelectConfig_default_def)
  ultimately have "i < j"
    using rank_working_nodes_exact[of "[?s', ?s]" Map.empty "[]" AutoSelectConfig_default 0 i j ?s ?s'] ij by blast
  with ij show ?thesis by blast
qed

theorem decide_sound_witness:
  "\<exists>label c. fst (decide [sample_score 5 ''slow'' True 900, sample_score 7 ''fast'' True 40] [] (Some 5) 0 sample_selector)
     = Switch 7 label c \<and> c + 8 / 100 < cost_in sample_selector [] 0 (sample_score 5 ''slow'' True 900)"
proof -
  let ?scores = "[sample_score 5 ''slow'' True 900, sample_score 7 ''fast'' True 40]"
  obtain d ranked where dec: "decide ?scores [] (Some 5) 0 sample_selector = (d, ranked)" by fastforce
  have costs: "cost_in sample_selector [] 0 (sample_score 5 ''slow'' True 900) = 9 / 10"
    "cost_in sample_selector [] 0 (sample_score 7 ''fast'' True 40) = 4 / 100"
    by (simp_all add: sample_cost)
  have margin: "ac_switch_margin (as_config sample_selector) = 8 / 100"
    by (simp add: sample_selector_def AutoSelector_new_def AutoSelectConfig_default_def)
  have fields: "cs_passes (sample_score i l p ms) = p" "cs_node_index (sample_score i l p ms) = i" for i l p ms
    by (simp_all add: sample_score_def)
  show ?thesis using decide_sound[OF dec]
    by (cases d) (auto simp: dec costs margin fields)
qed

text \<open>
  No oscillation: with a margin that is not negative, once a round has decided for a
  node, asking again with that node as the incumbent and the same scores keeps it.
\<close>

theorem decide_stable:
  assumes "0 \<le> ac_switch_margin (as_config sel)"
    and "fst (decide scores ids incumbent now sel) \<in> {Adopted i label c, Switch i label c}"
  shows "fst (decide scores ids (Some i) now sel) = Kept i ''incumbent is the best verified node''"
proof -
  let ?R = "rank_working_nodes scores (as_tracks sel) ids (as_config sel) now"
  obtain best rest where R: "?R = best # rest"
    using assms(2) by (cases ?R) (auto simp: decide_def Let_def decide_with_margin_def)
  have "rn_node_index best = i"
    using assms(2)
    by (auto simp: decide_def Let_def decide_with_margin_def R split: option.splits if_splits)
  then show ?thesis
    using assms(1)
    by (simp add: decide_def Let_def decide_with_margin_def R should_switch_def decisively_beats_def)
qed

lemma sample_adopts:
  "fst (decide [sample_score 7 ''fast'' True 40] [] None 0 sample_selector) = Adopted 7 [] (4 / 100)"
proof -
  have "filter cs_passes [sample_score 7 ''fast'' True 40] = [sample_score 7 ''fast'' True 40]"
    by (simp add: sample_score_def)
  moreover have "cost_in sample_selector [] 0 (sample_score 7 ''fast'' True 40) = 4 / 100"
    by (simp add: sample_cost)
  moreover have "cs_node_index (sample_score 7 ''fast'' True 40) = 7" by (simp add: sample_score_def)
  ultimately show ?thesis
    by (simp add: decide_def Let_def decide_with_margin_def rank_working_nodes_def vec_get_def)
qed

theorem decide_stable_witness:
  "fst (decide [sample_score 7 ''fast'' True 40] [] (Some 7) 0 sample_selector)
     = Kept 7 ''incumbent is the best verified node''"
  by (rule decide_stable[where incumbent = None and label = "[]" and c = "4 / 100"])
     (simp_all only: sample_adopts, simp_all add: sample_selector_def AutoSelector_new_def AutoSelectConfig_default_def)

text \<open>
  The label that a decision carries is looked up by position although the index it
  uses is the catalog index: on a shortlist that does not hold the whole catalog in order, the
  decision names another node or none.
\<close>

theorem decide_label_positional:
  "\<exists>scores i label c. decide scores [] None 0 sample_selector = (Adopted i label c, snd (decide scores [] None 0 sample_selector))
     \<and> (\<exists>s \<in> set scores. cs_node_index s = i) \<and> (\<forall>s \<in> set scores. cs_label s \<noteq> label)"
proof -
  let ?s = "[sample_score 7 ''fast'' True 40]"
  have "decide ?s [] None 0 sample_selector = (Adopted 7 [] (4 / 100), snd (decide ?s [] None 0 sample_selector))"
    by (rule prod_eqI) (simp_all only: sample_adopts fst_conv snd_conv)
  then show ?thesis
    by (intro exI[of _ ?s] exI[of _ 7] exI[of _ "[]"] exI[of _ "4 / 100"]) (simp add: sample_score_def)
qed

text \<open>
  Reputation stays in bounds over any number of rounds: after every sequence of
  observed rounds, each track has a failure weight between 0 and 4 that is zero if the node never
  failed, averages that are not negative, and a decayed penalty that never exceeds the weight and
  never grows while no round is observed.
\<close>

theorem tracks_bounded:
  assumes "as_tracks (fold (\<lambda>(scores, now) sel. observe_round ids scores now sel) rounds (AutoSelector_new config)) i = Some t"
    and "now \<le> later"
  shows "track_ok t \<and> 0 \<le> decayed_failure hl later t \<and> decayed_failure hl later t \<le> decayed_failure hl now t
    \<and> decayed_failure hl now t \<le> 4"
proof -
  have "selector_ok (fold (\<lambda>(scores, now) sel. observe_round ids scores now sel) rounds sel)" if "selector_ok sel" for sel
    using that by (induction rounds arbitrary: sel) (auto simp: selector_ok_round)
  moreover have "selector_ok (AutoSelector_new config)" by (simp add: selector_ok_def AutoSelector_new_def)
  ultimately have ok: "track_ok t" using assms(1) by (auto simp: selector_ok_def)
  then have "tk_failure_weight t \<le> 4" by (simp add: track_ok_def)
  then show ?thesis
    using ok decayed_failure_bounds[OF ok, of hl now] decayed_failure_bounds[OF ok, of hl later]
      decayed_failure_antitone[OF ok assms(2), of hl] by linarith
qed

theorem tracks_bounded_witness:
  "\<exists>t. as_tracks (fold (\<lambda>(scores, now) sel. observe_round [9] scores now sel)
        [([sample_score 0 ''n'' False 0], 5)] (AutoSelector_new AutoSelectConfig_default)) 9 = Some t
     \<and> tk_failure_weight t = 1 \<and> decayed_failure (from_secs 1) 10 t \<le> decayed_failure (from_secs 1) 5 t"
proof -
  let ?t = "record_failure 5 NodeTrack_default"
  have t: "as_tracks (fold (\<lambda>(scores, now) sel. observe_round [9] scores now sel)
        [([sample_score 0 ''n'' False 0], 5)] (AutoSelector_new AutoSelectConfig_default)) 9 = Some ?t"
    by (simp add: sample_score_def vec_get_def observe_failed_def update_track_def AutoSelector_new_def)
  show ?thesis
    using t tracks_bounded[OF t, of 5 10 "from_secs 1"]
    by (intro exI[of _ ?t]) (simp add: record_failure_def NodeTrack_default_def)
qed

text \<open>
  The kernel's word about the tunnel: no grade is reported exactly when the endpoint
  does not resolve or none of its addresses has an established socket, and a reported grade is
  the best of all sampled connections over all addresses.
\<close>

theorem tunnel_health_is_best:
  "case tunnel_health_of lookup peer node t of
     None \<Rightarrow> (case resolve_endpoint lookup node of None \<Rightarrow> True | Some as \<Rightarrow> samples_of peer as = [])
   | Some h \<Rightarrow> (\<exists>as x. resolve_endpoint lookup node = Some as \<and> x \<in> set (samples_of peer as)
        \<and> th_grade h = health_grade x t \<and> filter (\<lambda>y. health_grade x t < health_grade y t) (samples_of peer as) = [])"
proof (cases "resolve_endpoint lookup node")
  case None
  then show ?thesis by (simp add: tunnel_health_of_def)
next
  case (Some as)
  have "best_of (best_tunnel peer t as None) ((\<lambda>x. health_grade x t) ` set (samples_of peer as))"
    using best_tunnel_best[of None "{}" peer t as] by (simp add: best_of_def)
  with Some show ?thesis
    by (auto simp: tunnel_health_of_def best_of_def filter_empty_conv not_less split: option.splits)
qed

end
