(* ===== verification/Egress.thy ===== *)
theory Egress
  imports Rust_Utf8 IR
begin

text \<open>
  Egress checks, \<open>crates/adapter/src/egress.rs\<close>: the target tables, the sampling of noise sites,
  the SOCKS5 and HTTP exchange of one check, and the scatter over worker threads that folds the
  checks into a report.  A connection is a script of what the peer sends and of how writes end;
  the sing-box process, TLS and the clock are outside the model and enter through such scripts.
\<close>

unbundle bit_operations_syntax

section \<open>Targets\<close>

record egress_target =
  tg_tag :: string
  tg_host :: string
  tg_path :: string
  tg_port :: u16
  tg_tls :: bool
  tg_expect_status :: u16
  tg_expect_body_contains :: "string option"
  tg_quorum :: bool

definition operator :: "string \<Rightarrow> string \<Rightarrow> string \<Rightarrow> u16 \<Rightarrow> bool \<Rightarrow> u16 \<Rightarrow> string option \<Rightarrow> egress_target" where
  "operator tag host path port tls expect_status body =
     \<lparr>tg_tag = tag, tg_host = host, tg_path = path, tg_port = port, tg_tls = tls,
      tg_expect_status = expect_status, tg_expect_body_contains = body, tg_quorum = True\<rparr>"

definition real_site :: "string \<Rightarrow> string \<Rightarrow> egress_target" where
  "real_site tag host =
     \<lparr>tg_tag = tag, tg_host = host, tg_path = ''/'', tg_port = 443, tg_tls = True,
      tg_expect_status = 200, tg_expect_body_contains = None, tg_quorum = False\<rparr>"

definition EGRESS_TARGETS :: "egress_target list" where
  "EGRESS_TARGETS =
     [operator ''cloudflare'' ''cp.cloudflare.com'' ''/generate_204'' 80 False 204 None,
      operator ''google'' ''www.gstatic.com'' ''/generate_204'' 80 False 204 None,
      operator ''microsoft'' ''www.msftconnecttest.com'' ''/connecttest.txt'' 80 False 200 (Some ''Microsoft Connect Test''),
      operator ''ubuntu'' ''connectivity-check.ubuntu.com'' ''/'' 80 False 204 None,
      operator ''debian'' ''network-test.debian.org'' ''/nm'' 80 False 200 (Some ''NetworkManager is online''),
      operator ''gnome'' ''nmcheck.gnome.org'' ''/check_network_status.txt'' 80 False 200 (Some ''NetworkManager is online''),
      operator ''apple'' ''captive.apple.com'' ''/hotspot-detect.html'' 80 False 200 (Some ''Success''),
      operator ''xiaomi'' ''connect.rom.miui.com'' ''/generate_204'' 80 False 204 None,
      operator ''firefox'' ''detectportal.firefox.com'' ''/success.txt'' 443 True 200 (Some ''success'')]"

definition REAL_SITE_TARGETS :: "egress_target list" where
  "REAL_SITE_TARGETS =
     [real_site ''wikipedia'' ''www.wikipedia.org'', real_site ''github'' ''github.com'',
      real_site ''rust-lang'' ''www.rust-lang.org'', real_site ''mozilla'' ''www.mozilla.org'',
      real_site ''python'' ''www.python.org'', real_site ''kernel'' ''www.kernel.org'',
      real_site ''archlinux'' ''archlinux.org'', real_site ''nginx'' ''www.nginx.org'']"

definition requires_body :: "egress_target \<Rightarrow> bool" where
  "requires_body t = (tg_expect_body_contains t \<noteq> None)"

record scatter_config =
  sc_operators :: "egress_target list"
  sc_real_sites :: "egress_target list"
  sc_real_count :: nat
  sc_min_verified :: nat
  sc_timeout :: duration
  sc_max_concurrency :: nat

definition ScatterConfig_default :: scatter_config where
  "ScatterConfig_default = \<lparr>sc_operators = EGRESS_TARGETS, sc_real_sites = REAL_SITE_TARGETS,
     sc_real_count = 2, sc_min_verified = 2, sc_timeout = from_secs 10, sc_max_concurrency = 8\<rparr>"

section \<open>Sampling\<close>

definition xorshift64_star :: "u64 \<Rightarrow> u64" where
  "xorshift64_star s0 =
     (let s1 = s0 XOR push_bit 12 s0;
          s2 = s1 XOR drop_bit 25 s1;
          s3 = s2 XOR push_bit 27 s2
      in s3 * 0x2545f4914f6cdd1d)"

definition swap :: "nat \<Rightarrow> nat \<Rightarrow> 'a list \<Rightarrow> 'a list" where
  "swap i j xs = xs[i := xs ! j, j := xs ! i]"

text \<open>The loop over \<open>i\<close>; \<open>todo\<close> rounds are left.\<close>

fun shuffle_loop :: "nat \<Rightarrow> nat \<Rightarrow> u64 \<Rightarrow> nat list \<Rightarrow> nat list" where
  "shuffle_loop i 0 seed indices = indices"
| "shuffle_loop i (Suc todo) seed indices =
     (let seed' = xorshift64_star seed;
          j = i + unat seed' mod (length indices - i)
      in shuffle_loop (Suc i) todo seed' (swap i j indices))"

definition shuffle_indices :: "nat \<Rightarrow> nat \<Rightarrow> u64 \<Rightarrow> nat list" where
  "shuffle_indices len n seed =
     (if n = 0 \<or> len = 0 then []
      else let seed' = (if seed = 0 then 0x9e3779b97f4a7c15 else seed);
               m = min n len
           in take m (shuffle_loop 0 m seed' [0..<len]))"

definition sample_sites :: "u64 \<Rightarrow> egress_target list \<Rightarrow> nat \<Rightarrow> egress_target list" where
  "sample_sites seed sites n = map (\<lambda>i. sites ! i) (shuffle_indices (length sites) n seed)"

definition sample_targets :: "u64 \<Rightarrow> scatter_config \<Rightarrow> egress_target list" where
  "sample_targets seed cfg = sc_operators cfg @ sample_sites seed (sc_real_sites cfg) (sc_real_count cfg)"

section \<open>One check\<close>

record target_check =
  ck_tag :: string
  ck_verified :: bool
  ck_latency :: duration
  ck_status :: u16
  ck_detail :: string

record scatter_report =
  sr_checks :: "target_check list"
  sr_verified :: nat
  sr_total :: nat
  sr_quorum_verified :: nat
  sr_passes :: bool

record egress_report =
  er_round_trip :: duration
  er_verified :: bool

text \<open>
  A socket during the SOCKS5 handshake: the bytes the proxy will send and how the next writes
  end; the bytes written are collected.
\<close>

record sock =
  so_in :: bytes
  so_writes :: "unit res list"
  so_out :: bytes

definition write_all :: "bytes \<Rightarrow> sock \<Rightarrow> unit res \<times> sock" where
  "write_all bs s = (case so_writes s of
       [] \<Rightarrow> (Ok (), s\<lparr>so_out := so_out s @ bs\<rparr>)
     | Inr _ # ws \<Rightarrow> (Ok (), s\<lparr>so_out := so_out s @ bs, so_writes := ws\<rparr>)
     | Inl e # ws \<Rightarrow> (Err e, s\<lparr>so_writes := ws\<rparr>))"

definition read_exact :: "nat \<Rightarrow> sock \<Rightarrow> bytes res \<times> sock" where
  "read_exact n s =
     (if length (so_in s) < n then (Err ''short read during socks5 handshake'', s\<lparr>so_in := []\<rparr>)
      else (Ok (take n (so_in s)), s\<lparr>so_in := drop n (so_in s)\<rparr>))"

text \<open>Sequencing of fallible socket operations: the \<open>?\<close> operator with the socket threaded.\<close>

definition io_then :: "'a res \<times> sock \<Rightarrow> ('a \<Rightarrow> sock \<Rightarrow> 'b res \<times> sock) \<Rightarrow> 'b res \<times> sock" where
  "io_then m f = (case m of (Inl e, s) \<Rightarrow> (Err e, s) | (Inr a, s) \<Rightarrow> f a s)"

definition octets_of_v6 :: "ipv6 \<Rightarrow> nat list" where
  "octets_of_v6 a = concat (map (\<lambda>s. [s div 256, s mod 256]) (segments_v6 a))"

definition bytes_of :: "string \<Rightarrow> bytes" where
  "bytes_of s = map (\<lambda>c. word_of_nat (byte_of c)) s"

definition socks5_request :: "string \<Rightarrow> u16 \<Rightarrow> bytes" where
  "socks5_request host port =
     [0x05, 0x01, 0x00] @
     (case parse_ipv4 host of
        Some a \<Rightarrow> 0x01 # map word_of_nat (octets_v4 a)
      | None \<Rightarrow>
        (case parse_ipv6 host of
           Some a \<Rightarrow> 0x04 # map word_of_nat (octets_of_v6 a)
         | None \<Rightarrow> 0x03 # word_of_nat (length host) # bytes_of host)) @
     [word_of_nat (unat port div 256), word_of_nat (unat port mod 256)]"

definition socks5_connect :: "string \<Rightarrow> u16 \<Rightarrow> sock \<Rightarrow> unit res \<times> sock" where
  "socks5_connect host port s =
     io_then (write_all [0x05, 0x01, 0x00] s) (\<lambda>_ s.
     io_then (read_exact 2 s) (\<lambda>greeting s.
     if greeting \<noteq> [0x05, 0x00] then (Err ''socks5 greeting rejected'', s) else
     io_then (write_all (socks5_request host port) s) (\<lambda>_ s.
     io_then (read_exact 4 s) (\<lambda>header s.
     if header ! 1 \<noteq> 0 then (Err (''socks5 CONNECT failed with reply '' @ show_nat (unat (header ! 1))), s) else
     io_then
       (if header ! 3 = 0x01 then read_exact 4 s
        else if header ! 3 = 0x04 then read_exact 16 s
        else if header ! 3 = 0x03 then io_then (read_exact 1 s) (\<lambda>len s. read_exact (unat (len ! 0)) s)
        else (Err (''socks5 reply with unknown address type '' @ show_nat (unat (header ! 3))), s))
       (\<lambda>_ s. io_then (read_exact 2 s) (\<lambda>_ s. (Ok (), s)))))))"

text \<open>
  What a \<open>read\<close> returns, with the time since the start when it returns; no bytes is the end of the
  stream, and so is the end of the script.
\<close>

datatype read_event = Data duration string | Blocked duration | Interrupted duration | Failed string

record http_exchange =
  hx_status :: u16
  hx_body :: string

abbreviation CRLF2 :: string where "CRLF2 \<equiv> [CHR 13, CHR 10, CHR 13, CHR 10]"

definition after_read :: "duration \<Rightarrow> duration \<Rightarrow> string \<Rightarrow> (string \<Rightarrow> string res) \<Rightarrow> string res" where
  "after_read timeout now response k =
     (if 64 * 1024 < length response
      then Err (''egress response unexpectedly large ('' @ show_nat (length response) @ '' bytes)'')
      else if timeout < now then Err ''egress round trip timed out waiting for headers''
      else k response)"

fun read_response :: "duration \<Rightarrow> read_event list \<Rightarrow> string \<Rightarrow> string res" where
  "read_response timeout [] response = Ok response"
| "read_response timeout (ev # evs) response =
     (if contains_str CRLF2 response then Ok response
      else case ev of
        Data now [] \<Rightarrow> Ok response
      | Data now bs \<Rightarrow> after_read timeout now (response @ bs) (read_response timeout evs)
      | Blocked now \<Rightarrow> after_read timeout now response (read_response timeout evs)
      | Interrupted now \<Rightarrow> after_read timeout now response (read_response timeout evs)
      | Failed e \<Rightarrow> Err (''egress read failed: '' @ e))"

definition parse_exchange :: "string \<Rightarrow> http_exchange" where
  "parse_exchange response =
     (let text = from_utf8_lossy response;
          status_line = (case lines text of [] \<Rightarrow> [] | l # _ \<Rightarrow> l);
          header_end = unwrap_or (length text) (map_option (\<lambda>i. i + 4) (find_str CRLF2 text));
          body = drop header_end text;
          status = unwrap_or 0 (Option.bind (vec_get (split_whitespace status_line) 1)
            (\<lambda>code. map_option word_of_nat (parse_uint 10 65535 code)))
      in \<lparr>hx_status = status, hx_body = body\<rparr>)"

definition read_http_exchange :: "duration \<Rightarrow> read_event list \<Rightarrow> http_exchange res" where
  "read_http_exchange timeout evs = try_then (read_response timeout evs []) (\<lambda>r. Ok (parse_exchange r))"

text \<open>A whole dial: connect, handshake, TLS set-up, the request write and the answer.\<close>

record dial =
  dl_connect :: "unit res"
  dl_sock :: sock
  dl_tls :: "unit res"
  dl_request_write :: "unit res"
  dl_reads :: "read_event list"
  dl_elapsed :: duration

definition failed_check :: "egress_target \<Rightarrow> dial \<Rightarrow> string \<Rightarrow> target_check" where
  "failed_check target d detail = \<lparr>ck_tag = tg_tag target, ck_verified = False, ck_latency = dl_elapsed d,
     ck_status = 0, ck_detail = detail\<rparr>"

definition response_matches :: "egress_target \<Rightarrow> http_exchange \<Rightarrow> bool" where
  "response_matches target x = (hx_status x = tg_expect_status target
     \<and> unwrap_or True (map_option (\<lambda>needle. contains_str needle (hx_body x)) (tg_expect_body_contains target)))"

text \<open>The verdict on an exchange that was read.\<close>

definition judge :: "egress_target \<Rightarrow> duration \<Rightarrow> http_exchange \<Rightarrow> target_check" where
  "judge target latency x =
     (let ver = response_matches target x in
      \<lparr>ck_tag = tg_tag target, ck_verified = ver, ck_latency = latency, ck_status = hx_status x,
       ck_detail = (if ver then ''ok''
         else if hx_status x \<noteq> tg_expect_status target
         then ''expected status '' @ show_nat (unat (tg_expect_status target)) @ '', got '' @ show_nat (unat (hx_status x))
         else ''expected body containing '' @ (case tg_expect_body_contains target of None \<Rightarrow> ''None''
           | Some needle \<Rightarrow> ''Some('' @ [CHR 34] @ needle @ [CHR 34] @ '')''))\<rparr>)"

definition check_target :: "egress_target \<Rightarrow> duration \<Rightarrow> dial \<Rightarrow> target_check" where
  "check_target target timeout d =
     (case dl_connect d of Inl e \<Rightarrow> failed_check target d (''socks5 testbed unreachable: '' @ e) | Inr _ \<Rightarrow>
      (case fst (socks5_connect (tg_host target) (tg_port target) (dl_sock d)) of
         Inl e \<Rightarrow> failed_check target d (''socks5 CONNECT failed: '' @ e) | Inr _ \<Rightarrow>
       (case (if tg_tls target then dl_tls d else Ok ()) of
          Inl e \<Rightarrow> failed_check target d (''TLS setup failed: '' @ e) | Inr _ \<Rightarrow>
        (case dl_request_write d of Inl e \<Rightarrow> failed_check target d (''write failed: '' @ e) | Inr _ \<Rightarrow>
         (case read_http_exchange timeout (dl_reads d) of
            Inl e \<Rightarrow> failed_check target d e
          | Inr x \<Rightarrow> judge target (dl_elapsed d) x)))))"

definition strip_prefix :: "string \<Rightarrow> string \<Rightarrow> string option" where
  "strip_prefix p s = (if starts_with p s then Some (drop (length p) s) else None)"

fun rfind_char :: "char \<Rightarrow> string \<Rightarrow> nat option" where
  "rfind_char c [] = None"
| "rfind_char c (x # xs) = (case rfind_char c xs of Some i \<Rightarrow> Some (Suc i) | None \<Rightarrow> if x = c then Some 0 else None)"

definition split_target :: "string \<Rightarrow> (string \<times> u16) res" where
  "split_target target =
     (let rest = unwrap_or target (strip_prefix ''https://'' target) in
      case rfind_char (CHR '':'') rest of
        None \<Rightarrow> Err ''target must be host:port''
      | Some colon \<Rightarrow>
          (case parse_uint 10 65535 (drop (Suc colon) rest) of
             None \<Rightarrow> Err ''invalid target port''
           | Some port \<Rightarrow>
               (let host = trim_end_matches (CHR '']'') (trim_start_matches (CHR ''['') (take colon rest)) in
                if host = [] then Err ''target has an empty host'' else Ok (host, word_of_nat port))))"

definition generate_204_over_socks5 :: "string \<Rightarrow> duration \<Rightarrow> dial \<Rightarrow> egress_report res" where
  "generate_204_over_socks5 target timeout d =
     try_then (split_target target) (\<lambda>(host, port).
     try_then (map_err (\<lambda>e. ''cannot reach socks5 testbed: '' @ e) (dl_connect d)) (\<lambda>_.
     try_then (fst (socks5_connect host port (dl_sock d))) (\<lambda>_.
     try_then (dl_request_write d) (\<lambda>_.
     try_then (read_http_exchange timeout (dl_reads d)) (\<lambda>x.
     Ok \<lparr>er_round_trip = dl_elapsed d, er_verified = (hx_status x = 204 \<and> hx_body x = [])\<rparr>)))))"

section \<open>The scatter\<close>

text \<open>
  Worker threads share a counter: each fetches the next index, checks that target and sends the
  result, until the counter has passed the work list.
\<close>

datatype worker_phase = Fetching | Checking nat | Stopped

record scatter_run =
  sn_index :: nat
  sn_phase :: "nat \<Rightarrow> worker_phase"
  sn_sent :: "(nat \<times> target_check) list"

inductive scatter_step :: "nat \<Rightarrow> nat \<Rightarrow> (nat \<Rightarrow> target_check) \<Rightarrow> scatter_run \<Rightarrow> scatter_run \<Rightarrow> bool"
  for len workers chk where
  fetch: "\<lbrakk>w < workers; sn_phase s w = Fetching; sn_index s < len\<rbrakk> \<Longrightarrow>
    scatter_step len workers chk s
      (s\<lparr>sn_index := sn_index s + 1, sn_phase := (sn_phase s)(w := Checking (sn_index s))\<rparr>)"
| finish: "\<lbrakk>w < workers; sn_phase s w = Fetching; len \<le> sn_index s\<rbrakk> \<Longrightarrow>
    scatter_step len workers chk s
      (s\<lparr>sn_index := sn_index s + 1, sn_phase := (sn_phase s)(w := Stopped)\<rparr>)"
| send: "\<lbrakk>w < workers; sn_phase s w = Checking i\<rbrakk> \<Longrightarrow>
    scatter_step len workers chk s
      (s\<lparr>sn_sent := sn_sent s @ [(i, chk i)], sn_phase := (sn_phase s)(w := Fetching)\<rparr>)"

definition scatter_init :: scatter_run where
  "scatter_init = \<lparr>sn_index = 0, sn_phase = (\<lambda>_. Fetching), sn_sent = []\<rparr>"

text \<open>The receiving side: \<open>ordered[i] = Some(check)\<close> for each message.\<close>

definition gather :: "nat \<Rightarrow> (nat \<times> target_check) list \<Rightarrow> target_check option list" where
  "gather len sent = fold (\<lambda>(i, c) ordered. ordered[i := Some c]) sent (replicate len None)"

definition fold_report :: "egress_target list \<Rightarrow> nat \<Rightarrow> target_check list \<Rightarrow> scatter_report" where
  "fold_report work min_verified checks =
     (let quorum = length (filter (\<lambda>i. tg_quorum (work ! i) \<and> ck_verified (checks ! i)) [0..<length checks])
      in \<lparr>sr_checks = checks, sr_verified = length (filter ck_verified checks), sr_total = length work,
          sr_quorum_verified = quorum, sr_passes = (min_verified \<le> quorum)\<rparr>)"

text \<open>\<open>usize::clamp\<close> panics when its bounds are the wrong way round.\<close>

definition worker_count :: "nat \<Rightarrow> nat \<Rightarrow> nat option" where
  "worker_count len max_concurrency =
     (if max_concurrency < 1 then None else Some (max 1 (min len max_concurrency)))"

text \<open>
  The report of a scatter, with the checks in the order of the work list.  Theorem
  \<open>scatter_complete\<close> below shows that every run of the workers ends with exactly this list.
\<close>

definition scatter_over_testbed :: "u64 \<Rightarrow> scatter_config \<Rightarrow> (egress_target \<Rightarrow> target_check) \<Rightarrow> scatter_report option" where
  "scatter_over_testbed seed cfg check =
     (let work = sample_targets seed cfg in
      case worker_count (length work) (sc_max_concurrency cfg) of
        None \<Rightarrow> None
      | Some workers \<Rightarrow> Some (fold_report work (sc_min_verified cfg) (map check work)))"

section \<open>Lemmas\<close>

lemma length_swap [simp]: "length (swap i j xs) = length xs"
  by (simp add: swap_def)

lemma mset_swap_idx: "i < length xs \<Longrightarrow> j < length xs \<Longrightarrow> mset (swap i j xs) = mset xs"
  by (simp add: swap_def mset_swap)

lemma mset_shuffle_loop:
  "i + todo \<le> length xs \<Longrightarrow> mset (shuffle_loop i todo seed xs) = mset xs"
proof (induction i todo seed xs rule: shuffle_loop.induct)
  case (2 i todo seed xs)
  let ?j = "i + unat (xorshift64_star seed) mod (length xs - i)"
  have "0 < length xs - i" using 2 by simp
  then have "unat (xorshift64_star seed) mod (length xs - i) < length xs - i" by (rule mod_less_divisor)
  then have "mset (swap i ?j xs) = mset xs" using 2 by (intro mset_swap_idx) linarith+
  with 2 show ?case by (simp add: Let_def)
qed simp

lemma shuffle_indices_props:
  "distinct (shuffle_indices len n seed)" "set (shuffle_indices len n seed) \<subseteq> {0..<len}"
  "length (shuffle_indices len n seed) = min n len"
proof -
  define xs where "xs = shuffle_loop 0 (min n len) (if seed = 0 then 0x9e3779b97f4a7c15 else seed) [0..<len]"
  have eq: "shuffle_indices len n seed = (if n = 0 \<or> len = 0 then [] else take (min n len) xs)"
    unfolding shuffle_indices_def Let_def xs_def by (rule refl)
  have "mset xs = mset [0..<len]" unfolding xs_def by (rule mset_shuffle_loop) simp
  then have xs: "distinct xs" "set xs = {0..<len}" "length xs = len"
    using mset_eq_setD[of xs "[0..<len]"] mset_eq_imp_distinct_iff[of xs "[0..<len]"]
      mset_eq_length[of xs "[0..<len]"] by auto
  then show "distinct (shuffle_indices len n seed)" "length (shuffle_indices len n seed) = min n len"
    by (auto simp: eq)
  show "set (shuffle_indices len n seed) \<subseteq> {0..<len}"
    using xs(2) by (auto simp: eq dest: set_take_D)
qed

lemma distinct_sample_sites: "distinct sites \<Longrightarrow> distinct (sample_sites seed sites n)"
  using shuffle_indices_props[of "length sites" n seed]
  by (auto simp: sample_sites_def distinct_map inj_on_def nth_eq_iff_index_eq subset_iff)

lemma set_sample_sites: "set (sample_sites seed sites n) \<subseteq> set sites"
  using shuffle_indices_props(2)[of "length sites" n seed] by (auto simp: sample_sites_def)

subsection \<open>Runs of the workers\<close>

definition scatter_inv :: "nat \<Rightarrow> nat \<Rightarrow> (nat \<Rightarrow> target_check) \<Rightarrow> scatter_run \<Rightarrow> bool" where
  "scatter_inv len workers chk s \<longleftrightarrow>
     distinct (map fst (sn_sent s))
     \<and> (\<forall>i c. (i, c) \<in> set (sn_sent s) \<longrightarrow> i < len \<and> i < sn_index s \<and> c = chk i)
     \<and> (\<forall>w i. sn_phase s w = Checking i \<longrightarrow> i < len \<and> i < sn_index s \<and> i \<notin> fst ` set (sn_sent s)
           \<and> (\<forall>w'. sn_phase s w' = Checking i \<longrightarrow> w' = w))
     \<and> (\<forall>i < min (sn_index s) len. i \<in> fst ` set (sn_sent s) \<or> (\<exists>w < workers. sn_phase s w = Checking i))
     \<and> (\<forall>w. sn_phase s w = Stopped \<longrightarrow> len \<le> sn_index s)"

lemma scatter_inv_init: "scatter_inv len workers chk scatter_init"
  by (simp add: scatter_inv_def scatter_init_def)

lemma scatter_inv_step:
  assumes "scatter_step len workers chk s s'" "scatter_inv len workers chk s"
  shows "scatter_inv len workers chk s'"
  using assms
proof (cases rule: scatter_step.cases)
  case (fetch w)
  have sent: "i < sn_index s" if "i \<in> fst ` set (sn_sent s)" for i
    using that assms(2) by (force simp: scatter_inv_def)
  have held: "i < sn_index s" if "sn_phase s w' = Checking i" for w' i
    using that assms(2) by (simp add: scatter_inv_def)
  have ph: "sn_phase s' = (sn_phase s)(w := Checking (sn_index s))" "sn_index s' = Suc (sn_index s)"
    "sn_sent s' = sn_sent s" using fetch by simp_all
  have one: "\<forall>v i. sn_phase s v = Checking i \<longrightarrow> i < len \<and> i < sn_index s \<and> i \<notin> fst ` set (sn_sent s)
           \<and> (\<forall>w'. sn_phase s w' = Checking i \<longrightarrow> w' = v)"
    and all: "\<forall>i < min (sn_index s) len. i \<in> fst ` set (sn_sent s) \<or> (\<exists>v < workers. sn_phase s v = Checking i)"
    using assms(2) by (simp_all add: scatter_inv_def)
  have one': "i < len \<and> i < sn_index s' \<and> i \<notin> fst ` set (sn_sent s') \<and> (\<forall>w'. sn_phase s' w' = Checking i \<longrightarrow> w' = v)"
    if v: "sn_phase s' v = Checking i" for v i
  proof (cases "v = w")
    case True
    then have "i = sn_index s" using v by (simp add: ph)
    then show ?thesis using True fetch(4) sent held by (auto simp: ph)
  next
    case False
    then have old: "sn_phase s v = Checking i" using v by (simp add: ph)
    then have "i \<noteq> sn_index s" using held by blast
    with old one show ?thesis by (auto simp: ph less_SucI)
  qed
  have all': "i \<in> fst ` set (sn_sent s') \<or> (\<exists>v < workers. sn_phase s' v = Checking i)"
    if "i < min (sn_index s') len" for i
  proof (cases "i = sn_index s")
    case True
    with fetch(2) show ?thesis by (auto simp: ph)
  next
    case False
    then have "i \<in> fst ` set (sn_sent s) \<or> (\<exists>v < workers. sn_phase s v = Checking i)"
      using that all by (simp add: ph)
    moreover have "sn_phase s v = Checking i \<Longrightarrow> v \<noteq> w" for v using fetch(3) by auto
    ultimately show ?thesis by (auto simp: ph)
  qed
  have rest: "distinct (map fst (sn_sent s'))"
    "\<forall>i c. (i, c) \<in> set (sn_sent s') \<longrightarrow> i < len \<and> i < sn_index s' \<and> c = chk i"
    using assms(2) by (auto simp: scatter_inv_def ph less_SucI)
  have stop: "sn_phase s' v = Stopped \<longrightarrow> len \<le> sn_index s'" for v
    using assms(2) by (auto simp: scatter_inv_def ph le_SucI)
  show ?thesis unfolding scatter_inv_def using rest one' all' stop by blast
next
  case (finish w)
  then show ?thesis using assms(2) unfolding scatter_inv_def
    by (auto simp: less_Suc_eq) (metis worker_phase.distinct(1))
next
  case (send w i)
  have ph: "sn_phase s' = (sn_phase s)(w := Fetching)" "sn_index s' = sn_index s"
    "sn_sent s' = sn_sent s @ [(i, chk i)]" using send by simp_all
  have one: "\<forall>v i. sn_phase s v = Checking i \<longrightarrow> i < len \<and> i < sn_index s \<and> i \<notin> fst ` set (sn_sent s)
           \<and> (\<forall>w'. sn_phase s w' = Checking i \<longrightarrow> w' = v)"
    and all: "\<forall>i < min (sn_index s) len. i \<in> fst ` set (sn_sent s) \<or> (\<exists>v < workers. sn_phase s v = Checking i)"
    using assms(2) by (simp_all add: scatter_inv_def)
  have own: "i < len" "i < sn_index s" "i \<notin> fst ` set (sn_sent s)" using one send(3) by blast+
  have one': "j < len \<and> j < sn_index s' \<and> j \<notin> fst ` set (sn_sent s') \<and> (\<forall>w'. sn_phase s' w' = Checking j \<longrightarrow> w' = v)"
    if v: "sn_phase s' v = Checking j" for v j
  proof -
    have old: "sn_phase s v = Checking j" "v \<noteq> w" using v by (auto simp: ph split: if_splits)
    then have "j \<noteq> i" using one send(3) by blast
    with old one show ?thesis by (auto simp: ph)
  qed
  have all': "j \<in> fst ` set (sn_sent s') \<or> (\<exists>v < workers. sn_phase s' v = Checking j)"
    if "j < min (sn_index s') len" for j
  proof (cases "j = i")
    case False
    have "j \<in> fst ` set (sn_sent s) \<or> (\<exists>v < workers. sn_phase s v = Checking j)"
      using that all by (simp add: ph)
    moreover have "sn_phase s v = Checking j \<Longrightarrow> v \<noteq> w" for v using False send(3) by auto
    ultimately show ?thesis by (auto simp: ph)
  qed (simp add: ph)
  have rest: "distinct (map fst (sn_sent s'))"
    "\<forall>i c. (i, c) \<in> set (sn_sent s') \<longrightarrow> i < len \<and> i < sn_index s' \<and> c = chk i"
    using assms(2) own by (auto simp: scatter_inv_def ph)
  have stop: "sn_phase s' v = Stopped \<longrightarrow> len \<le> sn_index s'" for v
    using assms(2) by (auto simp: scatter_inv_def ph)
  show ?thesis unfolding scatter_inv_def using rest one' all' stop by blast
qed

lemma scatter_inv_run: "(scatter_step len workers chk ^^ n) scatter_init s \<Longrightarrow> scatter_inv len workers chk s"
  by (induction n arbitrary: s) (auto intro: scatter_inv_init scatter_inv_step)

fun phase_weight :: "worker_phase \<Rightarrow> nat" where
  "phase_weight Fetching = 1"
| "phase_weight (Checking i) = 2"
| "phase_weight Stopped = 0"

definition work_left :: "nat \<Rightarrow> nat \<Rightarrow> scatter_run \<Rightarrow> nat" where
  "work_left len workers s = 2 * (len - sn_index s) + (\<Sum>w < workers. phase_weight (sn_phase s w))"

lemma sum_phase_upd:
  fixes f :: "nat \<Rightarrow> worker_phase"
  assumes "w < n"
  shows "(\<Sum>v < n. phase_weight ((f(w := p)) v)) + phase_weight (f w) = (\<Sum>v < n. phase_weight (f v)) + phase_weight p"
proof -
  have "(\<Sum>v < n. phase_weight (g v)) = phase_weight (g w) + (\<Sum>v \<in> {..<n} - {w}. phase_weight (g v))" for g
    using assms by (simp add: sum.remove)
  then show ?thesis by simp
qed

lemma work_left_step: "scatter_step len workers chk s s' \<Longrightarrow> Suc (work_left len workers s') \<le> work_left len workers s"
proof (induction rule: scatter_step.induct)
  case (fetch w s)
  then show ?case using sum_phase_upd[of w workers "sn_phase s" "Checking (sn_index s)"]
    by (simp add: work_left_def)
next
  case (finish w s)
  then show ?case using sum_phase_upd[of w workers "sn_phase s" Stopped] by (simp add: work_left_def)
next
  case (send w s i)
  then show ?case using sum_phase_upd[of w workers "sn_phase s" Fetching] by (simp add: work_left_def)
qed

lemma work_left_run: "(scatter_step len workers chk ^^ n) s s' \<Longrightarrow> n + work_left len workers s' \<le> work_left len workers s"
proof (induction n arbitrary: s')
  case (Suc n)
  then obtain t where "(scatter_step len workers chk ^^ n) s t" "scatter_step len workers chk t s'" by auto
  with Suc.IH[of t] work_left_step[of len workers chk t s'] show ?case by simp
qed simp

lemma work_left_init: "work_left len workers scatter_init = 2 * len + workers"
  by (simp add: work_left_def scatter_init_def)

lemma scatter_stuck:
  assumes "\<nexists>s'. scatter_step len workers chk s s'" "w < workers"
  shows "sn_phase s w = Stopped"
proof (cases "sn_phase s w")
  case Fetching
  then show ?thesis
    using assms scatter_step.fetch[of w workers s len chk] scatter_step.finish[of w workers s len chk]
    by (meson not_le)
next
  case (Checking i)
  then show ?thesis using assms scatter_step.send[of w workers s i len chk] by blast
qed

lemma gather_snoc: "gather len (sent @ [(i, c)]) = (gather len sent)[i := Some c]"
  by (simp add: gather_def)

lemma length_gather [simp]: "length (gather len sent) = len"
proof -
  have "length (fold (\<lambda>(i, c) ordered. ordered[i := Some c]) sent xs) = length xs" for xs :: "target_check option list"
    by (induction sent arbitrary: xs) auto
  then show ?thesis by (simp add: gather_def)
qed

lemma gather_nth:
  "\<lbrakk>i < len; \<And>j c. (j, c) \<in> set sent \<Longrightarrow> c = chk j\<rbrakk> \<Longrightarrow>
   gather len sent ! i = (if i \<in> fst ` set sent then Some (chk i) else None)"
proof (induction sent rule: rev_induct)
  case Nil
  then show ?case by (simp add: gather_def)
next
  case (snoc x sent)
  obtain j c where x: "x = (j, c)" by fastforce
  then have c: "c = chk j" by (intro snoc.prems(2)) simp
  have "gather len sent ! i = (if i \<in> fst ` set sent then Some (chk i) else None)"
    by (rule snoc.IH[OF snoc.prems(1)]) (rule snoc.prems(2), simp)
  with snoc.prems(1) show ?case by (cases "i = j") (simp_all add: x c gather_snoc)
qed

lemma fold_report_quorum:
  assumes "length checks = length work"
  shows "sr_quorum_verified (fold_report work m checks)
    = length (filter (\<lambda>(t, c). tg_quorum t \<and> ck_verified c) (zip work checks))"
proof -
  have "zip work checks = map (\<lambda>i. (work ! i, checks ! i)) [0..<length checks]"
    using assms by (intro nth_equalityI) simp_all
  then show ?thesis by (simp add: fold_report_def Let_def filter_map comp_def)
qed

lemma check_verified:
  "ck_verified (check_target target timeout d) \<longleftrightarrow>
     dl_connect d = Ok () \<and> fst (socks5_connect (tg_host target) (tg_port target) (dl_sock d)) = Ok ()
     \<and> (if tg_tls target then dl_tls d = Ok () else True) \<and> dl_request_write d = Ok ()
     \<and> (\<exists>response. read_response timeout (dl_reads d) [] = Ok response
          \<and> hx_status (parse_exchange response) = tg_expect_status target
          \<and> (case tg_expect_body_contains target of None \<Rightarrow> True
             | Some needle \<Rightarrow> contains_str needle (hx_body (parse_exchange response))))"
  by (cases "tg_expect_body_contains target")
     (auto simp: check_target_def judge_def failed_check_def read_http_exchange_def response_matches_def Let_def
      split: sum.splits if_splits)

section \<open>Properties\<close>

text \<open>
  Claim C7.  The worker pool is correct: however the workers interleave, a run takes at most twice
  the number of targets plus the number of workers steps, and when no worker can go on, every
  target has been checked exactly once and the collected list holds the checks in the order of
  the targets with none missing, so the report is the one of a sequential scan.
\<close>

theorem scatter_complete:
  assumes "0 < workers" and "(scatter_step len workers chk ^^ n) scatter_init s"
  shows "n \<le> 2 * len + workers
    \<and> ((\<nexists>s'. scatter_step len workers chk s s') \<longrightarrow>
         gather len (sn_sent s) = map (\<lambda>i. Some (chk i)) [0..<len] \<and> distinct (map fst (sn_sent s)))"
proof (intro conjI impI)
  show "n \<le> 2 * len + workers"
    using work_left_run[OF assms(2)] by (simp add: work_left_init)
next
  assume stuck: "\<nexists>s'. scatter_step len workers chk s s'"
  have inv: "scatter_inv len workers chk s" using assms(2) by (rule scatter_inv_run)
  have stop: "\<forall>w < workers. sn_phase s w = Stopped" using scatter_stuck[OF stuck] by blast
  then have "len \<le> sn_index s" using inv assms(1) by (auto simp: scatter_inv_def)
  then have "\<forall>i < len. i \<in> fst ` set (sn_sent s)"
    using inv stop unfolding scatter_inv_def by (metis min.absorb2 worker_phase.distinct(5))
  moreover have "(j, c) \<in> set (sn_sent s) \<Longrightarrow> c = chk j" for j c
    using inv by (simp add: scatter_inv_def)
  ultimately show "gather len (sn_sent s) = map (\<lambda>i. Some (chk i)) [0..<len]"
    by (intro nth_equalityI) (simp_all add: gather_nth[where chk = chk])
  show "distinct (map fst (sn_sent s))" using inv by (simp add: scatter_inv_def)
qed

definition sample_check :: "nat \<Rightarrow> target_check" where
  "sample_check i = \<lparr>ck_tag = show_nat i, ck_verified = True, ck_latency = i, ck_status = 204, ck_detail = ''ok''\<rparr>"

lemma sample_scatter_run:
  "(scatter_step 1 1 sample_check ^^ 3) scatter_init
     \<lparr>sn_index = 2, sn_phase = (\<lambda>_. Fetching)(0 := Stopped), sn_sent = [(0, sample_check 0)]\<rparr>"
proof -
  let ?S = "scatter_step 1 1 sample_check"
  have 1: "?S scatter_init \<lparr>sn_index = 1, sn_phase = (\<lambda>_. Fetching)(0 := Checking 0), sn_sent = []\<rparr>"
    using scatter_step.fetch[of 0 1 scatter_init 1 sample_check] by (simp add: scatter_init_def)
  have 2: "?S \<lparr>sn_index = 1, sn_phase = (\<lambda>_. Fetching)(0 := Checking 0), sn_sent = []\<rparr>
      \<lparr>sn_index = 1, sn_phase = (\<lambda>_. Fetching)(0 := Fetching), sn_sent = [(0, sample_check 0)]\<rparr>"
    using scatter_step.send[of 0 1 "\<lparr>sn_index = 1, sn_phase = (\<lambda>_. Fetching)(0 := Checking 0), sn_sent = []\<rparr>" 0 1 sample_check]
    by simp
  have 3: "?S \<lparr>sn_index = 1, sn_phase = (\<lambda>_. Fetching)(0 := Fetching), sn_sent = [(0, sample_check 0)]\<rparr>
      \<lparr>sn_index = 2, sn_phase = (\<lambda>_. Fetching)(0 := Stopped), sn_sent = [(0, sample_check 0)]\<rparr>"
    using scatter_step.finish[of 0 1 "\<lparr>sn_index = 1, sn_phase = (\<lambda>_. Fetching)(0 := Fetching), sn_sent = [(0, sample_check 0)]\<rparr>" 1 sample_check]
    by (simp add: numeral_2_eq_2)
  from 1 2 3 show ?thesis unfolding numeral_3_eq_3 by (auto simp: relcompp_apply)
qed

theorem scatter_complete_witness:
  "gather 1 (sn_sent \<lparr>sn_index = 2, sn_phase = (\<lambda>_. Fetching)(0 := Stopped), sn_sent = [(0, sample_check 0)]\<rparr>)
     = map (\<lambda>i. Some (sample_check i)) [0..<1]"
proof -
  let ?s = "\<lparr>sn_index = 2, sn_phase = (\<lambda>_. Fetching)(0 := Stopped), sn_sent = [(0, sample_check 0)]\<rparr>"
  have "\<nexists>s'. scatter_step 1 1 sample_check ?s s'"
    by (auto elim!: scatter_step.cases)
  with scatter_complete[OF _ sample_scatter_run] show ?thesis by simp
qed

text \<open>
  Claim C8.  The verdict of a scatter: with at least one worker allowed, the report covers every
  operator and the sampled noise sites, at most the asked number of them, distinct and from the
  pool; it passes exactly when enough of the targets marked for the quorum verified, and checks
  of noise sites never count.
\<close>

theorem scatter_verdict:
  assumes "scatter_over_testbed seed cfg check = Some r"
    and "list_all tg_quorum (sc_operators cfg)" and "list_all (\<lambda>t. \<not> tg_quorum t) (sc_real_sites cfg)"
  shows "\<exists>noise. set noise \<subseteq> set (sc_real_sites cfg)
      \<and> length noise = min (sc_real_count cfg) (length (sc_real_sites cfg))
      \<and> (distinct (sc_real_sites cfg) \<longrightarrow> distinct noise)
      \<and> sr_checks r = map check (sc_operators cfg @ noise)
      \<and> sr_quorum_verified r = length (filter (\<lambda>t. ck_verified (check t)) (sc_operators cfg))
      \<and> (sr_passes r \<longleftrightarrow> sc_min_verified cfg \<le> length (filter (\<lambda>t. ck_verified (check t)) (sc_operators cfg)))"
proof -
  define noise where "noise = sample_sites seed (sc_real_sites cfg) (sc_real_count cfg)"
  let ?work = "sc_operators cfg @ noise"
  have r: "r = fold_report ?work (sc_min_verified cfg) (map check ?work)"
    using assms(1) by (auto simp: scatter_over_testbed_def sample_targets_def noise_def Let_def split: option.splits)
  have sub: "set noise \<subseteq> set (sc_real_sites cfg)" unfolding noise_def by (rule set_sample_sites)
  then have off: "\<forall>t \<in> set noise. \<not> tg_quorum t" using assms(3) by (auto simp: list_all_iff)
  have "zip ?work (map check ?work) = map (\<lambda>t. (t, check t)) ?work" by (simp add: zip_map2 zip_same_conv_map)
  then have "sr_quorum_verified r = length (filter (\<lambda>t. tg_quorum t \<and> ck_verified (check t)) ?work)"
    unfolding r by (subst fold_report_quorum) (simp_all add: filter_map comp_def)
  also have "\<dots> = length (filter (\<lambda>t. ck_verified (check t)) (sc_operators cfg))"
    using off assms(2) by (simp add: list_all_iff cong: filter_cong)
  finally have q: "sr_quorum_verified r = \<dots>" .
  moreover have "sr_passes r \<longleftrightarrow> sc_min_verified cfg \<le> sr_quorum_verified r"
    by (simp add: r fold_report_def Let_def)
  moreover have "sr_checks r = map check ?work" by (simp add: r fold_report_def Let_def)
  moreover have "length noise = min (sc_real_count cfg) (length (sc_real_sites cfg))"
    by (simp add: noise_def sample_sites_def shuffle_indices_props(3))
  moreover have "distinct (sc_real_sites cfg) \<longrightarrow> distinct noise"
    by (simp add: noise_def distinct_sample_sites)
  ultimately show ?thesis using sub by (intro exI[of _ noise]) simp
qed

definition sample_dial :: "read_event list \<Rightarrow> dial" where
  "sample_dial evs = \<lparr>dl_connect = Ok (), dl_sock = \<lparr>so_in = [5, 0, 5, 0, 0, 1, 0, 0, 0, 0, 0, 0], so_writes = [], so_out = []\<rparr>,
     dl_tls = Ok (), dl_request_write = Ok (), dl_reads = evs, dl_elapsed = 9\<rparr>"

theorem scatter_verdict_witness:
  "\<exists>r noise. scatter_over_testbed 1 ScatterConfig_default (\<lambda>t. sample_check 0) = Some r
     \<and> sr_checks r = map (\<lambda>t. sample_check 0) (EGRESS_TARGETS @ noise) \<and> length noise = 2
     \<and> sr_quorum_verified r = 9 \<and> sr_passes r"
proof -
  let ?check = "\<lambda>t :: egress_target. sample_check 0"
  obtain r where r: "scatter_over_testbed 1 ScatterConfig_default ?check = Some r"
    by (simp add: scatter_over_testbed_def Let_def worker_count_def ScatterConfig_default_def)
  have "list_all tg_quorum (sc_operators ScatterConfig_default)"
    "list_all (\<lambda>t. \<not> tg_quorum t) (sc_real_sites ScatterConfig_default)"
    by (simp_all add: ScatterConfig_default_def EGRESS_TARGETS_def REAL_SITE_TARGETS_def operator_def real_site_def)
  note v = scatter_verdict[OF r this]
  have cfg: "sc_operators ScatterConfig_default = EGRESS_TARGETS" "sc_real_count ScatterConfig_default = 2"
    "sc_real_sites ScatterConfig_default = REAL_SITE_TARGETS" "sc_min_verified ScatterConfig_default = 2"
    by (simp_all add: ScatterConfig_default_def)
  have len: "length REAL_SITE_TARGETS = 8" "length EGRESS_TARGETS = 9"
    by (simp_all add: REAL_SITE_TARGETS_def EGRESS_TARGETS_def)
  have "ck_verified (sample_check 0)" by (simp add: sample_check_def)
  with v obtain noise where "sr_checks r = map ?check (EGRESS_TARGETS @ noise)" "length noise = 2"
    "sr_quorum_verified r = 9" "sr_passes r"
    unfolding cfg by (auto simp: len)
  with r show ?thesis by blast
qed

text \<open>
  What verifies: a check counts as verified exactly when the dial, the handshake, the
  TLS set-up where the target asks for it and the request write succeeded and the answer read has
  the expected status and contains the expected text; in every other case it fails with a reason,
  and the check never ends without a verdict.
\<close>

theorem check_target_verified_iff:
  "ck_verified (check_target target timeout d) \<longleftrightarrow>
     dl_connect d = Ok () \<and> fst (socks5_connect (tg_host target) (tg_port target) (dl_sock d)) = Ok ()
     \<and> (if tg_tls target then dl_tls d = Ok () else True) \<and> dl_request_write d = Ok ()
     \<and> (\<exists>response. read_response timeout (dl_reads d) [] = Ok response
          \<and> hx_status (parse_exchange response) = tg_expect_status target
          \<and> (case tg_expect_body_contains target of None \<Rightarrow> True
             | Some needle \<Rightarrow> \<exists>a b. hx_body (parse_exchange response) = a @ needle @ b))"
  unfolding check_verified contains_str_iff by (rule refl)

definition online_headers :: string where
  "online_headers = ''HTTP/1.1 200 OK'' @ CRLF2"

definition online_target :: egress_target where
  "online_target = operator ''d'' ''n'' ''/nm'' 80 False 200 (Some ''online'')"

lemmas parse_eval = parse_exchange_def Let_def from_utf8_lossy_ascii is_ascii_def lines_def strip_cr_def
  starts_with_def split_whitespace_def ws1_def ws2_def parse_uint_def to_digit_def is_ascii_digit_def vec_get_def

lemma parse_online:
  "parse_exchange (online_headers @ ''online'') = \<lparr>hx_status = 200, hx_body = ''online''\<rparr>"
  "parse_exchange online_headers = \<lparr>hx_status = 200, hx_body = []\<rparr>"
  by (simp_all add: parse_eval online_headers_def del: from_utf8_lossy.simps)

lemma read_response_one:
  "\<lbrakk>bs \<noteq> []; contains_str CRLF2 bs; length bs \<le> 64 * 1024; now \<le> t; evs \<noteq> []\<rbrakk> \<Longrightarrow>
     read_response t (Data now bs # evs) [] = Ok bs"
  by (cases bs; cases evs) (simp_all add: after_read_def)

lemma sample_dial_connects: "fst (socks5_connect ''n'' 80 (dl_sock (sample_dial evs))) = Ok ()"
  by (simp add: socks5_connect_def sample_dial_def io_then_def write_all_def read_exact_def)

text \<open>
  The answer is read only up to the end of its header block, so the body that is
  compared is what happened to arrive in the same read: the same bytes verify when they come in
  one piece and fail when the body comes in a second one.
\<close>

theorem body_check_depends_on_chunking:
  "ck_verified (check_target online_target 100 (sample_dial [Data 3 (online_headers @ ''online''), Data 5 []]))
   \<and> \<not> ck_verified (check_target online_target 100 (sample_dial [Data 3 online_headers, Data 5 ''online'', Data 7 []]))"
proof -
  have c: "contains_str CRLF2 (online_headers @ t)" for t
    by (simp add: online_headers_def starts_with_def)
  have rd: "read_response 100 (Data 3 (online_headers @ t) # evs) [] = Ok (online_headers @ t)"
    if "length t < 100" "evs \<noteq> []" for t evs
    using that c[of t] by (intro read_response_one) (simp_all add: online_headers_def)
  have rd0: "read_response 100 [Data 3 online_headers, Data 5 ''online'', Data 7 []] [] = Ok online_headers"
    using rd[of "[]"] unfolding append_Nil2 by simp
  show ?thesis
    unfolding check_verified online_target_def operator_def
    by (simp add: sample_dial_connects del: read_response.simps)
       (simp add: sample_dial_def rd rd0 parse_online starts_with_def del: read_response.simps)
qed

lemma xor_push_zero:
  fixes a :: "'a::len word"
  assumes "a XOR push_bit k a = 0" "0 < k"
  shows "a = 0"
proof -
  have eq: "a = push_bit k a" using assms(1) by (metis xor.right_neutral xor.assoc xor_self_eq)
  have "\<not> bit a n" for n
  proof (induction n rule: less_induct)
    case (less n)
    have "bit a n \<longleftrightarrow> k \<le> n \<and> n < LENGTH('a) \<and> bit a (n - k)"
      by (subst eq) (auto simp: bit_push_bit_iff)
    with less assms(2) show ?case by simp
  qed
  then show ?thesis by (simp add: bit_eq_iff)
qed

lemma xor_drop_zero:
  fixes a :: "'a::len word"
  assumes "a XOR drop_bit k a = 0" "0 < k"
  shows "a = 0"
proof -
  have eq: "a = drop_bit k a" using assms(1) by (metis xor.right_neutral xor.assoc xor_self_eq)
  have "\<not> bit a (LENGTH('a) - m)" for m
  proof (induction m rule: less_induct)
    case (less m)
    have step: "bit a n \<longleftrightarrow> bit a (k + n)" for n by (subst eq) (simp add: bit_drop_bit_eq)
    show ?case
    proof (cases "m \<le> LENGTH('a) \<and> k \<le> m")
      case True
      then have "k + (LENGTH('a) - m) = LENGTH('a) - (m - k)" by simp
      with less.IH[of "m - k"] True assms(2) step[of "LENGTH('a) - m"] show ?thesis by simp
    next
      case False
      show ?thesis
      proof (cases "m \<le> LENGTH('a)")
        case True
        with False have "LENGTH('a) \<le> k + (LENGTH('a) - m)" by simp
        then show ?thesis using step[of "LENGTH('a) - m"] by (metis bit_imp_le_length not_le)
      next
        case m: False
        with less.IH[of "LENGTH('a)"] show ?thesis by simp
      qed
    qed
  qed
  then have "\<not> bit a n" for n
    by (metis bit_imp_le_length diff_diff_cancel less_imp_le)
  then show ?thesis by (simp add: bit_eq_iff)
qed

lemma odd_mult_zero:
  fixes a c :: "'a::len word"
  assumes "a * c = 0" "odd c"
  shows "a = 0"
proof -
  have "(2 :: nat) ^ LENGTH('a) dvd unat a * unat c"
    using assms(1) by (metis mod_0_imp_dvd unat_0 unat_word_ariths(2))
  moreover have "odd (unat c)" using assms(2) by (simp add: bit_unsigned_iff flip: bit_0)
  then have "coprime ((2 :: nat) ^ LENGTH('a)) (unat c)" by simp
  ultimately have "(2 :: nat) ^ LENGTH('a) dvd unat a"
    by (simp add: coprime_dvd_mult_left_iff)
  then have "unat a = 0" using unsigned_less[of a] by (metis dvd_imp_le not_le not_gr_zero)
  then show ?thesis by (simp add: unat_eq_0)
qed

text \<open>
  The generator never collapses: zero is its only way to zero, so from the seeds that
  \<open>shuffle_indices\<close> lets through the state stays different from zero for ever.  (The
  multiplication does not remove the fixed point at zero, contrary to its comment; the guard in
  \<open>shuffle_indices\<close> does.)
\<close>

theorem xorshift64_star_zero_iff: "xorshift64_star s = 0 \<longleftrightarrow> s = 0"
proof
  assume z: "xorshift64_star s = 0"
  define s1 where "s1 = s XOR push_bit 12 s"
  define s2 where "s2 = s1 XOR drop_bit 25 s1"
  have "(s2 XOR push_bit 27 s2) * 0x2545f4914f6cdd1d = 0"
    using z by (simp add: xorshift64_star_def Let_def s1_def s2_def)
  then have "s2 XOR push_bit 27 s2 = 0" by (rule odd_mult_zero) simp
  then have "s2 = 0" by (rule xor_push_zero) simp
  then have "s1 = 0" unfolding s2_def by (rule xor_drop_zero) simp
  then show "s = 0" unfolding s1_def by (rule xor_push_zero) simp
qed (simp add: xorshift64_star_def Let_def)

end
