(* ===== verification/Failover.thy ===== *)
theory Failover
  imports Auto_Select Egress
begin

text \<open>
  The egress watchdog, \<open>crates/controller/src/proxy_controller.rs\<close> from line 676: one cycle of the
  failover engine and the helpers it calls.  The engine reads the controller through \<open>'w
  controller\<close> and acts through \<open>'w hooks\<close>, as the code does; \<open>'w\<close> is the state of the world the
  hooks run in and is threaded through every call in program order.  A result on the left is a
  panic (an index outside the catalog).
\<close>

section \<open>Configuration, actions, status\<close>

record failover_config =
  fc_interval :: duration
  fc_required_consecutive_failures :: nat
  fc_min_time_since_manual_switch :: duration
  fc_cooldown_after_auto_switch :: duration
  fc_rescore_limit :: nat
  fc_background_rescore_cycles :: u32
  fc_quiet_hours_utc :: "(u8 \<times> u8) option"
  fc_tunnel_health_floor :: "nat option"
  fc_auto_select_on_idle :: bool

definition FailoverConfig_default :: failover_config where
  "FailoverConfig_default = \<lparr>fc_interval = from_secs 180, fc_required_consecutive_failures = 2,
     fc_min_time_since_manual_switch = from_secs 300, fc_cooldown_after_auto_switch = from_secs 300,
     fc_rescore_limit = 8, fc_background_rescore_cycles = 4, fc_quiet_hours_utc = None,
     fc_tunnel_health_floor = Some 35, fc_auto_select_on_idle = True\<rparr>"

datatype failover_action =
    Healthy
  | Inspecting nat
  | Rearmed nat
  | Switched string
  | AdoptedNode string
  | Unconfirmed
  | Degraded
  | Healed string
  | ManualWindow
  | Cooldown
  | IdleAction
  | ErrorAction string

fun is_intervention :: "failover_action \<Rightarrow> bool" where
  "is_intervention (Switched l) = True"
| "is_intervention (AdoptedNode l) = True"
| "is_intervention Degraded = True"
| "is_intervention (Healed l) = True"
| "is_intervention _ = False"

record failover_status =
  fs_active_node :: "string option"
  fs_degraded :: bool
  fs_consecutive_failures :: nat
  fs_last_action :: "failover_action option"
  fs_last_action_at :: "instant option"
  fs_shortlist :: "candidate_score list"
  fs_cycles_since_rescore :: u32
  fs_selector :: auto_selector

definition FailoverStatus_default :: failover_status where
  "FailoverStatus_default = \<lparr>fs_active_node = None, fs_degraded = False, fs_consecutive_failures = 0,
     fs_last_action = None, fs_last_action_at = None, fs_shortlist = [], fs_cycles_since_rescore = 0,
     fs_selector = AutoSelector_new AutoSelectConfig_default\<rparr>"

section \<open>What the engine sees of the controller and what it may do\<close>

record 'w controller =
  ct_scatter_config :: "'w \<Rightarrow> scatter_config"
  ct_active_node :: "'w \<Rightarrow> canonical_node option"
  ct_is_degraded :: "'w \<Rightarrow> bool"
  ct_last_manual_switch :: "'w \<Rightarrow> instant option"
  ct_last_auto_switch :: "'w \<Rightarrow> instant option"
  ct_load_probe_targets :: "'w \<Rightarrow> (u32 \<times> canonical_node) list res"
  ct_now :: "'w \<Rightarrow> instant"
  ct_utc_secs :: "'w \<Rightarrow> nat"

record 'w hooks =
  hk_probe :: "canonical_node \<Rightarrow> scatter_config \<Rightarrow> 'w \<Rightarrow> scatter_report res \<times> 'w"
  hk_rescore :: "canonical_node list \<Rightarrow> scatter_config \<Rightarrow> nat \<Rightarrow> 'w \<Rightarrow> candidate_score list res \<times> 'w"
  hk_switch_node :: "canonical_node \<Rightarrow> bool \<Rightarrow> 'w \<Rightarrow> string res \<times> 'w"
  hk_degrade :: "'w \<Rightarrow> 'w"
  hk_tunnel_health :: "(canonical_node \<Rightarrow> 'w \<Rightarrow> tunnel_health option \<times> 'w) option"

type_synonym 'w outcome = "failover_action res \<times> failover_status \<times> 'w"

definition candidate_pairs :: "'w controller \<Rightarrow> 'w \<Rightarrow> (u32 list \<times> canonical_node list) res" where
  "candidate_pairs ct w = try_then (ct_load_probe_targets ct w) (\<lambda>ts. Ok (map fst ts, map snd ts))"

definition candidate_nodes :: "'w controller \<Rightarrow> 'w \<Rightarrow> canonical_node list res" where
  "candidate_nodes ct w = try_then (candidate_pairs ct w) (\<lambda>p. Ok (snd p))"

section \<open>The cycle\<close>

definition utc_hour :: "'w controller \<Rightarrow> 'w \<Rightarrow> u8" where
  "utc_hour ct w = word_of_nat (ct_utc_secs ct w div 3600 mod 24)"

definition in_quiet_hours :: "'w controller \<Rightarrow> failover_config \<Rightarrow> 'w \<Rightarrow> bool" where
  "in_quiet_hours ct config w =
     (case fc_quiet_hours_utc config of None \<Rightarrow> False
      | Some (start, stop) \<Rightarrow>
          (let hour = utc_hour ct w in
           if start \<le> stop then start \<le> hour \<and> hour < stop else start \<le> hour \<or> hour < stop))"

definition should_refresh_shortlist ::
    "'w controller \<Rightarrow> failover_config \<Rightarrow> failover_status \<Rightarrow> 'w \<Rightarrow> bool \<times> failover_status" where
  "should_refresh_shortlist ct config status w =
     (let status = status\<lparr>fs_cycles_since_rescore := fs_cycles_since_rescore status + 1\<rparr>;
          by_cadence = (0 < fc_background_rescore_cycles config
            \<and> fc_background_rescore_cycles config \<le> fs_cycles_since_rescore status)
      in (by_cadence \<or> in_quiet_hours ct config w, status))"

definition rescore ::
    "'w controller \<Rightarrow> 'w hooks \<Rightarrow> failover_config \<Rightarrow> scatter_config \<Rightarrow> failover_status \<Rightarrow> 'w \<Rightarrow>
      nat option \<times> failover_status \<times> 'w" where
  "rescore ct hk config cfg status w =
     (case candidate_nodes ct w of Inl _ \<Rightarrow> (None, status, w) | Inr candidates \<Rightarrow>
      (case hk_rescore hk candidates cfg (fc_rescore_limit config) w of
         (Inl _, w) \<Rightarrow> (None, status, w)
       | (Inr shortlist, w) \<Rightarrow> (Some (length shortlist), status\<lparr>fs_shortlist := shortlist\<rparr>, w)))"

definition tunnel_confirms_trouble ::
    "failover_config \<Rightarrow> 'w hooks \<Rightarrow> canonical_node \<Rightarrow> 'w \<Rightarrow> bool \<times> 'w" where
  "tunnel_confirms_trouble config hk active w =
     (case fc_tunnel_health_floor config of None \<Rightarrow> (False, w) | Some lowest \<Rightarrow>
      (case hk_tunnel_health hk of None \<Rightarrow> (False, w) | Some hook \<Rightarrow>
       (case hook active w of
          (None, w) \<Rightarrow> (False, w)
        | (Some health, w) \<Rightarrow> (th_grade health < lowest, w))))"

text \<open>The loop of \<open>escalate\<close> over the ranking: probe again, switch on success.\<close>

fun try_ranked ::
    "'w hooks \<Rightarrow> scatter_config \<Rightarrow> canonical_node list \<Rightarrow> ranked_node list \<Rightarrow> bool \<Rightarrow> failover_status \<Rightarrow> 'w \<Rightarrow> 'w outcome" where
  "try_ranked hk cfg nodes [] saw_a_passer status w =
     (if saw_a_passer then (Ok Unconfirmed, status, w)
      else (Ok Degraded, status\<lparr>fs_consecutive_failures := 0\<rparr>, hk_degrade hk w))"
| "try_ranked hk cfg nodes (entry # rest) saw_a_passer status w =
     (case vec_get nodes (rn_node_index entry) of None \<Rightarrow> (Err ''index out of bounds'', status, w)
      | Some candidate \<Rightarrow>
        (case hk_probe hk candidate cfg w of
           (Inl _, w) \<Rightarrow> try_ranked hk cfg nodes rest True status w
         | (Inr report, w) \<Rightarrow>
             if sr_passes report
             then (case hk_switch_node hk candidate True w of
                     (Inr label, w) \<Rightarrow> (Ok (Switched label), status\<lparr>fs_consecutive_failures := 0\<rparr>, w)
                   | (Inl e, w) \<Rightarrow> (Ok (ErrorAction (''switch failed: '' @ e)), status, w))
             else try_ranked hk cfg nodes rest True status w))"

definition escalate ::
    "'w controller \<Rightarrow> failover_config \<Rightarrow> 'w hooks \<Rightarrow> scatter_config \<Rightarrow> failover_status \<Rightarrow> canonical_node \<Rightarrow> 'w \<Rightarrow> 'w outcome" where
  "escalate ct config hk cfg status active w =
     (case candidate_pairs ct w of Inl e \<Rightarrow> (Ok (ErrorAction (''catalog unavailable: '' @ e)), status, w)
      | Inr (ids, nodes) \<Rightarrow>
        (case hk_rescore hk nodes cfg (fc_rescore_limit config) w of
           (Inl e, w) \<Rightarrow> (Ok (ErrorAction (''rescore failed: '' @ e)), status, w)
         | (Inr shortlist0, w) \<Rightarrow>
             (let shortlist = filter (\<lambda>score. cs_label score \<noteq> nm_label (cn_meta active)) shortlist0;
                  now = ct_now ct w;
                  selector = observe_round ids shortlist now (fs_selector status);
                  status = status\<lparr>fs_selector := selector, fs_shortlist := shortlist\<rparr>;
                  ranked = rank_working_nodes shortlist (as_tracks selector) ids (as_config selector) now
              in try_ranked hk cfg nodes ranked False status w)))"

fun try_heal ::
    "'w hooks \<Rightarrow> scatter_config \<Rightarrow> canonical_node list \<Rightarrow> candidate_score list \<Rightarrow> failover_status \<Rightarrow> 'w \<Rightarrow> 'w outcome" where
  "try_heal hk cfg candidates [] status w = (Ok Degraded, status, w)"
| "try_heal hk cfg candidates (score # rest) status w =
     (if \<not> cs_passes score then try_heal hk cfg candidates rest status w
      else case vec_get candidates (cs_node_index score) of
        None \<Rightarrow> (Err ''index out of bounds'', status, w)
      | Some candidate \<Rightarrow>
        (case hk_probe hk candidate cfg w of
           (Inl _, w) \<Rightarrow> try_heal hk cfg candidates rest status w
         | (Inr report, w) \<Rightarrow>
             if \<not> sr_passes report then try_heal hk cfg candidates rest status w
             else (case hk_switch_node hk candidate True w of
                     (Inr label, w) \<Rightarrow> (Ok (Healed label), status\<lparr>fs_consecutive_failures := 0\<rparr>, w)
                   | (Inl _, w) \<Rightarrow> try_heal hk cfg candidates rest status w)))"

definition heal_or_stay_degraded ::
    "'w controller \<Rightarrow> failover_config \<Rightarrow> 'w hooks \<Rightarrow> scatter_config \<Rightarrow> failover_status \<Rightarrow> 'w \<Rightarrow> 'w outcome" where
  "heal_or_stay_degraded ct config hk cfg status w =
     (case candidate_nodes ct w of Inl _ \<Rightarrow> (Ok Degraded, status, w) | Inr candidates \<Rightarrow>
      (case hk_rescore hk candidates cfg (fc_rescore_limit config) w of
         (Inl _, w) \<Rightarrow> (Ok Degraded, status, w)
       | (Inr shortlist, w) \<Rightarrow>
           try_heal hk cfg candidates shortlist (status\<lparr>fs_shortlist := shortlist\<rparr>) w))"

text \<open>\<open>auto_adopt\<close>; \<open>None\<close> as an action is the \<open>None\<close> the code returns.\<close>

definition auto_adopt ::
    "'w controller \<Rightarrow> failover_config \<Rightarrow> 'w hooks \<Rightarrow> scatter_config \<Rightarrow> failover_status \<Rightarrow> 'w \<Rightarrow>
      failover_action option res \<times> failover_status \<times> 'w" where
  "auto_adopt ct config hk cfg status w =
     (case candidate_pairs ct w of Inl _ \<Rightarrow> (Ok None, status, w)
      | Inr (ids, nodes) \<Rightarrow>
        if nodes = [] then (Ok None, status, w)
        else (case hk_rescore hk nodes cfg (fc_rescore_limit config) w of
           (Inl _, w) \<Rightarrow> (Ok None, status, w)
         | (Inr scores, w) \<Rightarrow>
             (let now = ct_now ct w;
                  selector = observe_round ids scores now (fs_selector status);
                  status = status\<lparr>fs_selector := selector, fs_shortlist := scores\<rparr>;
                  ranked = rank_working_nodes scores (as_tracks selector) ids (as_config selector) now
              in case ranked of [] \<Rightarrow> (Ok (Some Degraded), status, w)
                 | best # _ \<Rightarrow>
                   (case vec_get nodes (rn_node_index best) of
                      None \<Rightarrow> (Err ''index out of bounds'', status, w)
                    | Some node \<Rightarrow>
                      (case hk_switch_node hk node True w of
                         (Inr label, w) \<Rightarrow> (Ok (Some (AdoptedNode label)), status\<lparr>fs_consecutive_failures := 0\<rparr>, w)
                       | (Inl e, w) \<Rightarrow> (Ok (Some (ErrorAction (''auto-select switch failed: '' @ e))), status, w))))))"

definition younger_than :: "'w controller \<Rightarrow> 'w \<Rightarrow> instant option \<Rightarrow> duration \<Rightarrow> bool" where
  "younger_than ct w t d = (case t of None \<Rightarrow> False | Some since \<Rightarrow> elapsed (ct_now ct w) since < d)"

text \<open>The branch taken when the probe of the active node passed, and the one when it did not.\<close>

definition on_pass ::
    "'w controller \<Rightarrow> failover_config \<Rightarrow> 'w hooks \<Rightarrow> scatter_config \<Rightarrow> failover_status \<Rightarrow> 'w \<Rightarrow> 'w outcome" where
  "on_pass ct config hk cfg status w =
     (case should_refresh_shortlist ct config (status\<lparr>fs_consecutive_failures := 0\<rparr>) w of
        (True, status) \<Rightarrow>
          (case rescore ct hk config cfg status w of
             (Some len, status, w) \<Rightarrow> (Ok (Rearmed len), status\<lparr>fs_cycles_since_rescore := 0\<rparr>, w)
           | (None, status, w) \<Rightarrow> (Ok Healthy, status, w))
      | (False, status) \<Rightarrow> (Ok Healthy, status, w))"

definition on_failure ::
    "'w controller \<Rightarrow> failover_config \<Rightarrow> 'w hooks \<Rightarrow> scatter_config \<Rightarrow> failover_status \<Rightarrow> canonical_node \<Rightarrow> 'w \<Rightarrow> 'w outcome" where
  "on_failure ct config hk cfg status active w =
     (let failures = fs_consecutive_failures status + 1;
          status = status\<lparr>fs_consecutive_failures := failures\<rparr>
      in case tunnel_confirms_trouble config hk active w of (corroborated, w) \<Rightarrow>
         (let required = (if corroborated then 1 else fc_required_consecutive_failures config)
          in if failures < required
             then (case rescore ct hk config cfg status w of (_, status, w) \<Rightarrow> (Ok (Inspecting failures), status, w))
             else if younger_than ct w (ct_last_auto_switch ct w) (fc_cooldown_after_auto_switch config)
             then (Ok Cooldown, status, w)
             else escalate ct config hk cfg status active w))"

definition run_failover_cycle ::
    "'w controller \<Rightarrow> failover_config \<Rightarrow> 'w hooks \<Rightarrow> failover_status \<Rightarrow> 'w \<Rightarrow> 'w outcome" where
  "run_failover_cycle ct config hk status w =
     (let cfg = ct_scatter_config ct w;
          active = ct_active_node ct w;
          status = status\<lparr>fs_active_node := map_option (\<lambda>node. nm_label (cn_meta node)) active,
            fs_degraded := ct_is_degraded ct w\<rparr>
      in if ct_is_degraded ct w then heal_or_stay_degraded ct config hk cfg status w
         else case active of
           None \<Rightarrow>
             if fc_auto_select_on_idle config
             then (case auto_adopt ct config hk cfg status w of
                     (Inl e, status, w) \<Rightarrow> (Err e, status, w)
                   | (Inr action, status, w) \<Rightarrow> (Ok (unwrap_or IdleAction action), status, w))
             else (Ok IdleAction, status\<lparr>fs_shortlist := []\<rparr>, w)
         | Some node \<Rightarrow>
             if younger_than ct w (ct_last_manual_switch ct w) (fc_min_time_since_manual_switch config)
             then (Ok ManualWindow, status, w)
             else (case hk_probe hk node cfg w of
                     (Inr report, w) \<Rightarrow>
                       if sr_passes report then on_pass ct config hk cfg status w
                       else on_failure ct config hk cfg status node w
                   | (Inl _, w) \<Rightarrow> on_failure ct config hk cfg status node w))"

text \<open>
  The watchdog thread: rounds of the cycle, each followed by the bookkeeping of its action; the
  other steps of the world between two rounds (sleeping, the user's own switches) are a function
  for each round.  A panic ends the thread.
\<close>

fun watchdog_rounds ::
    "'w controller \<Rightarrow> failover_config \<Rightarrow> 'w hooks \<Rightarrow> ('w \<Rightarrow> 'w) list \<Rightarrow> failover_status \<Rightarrow> 'w \<Rightarrow> failover_status \<times> 'w" where
  "watchdog_rounds ct config hk [] status w = (status, w)"
| "watchdog_rounds ct config hk (between # rounds) status w =
     (case run_failover_cycle ct config hk status w of
        (Inl e, status, w) \<Rightarrow> (status, w)
      | (Inr action, status, w) \<Rightarrow>
          watchdog_rounds ct config hk rounds
            (status\<lparr>fs_last_action := Some action, fs_last_action_at := Some (ct_now ct w)\<rparr>) (between w))"

text \<open>
  The thread with its stop flag, \<open>EgressWatchdog\<close>: it looks at the flag, runs a cycle under the lock of the
  status, sleeps and looks again.  Anybody may set the flag at any time; \<open>wd_cycles\<close> counts the cycles run.
\<close>

datatype wd_phase = Looking | Cycling | Sleeping | Ended

record 'w egress_watchdog =
  wd_stop :: bool
  wd_phase :: wd_phase
  wd_status :: failover_status
  wd_world :: 'w
  wd_cycles :: nat

definition EgressWatchdog_start :: "'w \<Rightarrow> 'w egress_watchdog" where
  "EgressWatchdog_start w = \<lparr>wd_stop = False, wd_phase = Looking, wd_status = FailoverStatus_default, wd_world = w,
     wd_cycles = 0\<rparr>"

definition wd_advance :: "'w controller \<Rightarrow> failover_config \<Rightarrow> 'w hooks \<Rightarrow> 'w egress_watchdog \<Rightarrow> 'w egress_watchdog" where
  "wd_advance ct config hk d =
     (case wd_phase d of
        Looking \<Rightarrow> d\<lparr>wd_phase := (if wd_stop d then Ended else Cycling)\<rparr>
      | Cycling \<Rightarrow>
          (case run_failover_cycle ct config hk (wd_status d) (wd_world d) of
             (Inl e, status, w) \<Rightarrow> d\<lparr>wd_phase := Ended, wd_status := status, wd_world := w, wd_cycles := wd_cycles d + 1\<rparr>
           | (Inr action, status, w) \<Rightarrow> d\<lparr>wd_phase := Sleeping, wd_world := w, wd_cycles := wd_cycles d + 1,
               wd_status := status\<lparr>fs_last_action := Some action, fs_last_action_at := Some (ct_now ct w)\<rparr>\<rparr>)
      | Sleeping \<Rightarrow> d\<lparr>wd_phase := Looking\<rparr>
      | Ended \<Rightarrow> d)"

definition EgressWatchdog_stop :: "'w egress_watchdog \<Rightarrow> 'w egress_watchdog" where
  "EgressWatchdog_stop d = d\<lparr>wd_stop := True\<rparr>"

section \<open>Interfaces\<close>

text \<open>
  What the engine relies on in its hooks.  Looking (probing, scoring, asking the kernel) does not
  touch what \<open>P\<close> describes; only switching and degrading may.
\<close>

locale observing_hooks =
  fixes hk :: "'w hooks" and P :: "'w \<Rightarrow> bool"
  assumes probe_keeps: "P w \<Longrightarrow> P (snd (hk_probe hk node cfg w))"
    and rescore_keeps: "P w \<Longrightarrow> P (snd (hk_rescore hk nodes cfg limit w))"
    and health_keeps: "hk_tunnel_health hk = Some health \<Longrightarrow> P w \<Longrightarrow> P (snd (health node w))"
begin

lemma keepsD:
  "hk_probe hk node cfg w = (q, w') \<Longrightarrow> P w \<Longrightarrow> P w'"
  "hk_rescore hk nodes cfg limit w = (scores, w') \<Longrightarrow> P w \<Longrightarrow> P w'"
  "hk_tunnel_health hk = Some health \<Longrightarrow> health node w = (h, w') \<Longrightarrow> P w \<Longrightarrow> P w'"
  using probe_keeps rescore_keeps health_keeps by (metis snd_conv)+

lemma rescore_P: "rescore ct hk config cfg status w = (n, status', w') \<Longrightarrow> P w \<Longrightarrow> P w'"
  by (auto simp: rescore_def dest: keepsD(2) split: sum.splits prod.splits)

lemma tunnel_P: "tunnel_confirms_trouble config hk active w = (b, w') \<Longrightarrow> P w \<Longrightarrow> P w'"
  by (auto simp: tunnel_confirms_trouble_def dest: keepsD(3) split: option.splits prod.splits)

lemma try_ranked_P:
  "\<lbrakk>try_ranked hk cfg nodes ranked saw status w = (r, status', w'); P w;
     \<forall>a. r = Ok a \<longrightarrow> \<not> is_intervention a \<and> (\<nexists>e. a = ErrorAction e)\<rbrakk> \<Longrightarrow> P w'"
proof (induction ranked arbitrary: saw status w)
  case Nil
  then show ?case by (auto split: if_splits)
next
  case (Cons entry rest)
  show ?case
  proof (cases "vec_get nodes (rn_node_index entry)")
    case None
    with Cons.prems show ?thesis by simp
  next
    case (Some candidate)
    obtain q w1 where probe: "hk_probe hk candidate cfg w = (q, w1)" by fastforce
    then have "P w1" using Cons.prems(2) by (rule keepsD)
    with Some probe Cons show ?thesis
      by (auto split: sum.splits prod.splits if_splits)
  qed
qed

lemma escalate_P:
  assumes "escalate ct config hk cfg status active w = (r, status', w')" and "P w"
    and "\<forall>a. r = Ok a \<longrightarrow> \<not> is_intervention a \<and> (\<nexists>e. a = ErrorAction e)"
  shows "P w'"
proof (cases "candidate_pairs ct w")
  case (Inl e)
  with assms show ?thesis by (auto simp: escalate_def)
next
  case (Inr p)
  obtain q w1 where re: "hk_rescore hk (snd p) cfg (fc_rescore_limit config) w = (q, w1)" by fastforce
  then have "P w1" using assms(2) by (rule keepsD)
  with Inr re assms show ?thesis
    by (auto simp: escalate_def Let_def split: sum.splits prod.splits intro: try_ranked_P)
qed

lemma on_pass_P: "on_pass ct config hk cfg status w = (r, status', w') \<Longrightarrow> P w \<Longrightarrow> P w'"
  by (auto simp: on_pass_def dest: rescore_P split: prod.splits bool.splits option.splits)

lemma on_failure_P:
  assumes "on_failure ct config hk cfg status active w = (r, status', w')" and "P w"
    and "\<forall>a. r = Ok a \<longrightarrow> \<not> is_intervention a \<and> (\<nexists>e. a = ErrorAction e)"
  shows "P w'"
proof -
  let ?status = "status\<lparr>fs_consecutive_failures := fs_consecutive_failures status + 1\<rparr>"
  obtain c w1 where t: "tunnel_confirms_trouble config hk active w = (c, w1)" by fastforce
  then have w1: "P w1" using assms(2) by (rule tunnel_P)
  have "P w'" if "escalate ct config hk cfg ?status active w1 = (r, status', w')"
    using that w1 assms(3) by (rule escalate_P)
  then show ?thesis using assms(1) t w1
    by (auto simp: on_failure_def Let_def dest: rescore_P split: if_splits prod.splits)
qed

lemma auto_adopt_P:
  assumes "auto_adopt ct config hk cfg status w = (Ok a, status', w')" and "P w"
    and "\<not> is_intervention (unwrap_or IdleAction a)" and "\<nexists>e. unwrap_or IdleAction a = ErrorAction e"
  shows "P w'"
  using assms
  by (auto simp: auto_adopt_def Let_def dest: keepsD(2) split: sum.splits prod.splits if_splits list.splits option.splits)

lemma try_heal_intervenes:
  "try_heal hk' cfg candidates scores status w = (Ok a, status', w') \<Longrightarrow> is_intervention a"
  by (induction hk' cfg candidates scores status w rule: try_heal.induct)
     (auto split: if_splits option.splits prod.splits sum.splits)

lemma cycle_P:
  assumes "run_failover_cycle ct config hk status w = (Ok a, status', w')" and "P w"
    and "\<not> is_intervention a" and "\<nexists>e. a = ErrorAction e"
  shows "P w'"
proof -
  let ?cfg = "ct_scatter_config ct w"
  let ?st = "status\<lparr>fs_active_node := map_option (\<lambda>node. nm_label (cn_meta node)) (ct_active_node ct w),
            fs_degraded := ct_is_degraded ct w\<rparr>"
  have "\<not> ct_is_degraded ct w"
    using assms(1,3)
    by (auto simp: run_failover_cycle_def Let_def heal_or_stay_degraded_def dest: try_heal_intervenes
        split: sum.splits prod.splits)
  then show ?thesis
    using assms
    by (auto simp: run_failover_cycle_def Let_def dest: auto_adopt_P on_pass_P on_failure_P keepsD(1)
        split: option.splits if_splits prod.splits sum.splits)
qed

end

text \<open>The nodes of a catalog the controller loaded in a world with the property \<open>P\<close>.\<close>

definition offered :: "('w \<Rightarrow> bool) \<Rightarrow> 'w controller \<Rightarrow> canonical_node list \<Rightarrow> bool" where
  "offered P ct nodes \<longleftrightarrow> (\<exists>w0 ts. P w0 \<and> ct_load_probe_targets ct w0 = Ok ts \<and> nodes = map snd ts)"

text \<open>
  Hooks none of which breaks an invariant when the node switched to is one the controller loaded from the catalog:
  then no cycle does, whatever it decides.
\<close>

locale choosing_hooks = observing_hooks +
  fixes ct :: "'a controller"
  assumes switch_keeps: "\<lbrakk>P w; P w0; ct_load_probe_targets ct w0 = Ok ts; node \<in> snd ` set ts\<rbrakk> \<Longrightarrow>
      P (snd (hk_switch_node hk node automatic w))"
    and degrade_keeps: "P w \<Longrightarrow> P (hk_degrade hk w)"
begin

lemma switchD:
  assumes "offered P ct nodes" "vec_get nodes i = Some node" "hk_switch_node hk node automatic w = (r, w')" "P w"
  shows "P w'"
proof -
  from assms(1) obtain w0 ts where o1: "P w0" "ct_load_probe_targets ct w0 = Ok ts" "nodes = map snd ts"
    by (auto simp: offered_def)
  with assms(2) have "node \<in> snd ` set ts" by (auto simp: vec_get_def split: if_splits)
  from switch_keeps[OF assms(4) o1(1,2) this] assms(3) show ?thesis by (metis snd_conv)
qed

lemma candidate_pairs_offered: "candidate_pairs ct w = Ok p \<Longrightarrow> P w \<Longrightarrow> offered P ct (snd p)"
  by (auto simp: candidate_pairs_def offered_def)

lemma try_ranked_keeps:
  "try_ranked hk cfg nodes ranked saw status w = (r, status', w') \<Longrightarrow> offered P ct nodes \<Longrightarrow> P w \<Longrightarrow> P w'"
proof (induction ranked arbitrary: saw status w)
  case (Cons entry rest)
  show ?case
  proof (cases "vec_get nodes (rn_node_index entry)")
    case (Some candidate)
    obtain q w1 where probe: "hk_probe hk candidate cfg w = (q, w1)" by fastforce
    obtain s w2 where switch: "hk_switch_node hk candidate True w1 = (s, w2)" by fastforce
    have "P w1" using keepsD(1) [OF probe] Cons.prems(3) by auto
    moreover from this have "P w2" using switchD [OF Cons.prems(2) Some switch] by auto
    ultimately show ?thesis using Cons Some probe switch by (auto split: sum.splits if_splits)
  qed (use Cons.prems in simp)
qed (auto simp: degrade_keeps split: if_splits)

lemma try_heal_keeps:
  "try_heal hk cfg nodes scores status w = (r, status', w') \<Longrightarrow> offered P ct nodes \<Longrightarrow> P w \<Longrightarrow> P w'"
proof (induction scores arbitrary: status w)
  case (Cons score rest)
  show ?case
  proof (cases "vec_get nodes (cs_node_index score)")
    case (Some candidate)
    obtain q w1 where probe: "hk_probe hk candidate cfg w = (q, w1)" by fastforce
    obtain s w2 where switch: "hk_switch_node hk candidate True w1 = (s, w2)" by fastforce
    have "P w1" using keepsD(1) [OF probe] Cons.prems(3) by auto
    moreover from this have "P w2" using switchD [OF Cons.prems(2) Some switch] by auto
    ultimately show ?thesis using Cons Some probe switch by (auto split: sum.splits if_splits)
  qed (use Cons in \<open>auto split: if_splits\<close>)
qed simp

lemma escalate_keeps:
  assumes "escalate ct config hk cfg status active w = (r, status', w')" "P w"
  shows "P w'"
proof (cases "candidate_pairs ct w")
  case (Inr p)
  obtain q w1 where re: "hk_rescore hk (snd p) cfg (fc_rescore_limit config) w = (q, w1)" by fastforce
  then have "P w1" using assms(2) by (rule keepsD)
  with candidate_pairs_offered[OF Inr assms(2)] Inr re assms show ?thesis
    by (auto simp: escalate_def Let_def split: sum.splits prod.splits intro: try_ranked_keeps)
qed (use assms in \<open>auto simp: escalate_def\<close>)

lemma heal_keeps:
  assumes "heal_or_stay_degraded ct config hk cfg status w = (r, status', w')" "P w"
  shows "P w'"
proof (cases "candidate_nodes ct w")
  case (Inr nodes)
  then have "offered P ct nodes" using assms(2) by (auto simp: candidate_nodes_def dest: candidate_pairs_offered)
  with Inr assms show ?thesis
    by (auto simp: heal_or_stay_degraded_def split: sum.splits prod.splits dest: keepsD(2) try_heal_keeps)
qed (use assms in \<open>auto simp: heal_or_stay_degraded_def\<close>)

lemma auto_adopt_keeps:
  assumes "auto_adopt ct config hk cfg status w = (r, status', w')" "P w"
  shows "P w'"
proof (cases "candidate_pairs ct w")
  case (Inr p)
  obtain ids nodes where p: "p = (ids, nodes)" by (cases p)
  have offer: "offered P ct nodes" using candidate_pairs_offered[OF Inr assms(2)] p by simp
  from Inr p assms show ?thesis
    by (auto simp: auto_adopt_def Let_def dest: keepsD(2) switchD[OF offer]
        split: sum.splits prod.splits if_splits list.splits option.splits)
qed (use assms in \<open>auto simp: auto_adopt_def\<close>)

lemma on_failure_keeps:
  assumes "on_failure ct config hk cfg status active w = (r, status', w')" "P w"
  shows "P w'"
proof -
  obtain b w1 where t: "tunnel_confirms_trouble config hk active w = (b, w1)" by fastforce
  then have "P w1" using assms(2) by (rule tunnel_P)
  then show ?thesis using assms(1) t
    by (auto simp: on_failure_def Let_def dest: rescore_P escalate_keeps split: if_splits prod.splits)
qed

lemma cycle_keeps:
  assumes "run_failover_cycle ct config hk status w = (r, status', w')" "P w"
  shows "P w'"
  using assms
  by (auto simp: run_failover_cycle_def Let_def dest: heal_keeps auto_adopt_keeps on_pass_P on_failure_keeps keepsD(1)
      split: option.splits if_splits prod.splits sum.splits)

end

text \<open>Hooks that keep an invariant whatever node is switched to keep it with every controller.\<close>

locale preserving_hooks = observing_hooks +
  assumes any_switch_keeps: "P w \<Longrightarrow> P (snd (hk_switch_node hk node automatic w))"
    and any_degrade_keeps: "P w \<Longrightarrow> P (hk_degrade hk w)"

sublocale preserving_hooks \<subseteq> choosing_hooks hk P ct for ct
  by unfold_locales (rule any_switch_keeps any_degrade_keeps, assumption)+

text \<open>Scores come from the list that was scored.\<close>

locale catalog_hooks =
  fixes hk :: "'w hooks"
  assumes rescore_in_range:
    "hk_rescore hk nodes cfg limit w = (Ok scores, w') \<Longrightarrow> s \<in> set scores \<Longrightarrow> cs_node_index s < length nodes"
begin

lemma try_ranked_no_panic:
  "\<forall>r \<in> set ranked. rn_node_index r < length nodes \<Longrightarrow>
   is_ok (fst (try_ranked hk' cfg nodes ranked saw status w))"
  by (induction ranked arbitrary: saw status w) (auto simp: vec_get_def split: prod.splits sum.splits)

lemma try_heal_no_panic:
  "\<forall>s \<in> set scores. cs_node_index s < length nodes \<Longrightarrow>
   is_ok (fst (try_heal hk' cfg nodes scores status w))"
  by (induction scores arbitrary: status w) (auto simp: vec_get_def split: prod.splits sum.splits)

lemma ranked_in_range:
  assumes "hk_rescore hk nodes cfg limit w = (Ok scores, w')" "set scores' \<subseteq> set scores"
  shows "\<forall>r \<in> set (rank_working_nodes scores' tracks ids c now). rn_node_index r < length nodes"
proof
  fix r assume "r \<in> set (rank_working_nodes scores' tracks ids c now)"
  then obtain s where "s \<in> set scores'" "r = rank_one tracks ids c now s" by (auto simp: rank_mem)
  then show "rn_node_index r < length nodes"
    using rescore_in_range[OF assms(1), of s] assms(2) by auto
qed

lemma escalate_no_panic: "is_ok (fst (escalate ct config hk cfg status active w))"
  using ranked_in_range[of _ cfg _ w]
  by (auto simp: escalate_def Let_def split: sum.splits prod.splits intro!: try_ranked_no_panic)
     (metis filter_is_subset)

lemma heal_no_panic: "is_ok (fst (heal_or_stay_degraded ct config hk cfg status w))"
  by (auto simp: heal_or_stay_degraded_def split: sum.splits prod.splits
      intro!: try_heal_no_panic dest: rescore_in_range)

lemma auto_adopt_no_panic: "is_ok (fst (auto_adopt ct config hk cfg status w))"
proof -
  have "vec_get nodes (rn_node_index best) \<noteq> None"
    if "hk_rescore hk nodes cfg limit w = (Ok scores, w')"
      "rank_working_nodes scores tracks ids c now = best # rest" for nodes limit scores w' tracks ids c now best rest
    using ranked_in_range[OF that(1) order_refl, of tracks ids c now] that(2) by (simp add: vec_get_def)
  then show ?thesis
    by (fastforce simp: auto_adopt_def Let_def split: sum.splits prod.splits list.splits option.splits)
qed

lemma cycle_no_panic: "is_ok (fst (run_failover_cycle ct config hk status w))"
proof -
  have "is_ok (fst (on_pass ct config hk cfg st v))" for cfg st v
    by (auto simp: on_pass_def split: prod.splits bool.splits option.splits)
  moreover have "is_ok (fst (on_failure ct config hk cfg st node v))" for cfg st node v
    using escalate_no_panic by (auto simp: on_failure_def Let_def split: prod.splits)
  ultimately show ?thesis
    using heal_no_panic auto_adopt_no_panic
    by (auto simp: run_failover_cycle_def Let_def split: option.splits prod.splits sum.splits)
       (metis fst_conv is_ok.simps(1))
qed

end

section \<open>What an intervention rests on\<close>

lemma try_ranked_Switched:
  "try_ranked hk cfg nodes ranked saw status w = (Ok (Switched label), status', w') \<Longrightarrow>
   \<exists>node \<in> set nodes. \<exists>w1 w2 report. hk_probe hk node cfg w1 = (Ok report, w2) \<and> sr_passes report
     \<and> hk_switch_node hk node True w2 = (Ok label, w')"
proof (induction ranked arbitrary: saw status w)
  case Nil
  then show ?case by (simp split: if_splits)
next
  case (Cons entry rest)
  then obtain node where node: "vec_get nodes (rn_node_index entry) = Some node"
    by (auto split: option.splits)
  obtain q w1 where probe: "hk_probe hk node cfg w = (q, w1)" by fastforce
  show ?case
  proof (cases "\<exists>report. q = Ok report \<and> sr_passes report")
    case True
    with Cons.prems node probe show ?thesis
      by (auto dest: vec_get_mem split: prod.splits sum.splits)
  next
    case False
    with Cons.prems node probe have "try_ranked hk cfg nodes rest True status w1 = (Ok (Switched label), status', w')"
      by (auto split: sum.splits)
    then show ?thesis by (rule Cons.IH)
  qed
qed

lemma try_heal_Healed:
  "try_heal hk cfg nodes scores status w = (Ok (Healed label), status', w') \<Longrightarrow>
   \<exists>node \<in> set nodes. \<exists>w1 w2 report. hk_probe hk node cfg w1 = (Ok report, w2) \<and> sr_passes report
     \<and> hk_switch_node hk node True w2 = (Ok label, w')"
proof (induction scores arbitrary: status w)
  case Nil
  then show ?case by simp
next
  case (Cons score rest)
  show ?case
  proof (cases "cs_passes score")
    case False
    with Cons show ?thesis by simp
  next
    case True
    with Cons.prems obtain node where node: "vec_get nodes (cs_node_index score) = Some node"
      by (auto split: option.splits)
    obtain q w1 where probe: "hk_probe hk node cfg w = (q, w1)" by fastforce
    obtain r w2 where switch: "hk_switch_node hk node True w1 = (r, w2)" by fastforce
    from True Cons node probe switch show ?thesis
      by (auto dest: vec_get_mem split: sum.splits if_splits)
  qed
qed

lemma try_ranked_not_healed: "try_ranked hk cfg nodes ranked saw status w \<noteq> (Ok (Healed l), st, w')"
  by (induction ranked arbitrary: saw status w) (auto split: if_splits option.splits prod.splits sum.splits)

lemma try_ranked_not_adopted: "try_ranked hk cfg nodes ranked saw status w \<noteq> (Ok (AdoptedNode l), st, w')"
  by (induction ranked arbitrary: saw status w) (auto split: if_splits option.splits prod.splits sum.splits)

lemma try_heal_not_switched: "try_heal hk cfg nodes scores status w \<noteq> (Ok (Switched l), st, w')"
  by (induction scores arbitrary: status w) (auto split: if_splits option.splits prod.splits sum.splits)

lemma try_ranked_Degraded:
  "try_ranked hk cfg nodes ranked saw status w = (Ok Degraded, status', w') \<Longrightarrow>
     ranked = [] \<and> \<not> saw \<and> w' = hk_degrade hk w"
proof (induction ranked arbitrary: saw status w)
  case Nil
  then show ?case by (auto split: if_splits)
next
  case (Cons entry rest)
  have "try_ranked hk cfg nodes rest True st v \<noteq> (Ok Degraded, status', w')" for st v
    using Cons.IH[of True] by blast
  with Cons.prems show ?case by (auto split: option.splits prod.splits sum.splits if_splits)
qed

lemma rank_empty_iff: "rank_working_nodes scores tracks ids config now = [] \<longleftrightarrow> (\<forall>s \<in> set scores. \<not> cs_passes s)"
  by (auto simp: rank_working_nodes_def filter_empty_conv)

lemma catalog_set: "candidate_pairs ct w = Ok (ids, nodes) \<Longrightarrow> \<exists>ts. ct_load_probe_targets ct w = Ok ts \<and> nodes = map snd ts \<and> ids = map fst ts"
  by (auto simp: candidate_pairs_def)

lemma escalate_Switched:
  assumes "escalate ct config hk cfg status active w = (Ok (Switched label), status', w')"
  shows "\<exists>ts. ct_load_probe_targets ct w = Ok ts \<and> (\<exists>node \<in> snd ` set ts. \<exists>w1 w2 report.
     hk_probe hk node cfg w1 = (Ok report, w2) \<and> sr_passes report \<and> hk_switch_node hk node True w2 = (Ok label, w'))"
  using assms
  by (fastforce simp: escalate_def Let_def candidate_pairs_def dest: try_ranked_Switched split: sum.splits prod.splits)

lemma escalate_Degraded:
  assumes "escalate ct config hk cfg status active w = (Ok Degraded, status', w')"
  shows "\<exists>ts scores w1. ct_load_probe_targets ct w = Ok ts
     \<and> hk_rescore hk (map snd ts) cfg (fc_rescore_limit config) w = (Ok scores, w1) \<and> w' = hk_degrade hk w1
     \<and> (\<forall>s \<in> set scores. cs_passes s \<longrightarrow> cs_label s = nm_label (cn_meta active))"
  using assms
  by (auto simp: escalate_def Let_def candidate_pairs_def rank_empty_iff dest!: try_ranked_Degraded
      split: sum.splits prod.splits)

lemma escalate_not_healed: "escalate ct config hk cfg status active w \<noteq> (Ok (Healed l), st, w')"
  "escalate ct config hk cfg status active w \<noteq> (Ok (AdoptedNode l), st, w')"
  by (auto simp: escalate_def Let_def try_ranked_not_healed try_ranked_not_adopted split: sum.splits prod.splits)

lemma heal_Healed:
  assumes "heal_or_stay_degraded ct config hk cfg status w = (Ok (Healed label), status', w')"
  shows "\<exists>ts. ct_load_probe_targets ct w = Ok ts \<and> (\<exists>node \<in> snd ` set ts. \<exists>w1 w2 report.
     hk_probe hk node cfg w1 = (Ok report, w2) \<and> sr_passes report \<and> hk_switch_node hk node True w2 = (Ok label, w'))"
  using assms
  by (fastforce simp: heal_or_stay_degraded_def candidate_nodes_def candidate_pairs_def dest: try_heal_Healed
      split: sum.splits prod.splits)

lemma heal_not_switched: "heal_or_stay_degraded ct config hk cfg status w \<noteq> (Ok (Switched l), st, w')"
  by (auto simp: heal_or_stay_degraded_def try_heal_not_switched split: sum.splits prod.splits)

lemma on_pass_quiet: "on_pass ct config hk cfg status w = (Ok a, status', w') \<Longrightarrow> \<not> is_intervention a"
  by (auto simp: on_pass_def split: prod.splits bool.splits option.splits)

text \<open>An intervention of the failing branch goes through \<open>escalate\<close>, with its reasons.\<close>

lemma on_failure_intervention:
  assumes "on_failure ct config hk cfg status active w = (Ok a, status', w')" and "is_intervention a"
  shows "\<exists>b w1 st. tunnel_confirms_trouble config hk active w = (b, w1)
     \<and> (b \<or> fc_required_consecutive_failures config \<le> fs_consecutive_failures status + 1)
     \<and> \<not> younger_than ct w1 (ct_last_auto_switch ct w1) (fc_cooldown_after_auto_switch config)
     \<and> escalate ct config hk cfg st active w1 = (Ok a, status', w')"
  using assms by (auto simp: on_failure_def Let_def split: prod.splits if_splits)

section \<open>Properties\<close>

text \<open>
  Claim C9.  No unconfirmed switch: whenever a cycle reports that it switched to another node or
  healed, it did so to a node of the catalog that had passed a whole scatter of its own
  immediately before the switch, and the world it ends in is the one that switch produced.
\<close>

theorem switch_needs_confirmation:
  assumes "run_failover_cycle ct config hk status w = (Ok a, status', w')" and "a = Switched label \<or> a = Healed label"
  shows "\<exists>node w0 w1 w2 ts report. ct_load_probe_targets ct w0 = Ok ts \<and> node \<in> snd ` set ts
     \<and> hk_probe hk node (ct_scatter_config ct w) w1 = (Ok report, w2) \<and> sr_passes report
     \<and> hk_switch_node hk node True w2 = (Ok label, w')"
proof (cases "ct_is_degraded ct w")
  case True
  then obtain st where "heal_or_stay_degraded ct config hk (ct_scatter_config ct w) st w = (Ok a, status', w')"
    using assms(1) by (simp add: run_failover_cycle_def Let_def)
  with assms(2) heal_not_switched have "heal_or_stay_degraded ct config hk (ct_scatter_config ct w) st w = (Ok (Healed label), status', w')"
    by metis
  from heal_Healed[OF this] show ?thesis by blast
next
  case False
  have adopt: "unwrap_or IdleAction x \<noteq> a" if "auto_adopt ct config hk cfg st w = (Ok x, st', v)" for cfg st x st' v
    using that assms(2)
    by (auto simp: auto_adopt_def Let_def split: sum.splits prod.splits if_splits list.splits option.splits)
  show ?thesis
  proof (cases "ct_active_node ct w")
    case None
    with False assms adopt show ?thesis
      by (auto simp: run_failover_cycle_def Let_def split: sum.splits prod.splits if_splits)
  next
    case (Some node)
    let ?cfg = "ct_scatter_config ct w"
    obtain st v where "on_failure ct config hk ?cfg st node v = (Ok a, status', w')"
      using Some False assms
      by (auto simp: run_failover_cycle_def Let_def dest: on_pass_quiet split: sum.splits prod.splits if_splits)
    moreover have "is_intervention a" using assms(2) by auto
    ultimately obtain st' w1 where "escalate ct config hk ?cfg st' node w1 = (Ok a, status', w')"
      by (auto dest: on_failure_intervention)
    with assms(2) escalate_not_healed have "escalate ct config hk ?cfg st' node w1 = (Ok (Switched label), status', w')"
      by metis
    from escalate_Switched[OF this] show ?thesis by blast
  qed
qed

text \<open>
  A small world to run cycles in: the log of the hook calls.  Node \<open>a\<close> is active and dead, so is
  \<open>c\<close>; the third catalog node carries the label given and passes.
\<close>

definition sample_ct :: "string \<Rightarrow> string list controller" where
  "sample_ct other = \<lparr>ct_scatter_config = (\<lambda>w. ScatterConfig_default),
     ct_active_node = (\<lambda>w. Some (sample_node ''a'' ''a.example'' 1)), ct_is_degraded = (\<lambda>w. False),
     ct_last_manual_switch = (\<lambda>w. None), ct_last_auto_switch = (\<lambda>w. None),
     ct_load_probe_targets = (\<lambda>w. Ok [(1, sample_node ''a'' ''a.example'' 1), (2, sample_node ''c'' ''c.example'' 3),
       (3, sample_node other ''b.example'' 2)]),
     ct_now = (\<lambda>w. 0), ct_utc_secs = (\<lambda>w. 0)\<rparr>"

definition sample_report :: "bool \<Rightarrow> scatter_report" where
  "sample_report p = \<lparr>sr_checks = [], sr_verified = 2, sr_total = 2, sr_quorum_verified = 2, sr_passes = p\<rparr>"

definition sample_hk :: "string \<Rightarrow> string list hooks" where
  "sample_hk other = \<lparr>
     hk_probe = (\<lambda>node cfg w. (Ok (sample_report (cn_endpoint node = Domain ''b.example'' 2)), w @ [''probe''])),
     hk_rescore = (\<lambda>nodes cfg limit w. (Ok [sample_score 2 other True 40], w @ [''rescore''])),
     hk_switch_node = (\<lambda>node automatic w. (Ok (nm_label (cn_meta node)), w @ [''switch''])),
     hk_degrade = (\<lambda>w. w @ [''degrade'']), hk_tunnel_health = None\<rparr>"

definition eager :: failover_config where
  "eager = FailoverConfig_default\<lparr>fc_required_consecutive_failures := 1\<rparr>"

lemmas sample_defs = sample_ct_def sample_hk_def sample_report_def eager_def FailoverConfig_default_def
  sample_node_def sample_meta_def

lemma sample_cycle_fails:
  "run_failover_cycle (sample_ct other) eager (sample_hk other) status [] =
     escalate (sample_ct other) eager (sample_hk other) ScatterConfig_default
       (status\<lparr>fs_active_node := Some ''a'', fs_degraded := False,
          fs_consecutive_failures := fs_consecutive_failures status + 1\<rparr>) (sample_node ''a'' ''a.example'' 1) [''probe'']"
  by (simp add: run_failover_cycle_def sample_defs Let_def younger_than_def on_failure_def
      tunnel_confirms_trouble_def)

lemma sample_rank:
  "rank_working_nodes [sample_score 2 other True 40] tracks ids c now = [rank_one tracks ids c now (sample_score 2 other True 40)]"
  by (simp add: rank_working_nodes_def sample_score_def)

lemma sample_switches:
  "\<exists>st. run_failover_cycle (sample_ct ''b'') eager (sample_hk ''b'') FailoverStatus_default [] =
     (Ok (Switched ''b''), st, [''probe'', ''rescore'', ''probe'', ''switch''])"
proof -
  have f: "filter (\<lambda>score. cs_label score \<noteq> ''a'') [sample_score 2 ''b'' True 40] = [sample_score 2 ''b'' True 40]"
    "cs_node_index (sample_score 2 ''b'' True 40) = 2"
    by (simp_all add: sample_score_def)
  show ?thesis
    unfolding sample_cycle_fails escalate_def
    by (simp add: sample_ct_def sample_hk_def candidate_pairs_def Let_def sample_node_def sample_meta_def f
        sample_rank vec_get_def sample_report_def del: filter.simps)
qed

theorem switch_needs_confirmation_witness:
  "\<exists>node w1 w2 report. hk_probe (sample_hk ''b'') node ScatterConfig_default w1 = (Ok report, w2) \<and> sr_passes report
     \<and> hk_switch_node (sample_hk ''b'') node True w2 = (Ok ''b'', [''probe'', ''rescore'', ''probe'', ''switch''])"
proof -
  obtain st where run: "run_failover_cycle (sample_ct ''b'') eager (sample_hk ''b'') FailoverStatus_default [] =
     (Ok (Switched ''b''), st, [''probe'', ''rescore'', ''probe'', ''switch''])"
    using sample_switches by blast
  have cfg: "ct_scatter_config (sample_ct ''b'') [] = ScatterConfig_default" by (simp add: sample_ct_def)
  show ?thesis using switch_needs_confirmation[OF run, of "''b''"] unfolding cfg by blast
qed

text \<open>
  Claim C10.  Escalation needs evidence: while a node is active and the engine is not degraded, it
  switches, or drops to direct, only if the probe of the active node failed in this cycle, the
  failures in a row have reached the configured number or the kernel graded the live tunnel below
  the floor, no manual switch is too young and no automatic switch is inside its cool-down.
\<close>

theorem intervention_needs_evidence:
  assumes "run_failover_cycle ct config hk status w = (Ok a, status', w')" and "is_intervention a"
    and "ct_active_node ct w = Some node" and "\<not> ct_is_degraded ct w"
  shows "\<exists>q w1 b w2. hk_probe hk node (ct_scatter_config ct w) w = (q, w1) \<and> (case q of Inl e \<Rightarrow> True | Inr report \<Rightarrow> \<not> sr_passes report)
    \<and> tunnel_confirms_trouble config hk node w1 = (b, w2)
    \<and> (b \<or> fc_required_consecutive_failures config \<le> fs_consecutive_failures status + 1)
    \<and> \<not> younger_than ct w (ct_last_manual_switch ct w) (fc_min_time_since_manual_switch config)
    \<and> \<not> younger_than ct w2 (ct_last_auto_switch ct w2) (fc_cooldown_after_auto_switch config)"
proof -
  let ?cfg = "ct_scatter_config ct w"
  let ?st = "status\<lparr>fs_active_node := Some (nm_label (cn_meta node)), fs_degraded := False\<rparr>"
  obtain q w1 where q: "hk_probe hk node ?cfg w = (q, w1)" by fastforce
  have young: "\<not> younger_than ct w (ct_last_manual_switch ct w) (fc_min_time_since_manual_switch config)"
    using assms by (auto simp: run_failover_cycle_def Let_def)
  have failed: "case q of Inl e \<Rightarrow> True | Inr report \<Rightarrow> \<not> sr_passes report"
    using assms q young
    by (auto simp: run_failover_cycle_def Let_def dest: on_pass_quiet split: sum.splits)
  then have "on_failure ct config hk ?cfg ?st node w1 = (Ok a, status', w')"
    using assms q young by (auto simp: run_failover_cycle_def Let_def split: sum.splits)
  from on_failure_intervention[OF this assms(2)] q young failed show ?thesis by auto
qed

theorem intervention_needs_evidence_witness:
  "fc_required_consecutive_failures eager \<le> fs_consecutive_failures FailoverStatus_default + 1
   \<and> (\<exists>st. run_failover_cycle (sample_ct ''b'') eager (sample_hk ''b'') FailoverStatus_default [] =
        (Ok (Switched ''b''), st, [''probe'', ''rescore'', ''probe'', ''switch'']))"
proof -
  obtain st where run: "run_failover_cycle (sample_ct ''b'') eager (sample_hk ''b'') FailoverStatus_default [] =
     (Ok (Switched ''b''), st, [''probe'', ''rescore'', ''probe'', ''switch''])"
    using sample_switches by blast
  have "ct_active_node (sample_ct ''b'') [] = Some (sample_node ''a'' ''a.example'' 1)" "\<not> ct_is_degraded (sample_ct ''b'') []"
    "hk_tunnel_health (sample_hk ''b'') = None"
    by (simp_all add: sample_ct_def sample_hk_def)
  with intervention_needs_evidence[OF run] run show ?thesis
    by (auto simp: tunnel_confirms_trouble_def split: option.splits)
qed

text \<open>
  Dropping to direct: with an active node, the engine degrades only when the catalog
  was scored in this cycle and every candidate that passed carries the label of the failed node;
  what happened to the world last is the degrade hook.
\<close>

theorem degrade_needs_empty_shortlist:
  assumes "run_failover_cycle ct config hk status w = (Ok Degraded, status', w')"
    and "ct_active_node ct w = Some node" and "\<not> ct_is_degraded ct w"
  shows "\<exists>w1 w2 ts scores. ct_load_probe_targets ct w1 = Ok ts
    \<and> hk_rescore hk (map snd ts) (ct_scatter_config ct w) (fc_rescore_limit config) w1 = (Ok scores, w2)
    \<and> w' = hk_degrade hk w2 \<and> (\<forall>s \<in> set scores. cs_passes s \<longrightarrow> cs_label s = nm_label (cn_meta node))"
proof -
  obtain st v where "on_failure ct config hk (ct_scatter_config ct w) st node v = (Ok Degraded, status', w')"
    using assms
    by (auto simp: run_failover_cycle_def Let_def dest: on_pass_quiet split: sum.splits prod.splits if_splits)
  from on_failure_intervention[OF this] obtain st' w1
    where "escalate ct config hk (ct_scatter_config ct w) st' node w1 = (Ok Degraded, status', w')"
    by auto
  from escalate_Degraded[OF this] show ?thesis by blast
qed

lemma sample_degrades:
  "\<exists>st. run_failover_cycle (sample_ct ''a'') eager (sample_hk ''a'') FailoverStatus_default [] =
     (Ok Degraded, st, [''probe'', ''rescore'', ''degrade''])"
proof -
  have f: "filter (\<lambda>score. cs_label score \<noteq> ''a'') [sample_score 2 ''a'' True 40] = []"
    by (simp add: sample_score_def)
  show ?thesis
    unfolding sample_cycle_fails escalate_def
    by (simp add: sample_ct_def sample_hk_def candidate_pairs_def Let_def sample_node_def sample_meta_def f
        rank_working_nodes_def del: filter.simps)
qed

theorem degrade_needs_empty_shortlist_witness:
  "\<exists>w1 w2 (ts :: (u32 \<times> canonical_node) list) scores. hk_rescore (sample_hk ''a'') (map snd ts) ScatterConfig_default 8 w1 = (Ok scores, w2)
     \<and> [''probe'', ''rescore'', ''degrade''] = hk_degrade (sample_hk ''a'') w2
     \<and> (\<forall>s \<in> set scores. cs_passes s \<longrightarrow> cs_label s = ''a'')"
proof -
  obtain st where run: "run_failover_cycle (sample_ct ''a'') eager (sample_hk ''a'') FailoverStatus_default [] =
     (Ok Degraded, st, [''probe'', ''rescore'', ''degrade''])"
    using sample_degrades by blast
  have "ct_active_node (sample_ct ''a'') [] = Some (sample_node ''a'' ''a.example'' 1)" "\<not> ct_is_degraded (sample_ct ''a'') []"
    by (simp_all add: sample_ct_def)
  note found = degrade_needs_empty_shortlist[OF run this]
  have eqs: "nm_label (cn_meta (sample_node ''a'' ''a.example'' 1)) = ''a''" "fc_rescore_limit eager = 8"
    "ct_scatter_config (sample_ct ''a'') [] = ScatterConfig_default"
    by (simp_all add: sample_node_def sample_meta_def sample_ct_def eager_def FailoverConfig_default_def)
  show ?thesis using found unfolding eqs by blast
qed

text \<open>
  The incumbent is taken out of the shortlist by its label, not by its identity: with
  two catalog nodes that share a label, the engine drops to direct internet although the other
  node, at another endpoint, had just passed its trial and would pass the confirmation.
\<close>

theorem same_label_candidate_ignored:
  "\<exists>ct hk status (w :: string list) active node ts scores w1.
     ct_active_node ct w = Some active \<and> ct_load_probe_targets ct w = Ok ts \<and> node \<in> snd ` set ts
     \<and> cn_endpoint node \<noteq> cn_endpoint active \<and> hk_rescore hk (map snd ts) ScatterConfig_default 8 [''probe''] = (Ok scores, w1)
     \<and> (\<exists>s \<in> set scores. cs_passes s \<and> map snd ts ! cs_node_index s = node)
     \<and> (\<forall>v cfg. \<exists>report v'. hk_probe hk node cfg v = (Ok report, v') \<and> sr_passes report)
     \<and> (\<exists>st w'. run_failover_cycle ct eager hk status w = (Ok Degraded, st, w'))"
proof -
  let ?n = "sample_node ''a'' ''b.example'' 2" and ?a = "sample_node ''a'' ''a.example'' 1"
  let ?ts = "[(1, ?a), (2, sample_node ''c'' ''c.example'' 3), (3, ?n)]"
  have mem: "?n \<in> snd ` set ?ts" by simp
  have "cs_passes (sample_score 2 ''a'' True 40)" "map snd ?ts ! cs_node_index (sample_score 2 ''a'' True 40) = ?n"
    by (simp_all add: sample_score_def)
  then have passer: "\<exists>s \<in> set [sample_score 2 ''a'' True 40]. cs_passes s \<and> map snd ?ts ! cs_node_index s = ?n"
    by (intro bexI[of _ "sample_score 2 ''a'' True 40"] conjI) simp_all
  have other: "cn_endpoint ?n \<noteq> cn_endpoint ?a" by (simp add: sample_node_def)
  have confirms: "\<forall>v cfg. \<exists>report v'. hk_probe (sample_hk ''a'') ?n cfg v = (Ok report, v') \<and> sr_passes report"
    by (simp add: sample_hk_def sample_report_def sample_node_def)
  have scored: "hk_rescore (sample_hk ''a'') (map snd ?ts) ScatterConfig_default 8 [''probe''] =
      (Ok [sample_score 2 ''a'' True 40], [''probe'', ''rescore''])"
    by (simp add: sample_hk_def)
  have ct: "ct_active_node (sample_ct ''a'') [] = Some ?a" "ct_load_probe_targets (sample_ct ''a'') [] = Ok ?ts"
    by (simp_all add: sample_ct_def)
  have degrades: "\<exists>st w'. run_failover_cycle (sample_ct ''a'') eager (sample_hk ''a'') FailoverStatus_default [] = (Ok Degraded, st, w')"
    using sample_degrades by blast
  show ?thesis
    by (rule exI[of _ "sample_ct ''a''"], rule exI[of _ "sample_hk ''a''"], rule exI[of _ FailoverStatus_default],
        rule exI[of _ "[]"], rule exI[of _ ?a], rule exI[of _ ?n], rule exI[of _ ?ts],
        rule exI[of _ "[sample_score 2 ''a'' True 40]"], rule exI[of _ "[''probe'', ''rescore'']"])
       (intro conjI; fact mem passer other confirms scored ct degrades)
qed

text \<open>
  Adoption is not confirmed: with no active node, the engine switches to the cheapest
  passing candidate in the very world the scoring left, with no probe in between; and when it
  reports that it degraded, nothing was done to the world after the scoring.
\<close>

theorem auto_adopt_skips_confirmation:
  assumes "run_failover_cycle ct config hk status w = (Ok a, status', w')" and "is_intervention a"
    and "ct_active_node ct w = None" and "\<not> ct_is_degraded ct w"
  shows "\<exists>ts scores w1. ct_load_probe_targets ct w = Ok ts
    \<and> hk_rescore hk (map snd ts) (ct_scatter_config ct w) (fc_rescore_limit config) w = (Ok scores, w1)
    \<and> (case a of
         AdoptedNode label \<Rightarrow> \<exists>s \<in> set scores. cs_passes s \<and> cs_node_index s < length ts
             \<and> hk_switch_node hk (snd (ts ! cs_node_index s)) True w1 = (Ok label, w')
       | Degraded \<Rightarrow> w' = w1 \<and> (\<forall>s \<in> set scores. \<not> cs_passes s)
       | _ \<Rightarrow> False)"
proof -
  let ?st = "status\<lparr>fs_active_node := None, fs_degraded := False\<rparr>"
  obtain x where x: "auto_adopt ct config hk (ct_scatter_config ct w) ?st w = (Ok x, status', w')" "unwrap_or IdleAction x = a"
    using assms by (auto simp: run_failover_cycle_def Let_def split: if_splits prod.splits sum.splits)
  then obtain ts scores w1 where ts: "ct_load_probe_targets ct w = Ok ts" "ts \<noteq> []"
    "hk_rescore hk (map snd ts) (ct_scatter_config ct w) (fc_rescore_limit config) w = (Ok scores, w1)"
    using assms(2) by (auto simp: auto_adopt_def candidate_pairs_def split: sum.splits if_splits prod.splits)
  define sel where "sel = observe_round (map fst ts) scores (ct_now ct w1) (fs_selector status)"
  let ?R = "rank_working_nodes scores (as_tracks sel) (map fst ts) (as_config sel) (ct_now ct w1)"
  show ?thesis
  proof (cases ?R)
    case Nil
    with x ts have "a = Degraded" "w' = w1"
      by (auto simp: auto_adopt_def candidate_pairs_def Let_def sel_def)
    with ts Nil show ?thesis by (auto simp: rank_empty_iff)
  next
    case (Cons best rest)
    then obtain s where s: "s \<in> set scores" "cs_passes s" "rn_node_index best = cs_node_index s"
      using rank_mem[of best scores "as_tracks sel" "map fst ts" "as_config sel" "ct_now ct w1"] by auto
    with Cons[unfolded sel_def] x ts assms(2) show ?thesis
      by (auto simp: auto_adopt_def candidate_pairs_def Let_def vec_get_def
          split: if_splits prod.splits sum.splits)
  qed
qed

definition idle_ct :: "string list controller" where
  "idle_ct = (sample_ct ''b'')\<lparr>ct_active_node := (\<lambda>w. None)\<rparr>"

lemma idle_adopts:
  "\<exists>st. run_failover_cycle idle_ct eager (sample_hk ''b'') FailoverStatus_default [] =
     (Ok (AdoptedNode ''b''), st, [''rescore'', ''switch''])"
  by (simp add: run_failover_cycle_def idle_ct_def sample_ct_def sample_hk_def eager_def FailoverConfig_default_def
      auto_adopt_def candidate_pairs_def Let_def sample_rank vec_get_def sample_node_def sample_meta_def
      del: observe_round.simps)
     (simp add: sample_score_def)

theorem auto_adopt_skips_confirmation_witness:
  "\<exists>st. run_failover_cycle idle_ct eager (sample_hk ''b'') FailoverStatus_default [] =
       (Ok (AdoptedNode ''b''), st, [''rescore'', ''switch''])
   \<and> (\<exists>node. hk_switch_node (sample_hk ''b'') node True [''rescore''] = (Ok ''b'', [''rescore'', ''switch'']))"
proof -
  obtain st where run: "run_failover_cycle idle_ct eager (sample_hk ''b'') FailoverStatus_default [] =
     (Ok (AdoptedNode ''b''), st, [''rescore'', ''switch''])"
    using idle_adopts by blast
  have "ct_active_node idle_ct [] = None" "\<not> ct_is_degraded idle_ct []"
    by (simp_all add: idle_ct_def sample_ct_def)
  from auto_adopt_skips_confirmation[OF run _ this] run show ?thesis
    by (auto simp: sample_hk_def)
qed

section \<open>Stopping\<close>

lemma wd_advance_stop [simp]: "wd_stop (wd_advance ct config hk d) = wd_stop d"
  by (auto simp: wd_advance_def split: wd_phase.splits prod.splits sum.splits)

lemma wd_ended [simp]: "wd_phase d = Ended \<Longrightarrow> wd_advance ct config hk d = d"
  by (simp add: wd_advance_def)

lemma wd_looking: "wd_phase d = Looking \<Longrightarrow> wd_stop d \<Longrightarrow> wd_advance ct config hk d = d\<lparr>wd_phase := Ended\<rparr>"
  by (simp add: wd_advance_def)

lemma wd_sleeping: "wd_phase d = Sleeping \<Longrightarrow> wd_advance ct config hk d = d\<lparr>wd_phase := Looking\<rparr>"
  by (simp add: wd_advance_def)

lemma wd_cycling:
  assumes "wd_phase d = Cycling"
  shows "wd_phase (wd_advance ct config hk d) \<in> {Ended, Sleeping} \<and> wd_cycles (wd_advance ct config hk d) = wd_cycles d + 1"
  using assms by (simp add: wd_advance_def split: prod.splits sum.splits)

text \<open>
  A watchdog that was told to stop ends: whatever it was doing, three steps later its
  thread is over, and it has run at most the cycle it had already begun.
\<close>

theorem stopped_watchdog_ends:
  "wd_phase (((wd_advance ct config hk) ^^ 3) (EgressWatchdog_stop d)) = Ended
   \<and> wd_cycles (((wd_advance ct config hk) ^^ 3) (EgressWatchdog_stop d))
       \<le> wd_cycles d + (if wd_phase d = Cycling then 1 else 0)"
proof -
  let ?adv = "wd_advance ct config hk" and ?d = "EgressWatchdog_stop d"
  have three: "(?adv ^^ 3) ?d = ?adv (?adv (?adv ?d))" by (simp add: eval_nat_numeral)
  have d: "wd_stop ?d" "wd_phase ?d = wd_phase d" "wd_cycles ?d = wd_cycles d" by (simp_all add: EgressWatchdog_stop_def)
  show ?thesis
  proof (cases "wd_phase d")
    case Cycling
    have one: "wd_phase (?adv ?d) \<in> {Ended, Sleeping}" "wd_cycles (?adv ?d) = wd_cycles d + 1" "wd_stop (?adv ?d)"
      using wd_cycling[of ?d] d Cycling by simp_all
    then show ?thesis
      unfolding three using Cycling by (cases "wd_phase (?adv ?d)") (simp_all add: wd_sleeping wd_looking)
  qed (use d in \<open>simp_all add: three wd_sleeping wd_looking\<close>)
qed

end
