(* ===== verification/Adapter.thy ===== *)
theory Adapter
  imports Rust_Utf8 IR Egress
begin

text \<open>
  The sing-box adapter, \<open>crates/adapter/src/lib.rs\<close>, and the testbed configurations of
  \<open>egress.rs\<close>: JSON values, the outbound of a node, routing, DNS and the full configuration, and
  the reading of the default gateway.  A JSON object is an association list with the insertion of
  \<open>serde_json::Map\<close>; only lookups by key are observed.  Printing a UUID is code of the \<open>uuid\<close> crate
  and a parameter.
\<close>

unbundle bit_operations_syntax

section \<open>JSON\<close>

datatype json = JNull | JBool bool | JNum int | JStr string | JArr "json list" | JObj "(string \<times> json) list"

type_synonym jmap = "(string \<times> json) list"

fun map_insert :: "string \<Rightarrow> json \<Rightarrow> jmap \<Rightarrow> jmap" where
  "map_insert k v [] = [(k, v)]"
| "map_insert k v ((k', v') # m) = (if k' = k then (k, v) # m else (k', v') # map_insert k v m)"

fun jget :: "string \<Rightarrow> json \<Rightarrow> json option" where
  "jget k (JObj m) = map_of m k"
| "jget k _ = None"

fun as_str :: "json \<Rightarrow> string option" where
  "as_str (JStr s) = Some s"
| "as_str _ = None"

definition jopt :: "('a \<Rightarrow> json) \<Rightarrow> 'a option \<Rightarrow> json" where
  "jopt f x = (case x of None \<Rightarrow> JNull | Some a \<Rightarrow> f a)"

section \<open>Names\<close>

fun flow_name :: "vless_flow \<Rightarrow> string" where
  "flow_name XtlsRprxVision = ''xtls-rprx-vision''"
| "flow_name XtlsRprxVisionUdp443 = ''xtls-rprx-vision-udp443''"

fun cipher_name :: "vmess_cipher \<Rightarrow> string" where
  "cipher_name VmAuto = ''auto''"
| "cipher_name VmAes128Gcm = ''aes-128-gcm''"
| "cipher_name VmChacha20Poly1305 = ''chacha20-poly1305''"
| "cipher_name VmNone = ''none''"

fun ss_method_name :: "shadowsocks_cipher \<Rightarrow> string" where
  "ss_method_name SsAes128Gcm = ''aes-128-gcm''"
| "ss_method_name SsAes256Gcm = ''aes-256-gcm''"
| "ss_method_name SsChacha20IetfPoly1305 = ''chacha20-ietf-poly1305''"
| "ss_method_name Ss2022Blake3Aes128Gcm = ''2022-blake3-aes-128-gcm''"
| "ss_method_name Ss2022Blake3Aes256Gcm = ''2022-blake3-aes-256-gcm''"
| "ss_method_name Ss2022Blake3Chacha20Poly1305 = ''2022-blake3-chacha20-poly1305''"

fun congestion_name :: "tuic_congestion \<Rightarrow> string" where
  "congestion_name Bbr = ''bbr''"
| "congestion_name Cubic = ''cubic''"
| "congestion_name NewReno = ''new_reno''"

fun relay_mode :: "tuic_udp_relay \<Rightarrow> string" where
  "relay_mode RelayNative = ''native''"
| "relay_mode RelayQuic = ''quic''"

fun mux_protocol_name :: "mux_protocol \<Rightarrow> string" where
  "mux_protocol_name Smux = ''smux''"
| "mux_protocol_name Yamux = ''yamux''"
| "mux_protocol_name H2Mux = ''h2mux''"

fun xhttp_mode_name :: "xhttp_mode \<Rightarrow> string" where
  "xhttp_mode_name StreamOne = ''stream-one''"
| "xhttp_mode_name StreamUp = ''stream-up''"
| "xhttp_mode_name PacketUp = ''packet-up''"

fun fingerprint_name :: "utls_fingerprint \<Rightarrow> string option" where
  "fingerprint_name FpChrome = Some ''chrome''"
| "fingerprint_name FpFirefox = Some ''firefox''"
| "fingerprint_name FpSafari = Some ''safari''"
| "fingerprint_name FpEdge = Some ''edge''"
| "fingerprint_name FpRandomized = Some ''randomized''"
| "fingerprint_name FpNone = None"

section \<open>The outbound builder\<close>

definition set_opt :: "string \<Rightarrow> ('a \<Rightarrow> json) \<Rightarrow> 'a option \<Rightarrow> jmap \<Rightarrow> jmap" where
  "set_opt k f x m = (case x of None \<Rightarrow> m | Some a \<Rightarrow> map_insert k (f a) m)"

definition embed_mux :: "mux_spec option \<Rightarrow> jmap \<Rightarrow> jmap" where
  "embed_mux mux m = set_opt ''multiplex'' (\<lambda>x. JObj [(''enabled'', JBool (mx_enabled x)),
     (''protocol'', JStr (mux_protocol_name (mx_protocol x))),
     (''max_connections'', JNum (uint (mx_concurrency x)))]) mux m"

fun embed_transport :: "transport_spec \<Rightarrow> jmap \<Rightarrow> jmap" where
  "embed_transport Tcp m = m"
| "embed_transport (WebSocket c) m =
     (let headers = set_opt ''Host'' JStr (ws_host c) [];
          ws = map_insert ''path'' (JStr (ws_path c)) (map_insert ''type'' (JStr ''ws'') []);
          ws = (if headers = [] then ws else map_insert ''headers'' (JObj headers) ws);
          ws = map_insert ''max_early_data'' (JNum (uint (ws_max_early_data c))) ws;
          ws = map_insert ''early_data_header_name'' (jopt JStr (ws_early_data_header c)) ws
      in map_insert ''transport'' (JObj ws) m)"
| "embed_transport (Grpc c) m =
     map_insert ''transport'' (JObj [(''type'', JStr ''grpc''), (''service_name'', JStr (gr_service_name c)),
       (''mode'', JStr (if gr_multi_mode c then ''multi'' else ''gun''))]) m"
| "embed_transport (HttpUpgrade c) m =
     map_insert ''transport'' (JObj (map_insert ''path'' (JStr (hu_path c))
       (set_opt ''host'' JStr (hu_host c) (map_insert ''type'' (JStr ''httpupgrade'') [])))) m"
| "embed_transport (XHttp c) m =
     map_insert ''transport'' (JObj [(''type'', JStr ''xhttp''), (''mode'', JStr (xhttp_mode_name (xh_mode c))),
       (''path'', JStr (xh_path c))]) m"

definition embed_utls :: "utls_fingerprint \<Rightarrow> jmap \<Rightarrow> jmap" where
  "embed_utls fp m = set_opt ''utls'' (\<lambda>name. JObj [(''enabled'', JBool True), (''fingerprint'', JStr name)])
     (fingerprint_name fp) m"

fun embed_security :: "security_spec \<Rightarrow> jmap \<Rightarrow> jmap" where
  "embed_security SecNone m = m"
| "embed_security (SecTls c) m =
     (let tls = map_insert ''insecure'' (JBool (tl_allow_insecure c))
            (map_insert ''server_name'' (JStr (tl_server_name c)) (map_insert ''enabled'' (JBool True) []));
          tls = (if tl_alpn c = [] then tls else map_insert ''alpn'' (JArr (map JStr (tl_alpn c))) tls)
      in map_insert ''tls'' (JObj (embed_utls (tl_fingerprint c) tls)) m)"
| "embed_security (SecReality c) m =
     (let tls = embed_utls (re_fingerprint c)
            (map_insert ''server_name'' (JStr (re_server_name c)) (map_insert ''enabled'' (JBool True) []));
          reality = map_insert ''short_id'' (JStr (re_short_id c))
            (map_insert ''public_key'' (JStr (re_public_key c)) (map_insert ''enabled'' (JBool True) []));
          reality = set_opt ''spider_x'' JStr (re_spider_x c) reality
      in map_insert ''tls'' (JObj (map_insert ''reality'' (JObj reality) tls)) m)"

definition OutboundBuilder_new :: "canonical_node \<Rightarrow> jmap" where
  "OutboundBuilder_new node = embed_mux (cn_mux node) [(''tag'', JStr (nm_label (cn_meta node)))]"

text \<open>
  \<open>{:?}\<close> of a string: quoted, with the escapes of the ASCII characters that have one.  Bytes outside ASCII stand as they
  are, where the library would escape the characters that cannot be printed.
\<close>

definition debug_char :: "char \<Rightarrow> string" where
  "debug_char c =
     (let n = of_char c :: nat; bs = char_of (92 :: nat); quo = char_of (34 :: nat) in
      if n = 0 then [bs, CHR ''0'']
      else if n = 9 then [bs, CHR ''t'']
      else if n = 10 then [bs, CHR ''n'']
      else if n = 13 then [bs, CHR ''r'']
      else if c = bs \<or> c = quo then [bs, c]
      else if n < 32 \<or> n = 127 then [bs, CHR ''u'', CHR ''{''] @ show_radix 16 n @ ''}''
      else [c])"

definition debug_str :: "string \<Rightarrow> string" where
  "debug_str s = [char_of (34 :: nat)] @ concat (map debug_char s) @ [char_of (34 :: nat)]"

definition validate_server :: "string \<Rightarrow> unit res" where
  "validate_server server =
     (if server = [] \<or> contains_ws server then Err (''invalid server address: '' @ debug_str server) else Ok ())"

definition endpoint_parts :: "endpoint_target \<Rightarrow> string \<times> u16" where
  "endpoint_parts e = (case e of Ip a \<Rightarrow> (show_ip (sa_ip a), sa_port a) | Domain host port \<Rightarrow> (host, port))"

abbreviation sets :: "string \<Rightarrow> json \<Rightarrow> jmap \<Rightarrow> jmap" where "sets \<equiv> map_insert"

text \<open>The three embeddings at the end of the VLESS, VMess and Trojan arms.\<close>

definition embed_all :: "canonical_node \<Rightarrow> jmap \<Rightarrow> jmap" where
  "embed_all node m = embed_mux (cn_mux node) (embed_security (cn_security node) (embed_transport (cn_transport node) m))"

definition protocol_fields :: "(uuid \<Rightarrow> string) \<Rightarrow> canonical_node \<Rightarrow> jmap \<Rightarrow> jmap" where
  "protocol_fields show_uuid node m =
     (case cn_protocol node of
        Vless c \<Rightarrow> embed_all node (sets ''packet_encoding'' (JStr ''xudp'')
          (set_opt ''flow'' (\<lambda>f. JStr (flow_name f)) (vl_flow c)
          (sets ''uuid'' (JStr (show_uuid (vl_uuid c))) (sets ''type'' (JStr ''vless'') m))))
      | Vmess c \<Rightarrow> embed_all node (sets ''security'' (JStr (cipher_name (vm_cipher c)))
          (sets ''alter_id'' (JNum (uint (vm_alter_id c)))
          (sets ''uuid'' (JStr (show_uuid (vm_uuid c))) (sets ''type'' (JStr ''vmess'') m))))
      | Trojan c \<Rightarrow> embed_all node (sets ''password'' (JStr (tr_password c)) (sets ''type'' (JStr ''trojan'') m))
      | Shadowsocks c \<Rightarrow>
          (let m = sets ''password'' (JStr (ss_password c))
                 (sets ''method'' (JStr (ss_method_name (ss_method c))) (sets ''type'' (JStr ''shadowsocks'') m))
           in case ss_plugin c of None \<Rightarrow> m
              | Some plugin \<Rightarrow> set_opt ''plugin_opts'' JStr (ss_plugin_opts c) (sets ''plugin'' (JStr plugin) m))
      | Hysteria2 c \<Rightarrow>
          set_opt ''port_hopping'' JStr (hy_port_hopping c)
          (set_opt ''obfs'' (\<lambda>ob. JObj [(''type'', JStr (ob_type ob)), (''password'', JStr (ob_password ob))]) (hy_obfs c)
          (set_opt ''down_mbps'' (\<lambda>n. JNum (uint n)) (hy_down_mbps c)
          (set_opt ''up_mbps'' (\<lambda>n. JNum (uint n)) (hy_up_mbps c)
          (sets ''password'' (JStr (hy_password c)) (sets ''type'' (JStr ''hysteria2'') m)))))
      | Tuic c \<Rightarrow>
          sets ''zero_rtt_handshake'' (JBool (tu_zero_rtt_handshake c))
          (sets ''udp_relay_mode'' (JStr (relay_mode (tu_udp_relay_mode c)))
          (sets ''congestion_control'' (JStr (congestion_name (tu_congestion_control c)))
          (sets ''password'' (JStr (tu_password c))
          (sets ''uuid'' (JStr (show_uuid (tu_uuid c))) (sets ''type'' (JStr ''tuic'') m)))))
      | WireGuard c \<Rightarrow>
          set_opt ''mtu'' (\<lambda>n. JNum (uint n)) (wg_mtu c)
          (set_opt ''reserved'' (\<lambda>(a, b, d). JArr [JNum (uint a), JNum (uint b), JNum (uint d)]) (wg_reserved c)
          (sets ''peers'' (JArr [JObj (set_opt ''preshared_key'' JStr (wg_preshared_key c)
             (sets ''public_key'' (JStr (wg_peer_public_key c)) []))])
          (sets ''local_address'' (JArr (map (\<lambda>a. JStr (show_ip a)) (wg_local_address c)))
          (sets ''private_key'' (JStr (wg_private_key c)) (sets ''type'' (JStr ''wireguard'') m))))))"

definition compile_outbound :: "(uuid \<Rightarrow> string) \<Rightarrow> canonical_node \<Rightarrow> json res" where
  "compile_outbound show_uuid node =
     (case endpoint_parts (cn_endpoint node) of (server, port) \<Rightarrow>
      try_then (validate_server server) (\<lambda>_.
        Ok (JObj (protocol_fields show_uuid node
          (sets ''tag'' (JStr (nm_label (cn_meta node)))
          (sets ''server_port'' (JNum (uint port))
          (sets ''server'' (JStr server) (OutboundBuilder_new node))))))))"

section \<open>The whole configuration\<close>

definition compile_tproxy_inbound :: "string \<Rightarrow> u16 \<Rightarrow> json" where
  "compile_tproxy_inbound listen port = JObj [(''type'', JStr ''tproxy''), (''tag'', JStr ''tproxy-in''),
     (''listen'', JStr listen), (''listen_port'', JNum (uint port))]"

definition compile_routing :: "string \<Rightarrow> u32 \<Rightarrow> bool \<Rightarrow> json" where
  "compile_routing outbound_tag mark auto_detect_interface =
     JObj [(''auto_detect_interface'', JBool auto_detect_interface), (''default_mark'', JNum (uint mark)),
       (''rules'', JArr [JObj [(''action'', JStr ''sniff''), (''override_destination'', JBool True)],
          JObj [(''action'', JStr ''route''), (''outbound'', JStr outbound_tag)]])]"

datatype dns_provider = Cloudflare | Quad9 | Google | AdGuard | CustomDns string

fun dns_server :: "dns_provider \<Rightarrow> string" where
  "dns_server Cloudflare = ''1.1.1.1''"
| "dns_server Quad9 = ''dns.quad9.net''"
| "dns_server Google = ''dns.google''"
| "dns_server AdGuard = ''dns.adguard-dns.com''"
| "dns_server (CustomDns host) = host"

record local_dns =
  ld_ipv4 :: ipv4
  ld_port :: u16

definition compile_dns :: "string \<Rightarrow> dns_provider \<Rightarrow> local_dns option \<Rightarrow> json" where
  "compile_dns proxy_outbound provider local =
     JObj [(''servers'', JArr ([JObj [(''type'', JStr ''https''), (''tag'', JStr ''tunnel-dns''),
              (''server'', JStr (dns_server provider)), (''detour'', JStr proxy_outbound)]] @
            (case local of None \<Rightarrow> [] | Some l \<Rightarrow>
              [JObj [(''type'', JStr ''udp''), (''tag'', JStr ''local-dns''), (''server'', JStr (show_ipv4 (ld_ipv4 l))),
                 (''server_port'', JNum (uint (ld_port l))), (''detour'', JStr ''direct'')]]))),
        (''rules'', JArr ((case local of None \<Rightarrow> [] | Some l \<Rightarrow>
              [JObj [(''outbound'', JArr [JStr ''direct'']), (''server'', JStr ''local-dns'')]]) @
            [JObj [(''server'', JStr ''tunnel-dns'')]])),
        (''strategy'', JStr ''ipv4_only''), (''independent_cache'', JBool False)]"

definition direct_outbound :: json where
  "direct_outbound = JObj [(''type'', JStr ''direct''), (''tag'', JStr ''direct'')]"

definition outbound_tag_of :: "json \<Rightarrow> string" where
  "outbound_tag_of outbound = unwrap_or ''proxy'' (Option.bind (jget ''tag'' outbound) as_str)"

definition compile_full_config ::
    "(uuid \<Rightarrow> string) \<Rightarrow> canonical_node \<Rightarrow> u16 \<Rightarrow> u32 \<Rightarrow> dns_provider \<Rightarrow> local_dns option \<Rightarrow> json res" where
  "compile_full_config show_uuid node tproxy_port mark dns_prov local =
     try_then (compile_outbound show_uuid node) (\<lambda>outbound.
       let tag = outbound_tag_of outbound in
       Ok (JObj [(''log'', JObj [(''level'', JStr ''info''), (''timestamp'', JBool True)]),
         (''inbounds'', JArr [compile_tproxy_inbound ''::'' tproxy_port]),
         (''outbounds'', JArr [direct_outbound, outbound]),
         (''route'', compile_routing tag mark True),
         (''dns'', compile_dns tag dns_prov local)]))"

definition mixed_inbound :: "u16 \<Rightarrow> json" where
  "mixed_inbound port = JObj [(''type'', JStr ''mixed''), (''tag'', JStr ''mixed-in''),
     (''listen'', JStr ''127.0.0.1''), (''listen_port'', JNum (uint port))]"

definition compile_testbed_config :: "(uuid \<Rightarrow> string) \<Rightarrow> canonical_node \<Rightarrow> u16 \<Rightarrow> json res" where
  "compile_testbed_config show_uuid node socks5_port =
     try_then (compile_outbound show_uuid node) (\<lambda>outbound.
       Ok (JObj [(''log'', JObj [(''level'', JStr ''warn''), (''timestamp'', JBool True)]),
         (''inbounds'', JArr [mixed_inbound socks5_port]),
         (''outbounds'', JArr [direct_outbound, outbound]),
         (''route'', compile_routing (outbound_tag_of outbound) 0 False)]))"

definition compile_direct_testbed_config :: "u16 \<Rightarrow> json" where
  "compile_direct_testbed_config socks5_port =
     JObj [(''log'', JObj [(''level'', JStr ''warn''), (''timestamp'', JBool True)]),
       (''inbounds'', JArr [mixed_inbound socks5_port]),
       (''outbounds'', JArr [direct_outbound]),
       (''route'', compile_routing ''direct'' 0 False)]"

section \<open>The default gateway\<close>

definition swap_bytes :: "u32 \<Rightarrow> u32" where
  "swap_bytes w = word_of_nat (unat w mod 256 * 2 ^ 24 + unat w div 256 mod 256 * 2 ^ 16
     + unat w div 2 ^ 16 mod 256 * 256 + unat w div 2 ^ 24)"

fun route_lines :: "string list \<Rightarrow> ipv4 option" where
  "route_lines [] = None"
| "route_lines (line # rest) =
     (case split_whitespace line of
        iface # destination # tail_fields \<Rightarrow>
          if destination \<noteq> ''00000000'' then route_lines rest
          else (case tail_fields of [] \<Rightarrow> None
                | gateway # _ \<Rightarrow> map_option (\<lambda>n. swap_bytes (word_of_nat n)) (parse_uint 16 (2 ^ 32 - 1) gateway))
      | _ \<Rightarrow> None)"

definition parse_route_table :: "string \<Rightarrow> ipv4 option" where
  "parse_route_table contents = route_lines (drop 1 (lines contents))"

section \<open>What a compiled configuration says\<close>

text \<open>The observers of a configuration: the tags of its outbounds, the outbounds its route rules name,
  and the detours of its DNS servers.\<close>

fun jarr :: "json option \<Rightarrow> json list" where
  "jarr (Some (JArr xs)) = xs"
| "jarr _ = []"

definition strings_at :: "string \<Rightarrow> json list \<Rightarrow> string list" where
  "strings_at k xs = List.map_filter (\<lambda>x. Option.bind (jget k x) as_str) xs"

definition outbound_tags :: "json \<Rightarrow> string list" where
  "outbound_tags cfg = strings_at ''tag'' (jarr (jget ''outbounds'' cfg))"

definition route_targets :: "json \<Rightarrow> string list" where
  "route_targets cfg = strings_at ''outbound'' (jarr (Option.bind (jget ''route'' cfg) (jget ''rules'')))"

definition dns_detours :: "json \<Rightarrow> (string \<times> string) list" where
  "dns_detours cfg = (let servers = jarr (Option.bind (jget ''dns'' cfg) (jget ''servers''))
     in zip (strings_at ''tag'' servers) (strings_at ''detour'' servers))"

definition outbounds_tagged :: "string \<Rightarrow> json \<Rightarrow> json list" where
  "outbounds_tagged t cfg =
     filter (\<lambda>x. Option.bind (jget ''tag'' x) as_str = Some t) (jarr (jget ''outbounds'' cfg))"

definition server_ok :: "canonical_node \<Rightarrow> bool" where
  "server_ok node = (let server = fst (endpoint_parts (cn_endpoint node)) in server \<noteq> [] \<and> \<not> contains_ws server)"

lemma map_of_map_insert [simp]: "map_of (map_insert k v m) = (map_of m)(k \<mapsto> v)"
  by (induction k v m rule: map_insert.induct) (auto simp: fun_eq_iff)

lemma map_of_set_opt:
  "map_of (set_opt k f x m) = (case x of None \<Rightarrow> map_of m | Some a \<Rightarrow> (map_of m)(k \<mapsto> f a))"
  by (simp add: set_opt_def split: option.splits)

lemma map_of_set_opt_other: "k' \<noteq> k \<Longrightarrow> map_of (set_opt k f x m) k' = map_of m k'"
  by (simp add: map_of_set_opt split: option.splits)

lemma map_of_embed_mux: "k \<noteq> ''multiplex'' \<Longrightarrow> map_of (embed_mux x m) k = map_of m k"
  by (simp add: embed_mux_def map_of_set_opt_other)

lemma map_of_embed_transport: "k \<noteq> ''transport'' \<Longrightarrow> map_of (embed_transport t m) k = map_of m k"
  by (cases t) (simp_all add: Let_def)

lemma map_of_embed_security:
  "k \<noteq> ''tls'' \<Longrightarrow> map_of (embed_security t m) k = map_of m k"
  "map_of (embed_security t m) ''tls'' = None \<longleftrightarrow> t = SecNone \<and> map_of m ''tls'' = None"
  by (cases t; simp add: Let_def)+

lemma map_of_embed_all:
  "k \<notin> {''transport'', ''tls'', ''multiplex''} \<Longrightarrow> map_of (embed_all node m) k = map_of m k"
  "map_of (embed_all node m) ''tls'' = None \<longleftrightarrow> cn_security node = SecNone \<and> map_of m ''tls'' = None"
  by (simp_all add: embed_all_def map_of_embed_mux map_of_embed_transport map_of_embed_security)

lemmas outbound_fields = map_of_embed_all map_of_set_opt_other map_of_embed_mux

lemma protocol_fields_keep:
  "map_of (protocol_fields su node m) ''tag'' = map_of m ''tag''"
  "map_of (protocol_fields su node m) ''server'' = map_of m ''server''"
  "map_of (protocol_fields su node m) ''server_port'' = map_of m ''server_port''"
  by (cases "cn_protocol node"; simp add: protocol_fields_def outbound_fields Let_def split: option.splits)+

lemma protocol_fields_tls:
  assumes "map_of m ''tls'' = None"
  shows "map_of (protocol_fields su node m) ''tls'' = None \<longleftrightarrow>
    (case cn_protocol node of Vless _ \<Rightarrow> cn_security node = SecNone | Vmess _ \<Rightarrow> cn_security node = SecNone
       | Trojan _ \<Rightarrow> cn_security node = SecNone | _ \<Rightarrow> True)"
  using assms
  by (cases "cn_protocol node"; simp add: protocol_fields_def outbound_fields Let_def split: option.splits)

lemma compile_outbound_Ok_iff:
  "compile_outbound su node = Inr out \<longleftrightarrow> server_ok node \<and>
     out = JObj (protocol_fields su node (sets ''tag'' (JStr (nm_label (cn_meta node)))
          (sets ''server_port'' (JNum (uint (snd (endpoint_parts (cn_endpoint node)))))
          (sets ''server'' (JStr (fst (endpoint_parts (cn_endpoint node)))) (OutboundBuilder_new node)))))"
  by (cases "endpoint_parts (cn_endpoint node)")
     (auto simp: compile_outbound_def server_ok_def validate_server_def split: if_splits)

lemma compile_outbound_get:
  assumes "compile_outbound su node = Inr out"
  shows "jget ''tag'' out = Some (JStr (nm_label (cn_meta node)))"
    and "jget ''server'' out = Some (JStr (fst (endpoint_parts (cn_endpoint node))))"
    and "jget ''server_port'' out = Some (JNum (uint (snd (endpoint_parts (cn_endpoint node)))))"
  using assms by (simp_all add: compile_outbound_Ok_iff protocol_fields_keep)

lemma compile_outbound_tag_of:
  "compile_outbound su node = Inr out \<Longrightarrow> outbound_tag_of out = nm_label (cn_meta node)"
  by (simp add: outbound_tag_of_def compile_outbound_get)

lemma strings_at_simps [simp]:
  "strings_at k [] = []"
  "strings_at k (x # xs) = (case Option.bind (jget k x) as_str of None \<Rightarrow> strings_at k xs | Some s \<Rightarrow> s # strings_at k xs)"
  unfolding strings_at_def by (simp_all add: map_filter_simps)

definition full_config :: "json \<Rightarrow> string \<Rightarrow> u16 \<Rightarrow> u32 \<Rightarrow> dns_provider \<Rightarrow> local_dns option \<Rightarrow> json" where
  "full_config outbound tag port mark dp local =
     JObj [(''log'', JObj [(''level'', JStr ''info''), (''timestamp'', JBool True)]),
       (''inbounds'', JArr [compile_tproxy_inbound ''::'' port]),
       (''outbounds'', JArr [direct_outbound, outbound]),
       (''route'', compile_routing tag mark True), (''dns'', compile_dns tag dp local)]"

lemma full_config_get:
  "jget ''outbounds'' (full_config out tag port mark dp local) = Some (JArr [direct_outbound, out])"
  "jget ''route'' (full_config out tag port mark dp local) = Some (compile_routing tag mark True)"
  "jget ''dns'' (full_config out tag port mark dp local) = Some (compile_dns tag dp local)"
  by (simp_all add: full_config_def)

lemma compile_routing_get:
  "strings_at ''outbound'' (jarr (jget ''rules'' (compile_routing tag mark b))) = [tag]"
  "jget ''default_mark'' (compile_routing tag mark b) = Some (JNum (uint mark))"
  by (simp_all add: compile_routing_def)

lemma compile_dns_get:
  "strings_at ''tag'' (jarr (jget ''servers'' (compile_dns tag dp local))) =
     ''tunnel-dns'' # (case local of None \<Rightarrow> [] | Some l \<Rightarrow> [''local-dns''])"
  "strings_at ''detour'' (jarr (jget ''servers'' (compile_dns tag dp local))) =
     tag # (case local of None \<Rightarrow> [] | Some l \<Rightarrow> [''direct''])"
  by (cases local; simp add: compile_dns_def)+

lemma direct_outbound_tag: "jget ''tag'' direct_outbound = Some (JStr ''direct'')"
  by (simp add: direct_outbound_def)

lemmas config_get = full_config_get compile_routing_get compile_dns_get direct_outbound_tag

lemma compile_full_config_cases:
  "compile_full_config su node port mark dp local = try_then (compile_outbound su node)
     (\<lambda>out. Inr (full_config out (nm_label (cn_meta node)) port mark dp local))"
proof (cases "compile_outbound su node")
  case (Inr out)
  show ?thesis by (simp only: compile_full_config_def full_config_def Inr compile_outbound_tag_of [OF Inr] Let_def try_then.simps)
qed (simp add: compile_full_config_def)

lemma compile_outbound_cases:
  obtains e where "compile_outbound su node = Inl e" "\<not> server_ok node"
  | out where "compile_outbound su node = Inr out" "server_ok node"
proof (cases "server_ok node")
  case True
  thus ?thesis using compile_outbound_Ok_iff [of su node] that(2) by blast
next
  case False
  hence "\<nexists>out. compile_outbound su node = Inr out" by (simp only: compile_outbound_Ok_iff) simp
  thus ?thesis using False that(1) by (cases "compile_outbound su node") simp_all
qed

text \<open>Claim C13: \<open>compile_full_config\<close> fails exactly when the server of the node is empty or holds white
  space.  Otherwise the configuration has two outbounds, \<open>direct\<close> and the node's, in this order; its only
  route target and the detour of its tunnelled resolver are the label of the node, a LAN resolver, when
  there is one, is dialled through \<open>direct\<close>; the routing mark is the given one, and the outbound carries
  the server and the port of the node's endpoint.\<close>

theorem compile_full_config_spec:
  "case compile_full_config su node port mark dp local of
     Inl e \<Rightarrow> \<not> server_ok node
   | Inr cfg \<Rightarrow> server_ok node \<and>
       outbound_tags cfg = [''direct'', nm_label (cn_meta node)] \<and>
       route_targets cfg = [nm_label (cn_meta node)] \<and>
       dns_detours cfg = (''tunnel-dns'', nm_label (cn_meta node)) #
         (case local of None \<Rightarrow> [] | Some l \<Rightarrow> [(''local-dns'', ''direct'')]) \<and>
       Option.bind (jget ''route'' cfg) (jget ''default_mark'') = Some (JNum (uint mark)) \<and>
       (\<exists>out. jarr (jget ''outbounds'' cfg) = [direct_outbound, out] \<and>
          jget ''server'' out = Some (JStr (fst (endpoint_parts (cn_endpoint node)))) \<and>
          jget ''server_port'' out = Some (JNum (uint (snd (endpoint_parts (cn_endpoint node))))))"
proof (cases rule: compile_outbound_cases [of su node])
  case (1 e)
  thus ?thesis by (simp add: compile_full_config_cases)
next
  case (2 out)
  note facts = compile_outbound_get [OF 2(1)]
  show ?thesis
    by (cases local; simp add: compile_full_config_cases 2 facts outbound_tags_def route_targets_def dns_detours_def
        config_get Let_def)
qed

text \<open>The security settings of a node reach its outbound for VLESS, VMess and Trojan only.  A
  Hysteria2 or TUIC node, both of which speak QUIC and so TLS, is compiled to an outbound that has no
  \<open>tls\<close> section whatever the node's TLS or REALITY settings are.\<close>

theorem outbound_tls_iff:
  "case compile_outbound su node of Inl e \<Rightarrow> \<not> server_ok node
   | Inr out \<Rightarrow> (jget ''tls'' out \<noteq> None \<longleftrightarrow> cn_security node \<noteq> SecNone \<and>
       (case cn_protocol node of Vless _ \<Rightarrow> True | Vmess _ \<Rightarrow> True | Trojan _ \<Rightarrow> True | _ \<Rightarrow> False))"
proof (cases rule: compile_outbound_cases [of su node])
  case (1 e)
  thus ?thesis by simp
next
  case (2 out)
  have none: "map_of (OutboundBuilder_new node) ''tls'' = None"
    by (simp add: OutboundBuilder_new_def map_of_embed_mux)
  have "jget ''tls'' out = None \<longleftrightarrow>
      (case cn_protocol node of Vless _ \<Rightarrow> cn_security node = SecNone | Vmess _ \<Rightarrow> cn_security node = SecNone
       | Trojan _ \<Rightarrow> cn_security node = SecNone | _ \<Rightarrow> True)"
    using 2(1) by (simp add: compile_outbound_Ok_iff protocol_fields_tls none)
  thus ?thesis by (simp add: 2(1) split: protocol_spec.splits)
qed

text \<open>The label of a node is not kept apart from the tag of the direct outbound.  A node whose
  label is \<open>direct\<close> is compiled without an error to a configuration in which both outbounds have the
  tag that the route rule and the tunnelled resolver name, and the first of them is the direct one.\<close>

theorem label_direct_is_ambiguous:
  assumes "server_ok node" "nm_label (cn_meta node) = ''direct''"
  shows "\<exists>cfg out. compile_full_config su node port mark dp local = Inr cfg \<and>
    route_targets cfg = [''direct''] \<and> outbounds_tagged ''direct'' cfg = [direct_outbound, out]"
proof -
  obtain out where out: "compile_outbound su node = Inr out"
    using assms(1) compile_outbound_Ok_iff by blast
  note facts = compile_outbound_get [OF out] compile_outbound_tag_of [OF out]
  show ?thesis
    by (simp add: compile_full_config_cases out facts assms(2) route_targets_def outbounds_tagged_def config_get)
qed

theorem label_direct_is_ambiguous_witness:
  "\<exists>cfg out. compile_full_config (\<lambda>u. ''u'') (sample_node ''direct'' ''a.example'' 443) 7893 1 Quad9 None = Inr cfg \<and>
    route_targets cfg = [''direct''] \<and> outbounds_tagged ''direct'' cfg = [direct_outbound, out]"
  by (rule label_direct_is_ambiguous)
     (simp_all add: server_ok_def endpoint_parts_def sample_node_def sample_meta_def Let_def ws1_def ws2_def)

end
