(* ===== verification/Egress_Stream.thy ===== *)
theory Egress_Stream
  imports Egress
begin

text \<open>
  The byte streams below an egress check, \<open>crates/adapter/src/egress.rs\<close> lines 754 to 846: \<open>PumpStream\<close>, a TCP
  connection or a TLS session over one, whose reads and writes are repeated as long as a signal interrupts them;
  the TLS configuration, the name a server is verified under, the choice between the two streams, and the check of a
  target over them.

  A stream is a state with a function that reads from it, and \<open>header_loop\<close> is the loop of \<open>read_http_exchange\<close>
  over any of them; it is shown to be the loop \<^theory_text>\<open>Egress\<close> has on scripts of events.  \<open>rustls\<close> and its
  \<open>ServerName\<close> are parameters.
\<close>

section \<open>Reading a response\<close>

type_synonym 's reader = "'s \<Rightarrow> (read_event \<times> 's) option"

definition limit_error :: "duration \<Rightarrow> duration \<Rightarrow> string \<Rightarrow> string option" where
  "limit_error timeout now response =
     (if 64 * 1024 < length response
      then Some (''egress response unexpectedly large ('' @ show_nat (length response) @ '' bytes)'')
      else if timeout < now then Some ''egress round trip timed out waiting for headers'' else None)"

text \<open>What one turn of the loop does with a read: stop with a result, or go on with the bytes so far.\<close>

definition take_event :: "duration \<Rightarrow> read_event \<Rightarrow> string \<Rightarrow> string res + string" where
  "take_event timeout ev response =
     (case ev of
        Data now bs \<Rightarrow>
          if bs = [] then Inl (Ok response)
          else (case limit_error timeout now (response @ bs) of Some e \<Rightarrow> Inl (Err e) | None \<Rightarrow> Inr (response @ bs))
      | Blocked now \<Rightarrow> (case limit_error timeout now response of Some e \<Rightarrow> Inl (Err e) | None \<Rightarrow> Inr response)
      | Interrupted now \<Rightarrow> (case limit_error timeout now response of Some e \<Rightarrow> Inl (Err e) | None \<Rightarrow> Inr response)
      | Failed e \<Rightarrow> Inl (Err (''egress read failed: '' @ e)))"

text \<open>\<^term>\<open>None\<close> is a loop that does not end, or a read that does not return.\<close>

partial_function (option) header_loop :: "'s reader \<Rightarrow> duration \<Rightarrow> 's \<Rightarrow> string \<Rightarrow> string res option" where
  "header_loop rd timeout s response =
     (if contains_str CRLF2 response then Some (Ok response)
      else case rd s of
        None \<Rightarrow> None
      | Some (ev, s') \<Rightarrow>
          (case take_event timeout ev response of
             Inl r \<Rightarrow> Some r
           | Inr sofar \<Rightarrow> header_loop rd timeout s' sofar))"

definition exchange_over :: "'s reader \<Rightarrow> duration \<Rightarrow> 's \<Rightarrow> http_exchange res option" where
  "exchange_over rd timeout s =
     map_option (\<lambda>r. try_then r (\<lambda>response. Ok (parse_exchange response))) (header_loop rd timeout s [])"

section \<open>The pump\<close>

datatype ('t, 'u) pump_stream = PumpTcp 't | PumpTls 'u

definition stream_read :: "'t reader \<Rightarrow> 'u reader \<Rightarrow> ('t, 'u) pump_stream reader" where
  "stream_read tcp tls ps =
     (case ps of
        PumpTcp t \<Rightarrow> map_option (\<lambda>(ev, t). (ev, PumpTcp t)) (tcp t)
      | PumpTls u \<Rightarrow> map_option (\<lambda>(ev, u). (ev, PumpTls u)) (tls u))"

fun is_interrupted :: "read_event \<Rightarrow> bool" where
  "is_interrupted (Interrupted now) = True"
| "is_interrupted ev = False"

partial_function (option) read_retrying :: "'s reader \<Rightarrow> 's \<Rightarrow> (read_event \<times> 's) option" where
  "read_retrying rd s =
     (case rd s of
        None \<Rightarrow> None
      | Some (ev, s') \<Rightarrow> if is_interrupted ev then read_retrying rd s' else Some (ev, s'))"

definition pump_read :: "'t reader \<Rightarrow> 'u reader \<Rightarrow> ('t, 'u) pump_stream reader" where
  "pump_read tcp tls = read_retrying (stream_read tcp tls)"

text \<open>A write hands over some of the bytes, or fails; a write a signal interrupted is repeated.\<close>

datatype write_event = Wrote nat | WriteInterrupted | WriteFailed string

type_synonym 's writer = "bytes \<Rightarrow> 's \<Rightarrow> (write_event \<times> 's) option"

definition stream_write :: "'t writer \<Rightarrow> 'u writer \<Rightarrow> ('t, 'u) pump_stream writer" where
  "stream_write tcp tls bs ps =
     (case ps of
        PumpTcp t \<Rightarrow> map_option (\<lambda>(ev, t). (ev, PumpTcp t)) (tcp bs t)
      | PumpTls u \<Rightarrow> map_option (\<lambda>(ev, u). (ev, PumpTls u)) (tls bs u))"

partial_function (option) write_retrying :: "'s writer \<Rightarrow> bytes \<Rightarrow> 's \<Rightarrow> (write_event \<times> 's) option" where
  "write_retrying wr bs s =
     (case wr bs s of
        None \<Rightarrow> None
      | Some (ev, s') \<Rightarrow> if ev = WriteInterrupted then write_retrying wr bs s' else Some (ev, s'))"

definition pump_write :: "'t writer \<Rightarrow> 'u writer \<Rightarrow> ('t, 'u) pump_stream writer" where
  "pump_write tcp tls = write_retrying (stream_write tcp tls)"

definition pump_flush :: "('t \<Rightarrow> unit res \<times> 't) \<Rightarrow> ('u \<Rightarrow> unit res \<times> 'u) \<Rightarrow> ('t, 'u) pump_stream \<Rightarrow> unit res \<times> ('t, 'u) pump_stream" where
  "pump_flush tcp tls ps =
     (case ps of
        PumpTcp t \<Rightarrow> (case tcp t of (r, t) \<Rightarrow> (r, PumpTcp t))
      | PumpTls u \<Rightarrow> (case tls u of (r, u) \<Rightarrow> (r, PumpTls u)))"

text \<open>\<open>write_all\<close> of the standard library over a stream: it goes on with what is left, and a write of nothing is an error.\<close>

partial_function (option) write_all_over :: "'s writer \<Rightarrow> bytes \<Rightarrow> 's \<Rightarrow> (unit res \<times> 's) option" where
  "write_all_over wr bs s =
     (if bs = [] then Some (Ok (), s)
      else case wr bs s of
        None \<Rightarrow> None
      | Some (Wrote n, s') \<Rightarrow> if n = 0 then Some (Err ''failed to write whole buffer'', s') else write_all_over wr (drop n bs) s'
      | Some (WriteInterrupted, s') \<Rightarrow> write_all_over wr bs s'
      | Some (WriteFailed e, s') \<Rightarrow> Some (Err e, s'))"

section \<open>TLS\<close>

record 'a client_config =
  tc_roots :: "'a list"
  tc_client_auth :: bool
  tc_alpn :: "string list"

definition default_roots :: "'a list \<Rightarrow> 'a list" where
  "default_roots webpki = [] @ webpki"

definition tls_client_config :: "'a list \<Rightarrow> 'a client_config" where
  "tls_client_config roots =
     \<lparr>tc_roots = roots, tc_client_auth = False, tc_alpn = []\<rparr>\<lparr>tc_alpn := [''http/1.1'']\<rparr>"

datatype server_name = NameIpv4 ipv4 | NameIpv6 ipv6 | NameDns string

text \<open>\<open>dns\<close> is whether \<open>ServerName::try_from\<close> takes a text that is not an address.\<close>

definition server_name_of :: "(string \<Rightarrow> bool) \<Rightarrow> string \<Rightarrow> server_name res" where
  "server_name_of dns host =
     (case parse_ipv4 host of
        Some a \<Rightarrow> Ok (NameIpv4 a)
      | None \<Rightarrow>
          (case parse_ipv6 host of
             Some a \<Rightarrow> Ok (NameIpv6 a)
           | None \<Rightarrow> if dns host then Ok (NameDns host) else Err (''invalid TLS SNI host '' @ [CHR 34] @ host @ [CHR 34])))"

text \<open>\<open>connect\<close> is \<open>ClientConnection::new\<close>: a session of a configuration for a name.\<close>

definition wrap_stream_with_roots ::
    "(string \<Rightarrow> bool) \<Rightarrow> ('a client_config \<Rightarrow> server_name \<Rightarrow> 'c res) \<Rightarrow> 't \<Rightarrow> egress_target \<Rightarrow> 'a list
      \<Rightarrow> ('t, 'c \<times> 't) pump_stream res" where
  "wrap_stream_with_roots dns connect stream target roots =
     (if \<not> tg_tls target then Ok (PumpTcp stream)
      else
        let config = tls_client_config roots in
        try_then (server_name_of dns (tg_host target)) (\<lambda>name.
        try_then (connect config name) (\<lambda>connection. Ok (PumpTls (connection, stream)))))"

section \<open>A check over its stream\<close>

text \<open>
  What a check uses of its connection: reading, writing and flushing a TCP stream and a TLS session over one, and
  the two functions of \<open>rustls\<close>.
\<close>

record ('a, 'c, 't) stream_ops =
  op_tcp_read :: "'t reader"
  op_tls_read :: "('c \<times> 't) reader"
  op_tcp_write :: "'t writer"
  op_tls_write :: "('c \<times> 't) writer"
  op_tcp_flush :: "'t \<Rightarrow> unit res \<times> 't"
  op_tls_flush :: "'c \<times> 't \<Rightarrow> unit res \<times> ('c \<times> 't)"
  op_dns :: "string \<Rightarrow> bool"
  op_connect :: "'a client_config \<Rightarrow> server_name \<Rightarrow> 'c res"

abbreviation CRLF :: string where "CRLF \<equiv> [CHR 13, CHR 10]"

definition check_request :: "egress_target \<Rightarrow> string" where
  "check_request target = ''GET '' @ tg_path target @ '' HTTP/1.1'' @ CRLF @ ''Host: '' @ tg_host target @ CRLF
     @ ''Connection: close'' @ CRLF @ CRLF"

text \<open>\<open>stream\<close> is the TCP connection after the handshake; \<^term>\<open>None\<close> is a check that does not end.\<close>

definition check_target_with_roots ::
    "('a, 'c, 't) stream_ops \<Rightarrow> egress_target \<Rightarrow> duration \<Rightarrow> 'a list \<Rightarrow> dial \<Rightarrow> 't \<Rightarrow> target_check option" where
  "check_target_with_roots ops target timeout roots d stream =
     (case dl_connect d of Inl e \<Rightarrow> Some (failed_check target d (''socks5 testbed unreachable: '' @ e)) | Inr _ \<Rightarrow>
      (case fst (socks5_connect (tg_host target) (tg_port target) (dl_sock d)) of
         Inl e \<Rightarrow> Some (failed_check target d (''socks5 CONNECT failed: '' @ e)) | Inr _ \<Rightarrow>
       (case wrap_stream_with_roots (op_dns ops) (op_connect ops) stream target roots of
          Inl e \<Rightarrow> Some (failed_check target d (''TLS setup failed: '' @ e))
        | Inr ps \<Rightarrow>
          (case write_all_over (pump_write (op_tcp_write ops) (op_tls_write ops)) (bytes_of (check_request target)) ps of
             None \<Rightarrow> None
           | Some (Inl e, ps) \<Rightarrow> Some (failed_check target d (''write failed: '' @ e))
           | Some (Inr _, ps) \<Rightarrow>
             (let ps = snd (pump_flush (op_tcp_flush ops) (op_tls_flush ops) ps) in
              case exchange_over (pump_read (op_tcp_read ops) (op_tls_read ops)) timeout ps of
                None \<Rightarrow> None
              | Some (Inl e) \<Rightarrow> Some (failed_check target d e)
              | Some (Inr x) \<Rightarrow> Some (judge target (dl_elapsed d) x))))))"

definition check_target_default ::
    "('a, 'c, 't) stream_ops \<Rightarrow> 'a list \<Rightarrow> egress_target \<Rightarrow> duration \<Rightarrow> dial \<Rightarrow> 't \<Rightarrow> target_check option" where
  "check_target_default ops webpki target timeout d stream =
     check_target_with_roots ops target timeout (default_roots webpki) d stream"

section \<open>The loop on streams and the loop on scripts\<close>

lemma take_event_script:
  "\<not> contains_str CRLF2 response \<Longrightarrow> read_response timeout (ev # evs) response =
     (case take_event timeout ev response of Inl r \<Rightarrow> r | Inr sofar \<Rightarrow> read_response timeout evs sofar)"
  by (cases ev) (auto simp: take_event_def limit_error_def after_read_def split: list.splits)

lemma read_response_ended: "contains_str CRLF2 response \<Longrightarrow> read_response timeout evs response = Ok response"
  by (cases evs) simp_all

text \<open>What a stream delivers, read by read.\<close>

fun reads_of :: "'s reader \<Rightarrow> 's \<Rightarrow> read_event list \<Rightarrow> bool" where
  "reads_of rd s [] = True"
| "reads_of rd s (ev # evs) = (case rd s of None \<Rightarrow> False | Some (ev', s') \<Rightarrow> ev' = ev \<and> reads_of rd s' evs)"

text \<open>Every run of the loop over a stream is a run over the script of what it read, whatever comes after that.\<close>

lemma header_loop_script:
  assumes "header_loop rd timeout s response = Some r"
  shows "\<exists>evs. reads_of rd s evs \<and> (\<forall>unread. read_response timeout (evs @ unread) response = r)"
proof (induction rule: header_loop.raw_induct[OF _ assms, consumes 0])
  case (1 loop rd timeout s response r)
  show ?case
  proof (cases "contains_str CRLF2 response")
    case True
    with 1 show ?thesis by (intro exI[of _ "[]"]) (auto simp: read_response_ended)
  next
    case False
    with 1(2) obtain ev s' where ev: "rd s = Some (ev, s')" by (cases "rd s") auto
    show ?thesis
    proof (cases "take_event timeout ev response")
      case (Inl r')
      with 1(2) False ev have "r' = r" by simp
      with False ev Inl show ?thesis by (intro exI[of _ "[ev]"]) (simp add: take_event_script del: read_response.simps(2))
    next
      case (Inr sofar)
      with 1(2) False ev have "loop rd timeout s' sofar = Some r" by simp
      from 1(1)[OF this] obtain evs where "reads_of rd s' evs" "\<And>unread. read_response timeout (evs @ unread) sofar = r" by blast
      with False ev Inr show ?thesis
        by (intro exI[of _ "ev # evs"]) (simp add: take_event_script del: read_response.simps(2))
    qed
  qed
qed

lemma reads_of_all:
  assumes "\<And>s ev s'. rd s = Some (ev, s') \<Longrightarrow> P ev"
  shows "reads_of rd s evs \<Longrightarrow> list_all P evs"
  by (induction evs arbitrary: s) (auto dest: assms split: option.splits)

lemma read_retrying_result:
  assumes "read_retrying rd s = Some (ev, s')"
  shows "\<not> is_interrupted ev"
proof -
  have "\<not> is_interrupted (fst p)" if "read_retrying rd s = Some p" for p
    by (induction rule: read_retrying.raw_induct[OF _ that, consumes 0])
      (auto split: option.splits if_splits)
  from this[OF assms] show ?thesis by simp
qed

lemma pump_read_result: "pump_read tcp tls ps = Some (ev, ps') \<Longrightarrow> \<not> is_interrupted ev"
  unfolding pump_read_def by (rule read_retrying_result)

text \<open>The session a TLS check runs in: of the trust anchors given, for the target's own name, without h2.\<close>

definition tls_session_for :: "('a, 'c, 't) stream_ops \<Rightarrow> 'a list \<Rightarrow> egress_target \<Rightarrow> bool" where
  "tls_session_for ops roots target \<longleftrightarrow>
     (\<exists>name connection. server_name_of (op_dns ops) (tg_host target) = Ok name \<and>
        op_connect ops \<lparr>tc_roots = roots, tc_client_auth = False, tc_alpn = [''http/1.1'']\<rparr> name = Ok connection)"

lemma wrap_stream_cases:
  assumes "wrap_stream_with_roots (op_dns ops) (op_connect ops) stream target roots = r"
  obtains (plain) "\<not> tg_tls target" "r = Ok (PumpTcp stream)"
  | (tls) name connection where "tg_tls target" "server_name_of (op_dns ops) (tg_host target) = Ok name"
      "op_connect ops \<lparr>tc_roots = roots, tc_client_auth = False, tc_alpn = [''http/1.1'']\<rparr> name = Ok connection"
      "r = Ok (PumpTls (connection, stream))"
  | (refused) e where "tg_tls target" "\<not> tls_session_for ops roots target" "r = Err e"
proof (cases "tg_tls target")
  case True
  show ?thesis
  proof (cases "server_name_of (op_dns ops) (tg_host target)")
    case (Inl e)
    with assms True show ?thesis
      by (intro refused[of e]) (simp_all add: wrap_stream_with_roots_def tls_session_for_def Let_def)
  next
    case (Inr name)
    with assms True show ?thesis
      by (cases "op_connect ops \<lparr>tc_roots = roots, tc_client_auth = False, tc_alpn = [''http/1.1'']\<rparr> name")
        (auto simp: wrap_stream_with_roots_def tls_session_for_def tls_client_config_def Let_def intro: tls refused)
  qed
qed (use assms in \<open>auto simp: wrap_stream_with_roots_def intro: plain\<close>)

text \<open>
  Retrying, writing and reading on a stream that is embedded in another, as the two streams of the pump are, is what it is
  on the stream itself.
\<close>

lemma read_retrying_lift:
  assumes "\<And>s. rd' (f s) = map_option (map_prod id f) (rd s)"
  shows "read_retrying rd' (f s) = map_option (map_prod id f) (read_retrying rd s)"
proof -
  have "read_retrying rd' (f s) = Some (map_prod id f p)" if "read_retrying rd s = Some p" for p
    using assms
  proof (induction rule: read_retrying.raw_induct[OF _ that, consumes 0])
    case (1 retry rd s p)
    show ?case using 1(2) 1(1)[OF _ 1(3)] by (subst read_retrying.simps, cases p) (auto simp: 1(3) split: option.splits if_splits)
  qed
  moreover have "\<exists>p. read_retrying rd s = Some p" if "read_retrying rd' t = Some q" "t = f s" for t q
    using assms that(2)
  proof (induction arbitrary: s rule: read_retrying.raw_induct[OF _ that(1), consumes 0])
    case (1 retry rd' t q)
    from 1(2) obtain ev s' where ev: "rd s = Some (ev, s')" by (cases "rd s") (auto simp: 1(3,4))
    show ?case
    proof (cases "is_interrupted ev")
      case True
      with 1(2) ev have "retry rd' (f s') = Some q" by (simp add: 1(3,4))
      from 1(1)[OF this 1(3) refl] True ev show ?thesis by (subst read_retrying.simps) simp
    next
      case False
      with ev show ?thesis by (subst read_retrying.simps) simp
    qed
  qed
  ultimately show ?thesis by (cases "read_retrying rd s"; cases "read_retrying rd' (f s)") auto
qed

lemma write_retrying_lift:
  assumes "\<And>bs s. wr' bs (f s) = map_option (map_prod id f) (wr bs s)"
  shows "write_retrying wr' bs (f s) = map_option (map_prod id f) (write_retrying wr bs s)"
proof -
  have "write_retrying wr' bs (f s) = Some (map_prod id f p)" if "write_retrying wr bs s = Some p" for p
    using assms
  proof (induction rule: write_retrying.raw_induct[OF _ that, consumes 0])
    case (1 retry wr bs s p)
    show ?case using 1(2) 1(1)[OF _ 1(3)] by (subst write_retrying.simps, cases p) (auto simp: 1(3) split: option.splits if_splits)
  qed
  moreover have "\<exists>p. write_retrying wr bs s = Some p" if "write_retrying wr' bs t = Some q" "t = f s" for t q
    using assms that(2)
  proof (induction arbitrary: s rule: write_retrying.raw_induct[OF _ that(1), consumes 0])
    case (1 retry wr' bs t q)
    from 1(2) obtain ev s' where ev: "wr bs s = Some (ev, s')" by (cases "wr bs s") (auto simp: 1(3,4))
    show ?case
    proof (cases "ev = WriteInterrupted")
      case True
      with 1(2) ev have "retry wr' bs (f s') = Some q" by (simp add: 1(3,4))
      from 1(1)[OF this 1(3) refl] True ev show ?thesis by (subst write_retrying.simps) simp
    next
      case False
      with ev show ?thesis by (subst write_retrying.simps) simp
    qed
  qed
  ultimately show ?thesis by (cases "write_retrying wr bs s"; cases "write_retrying wr' bs (f s)") auto
qed

lemma write_all_over_lift:
  assumes "write_all_over wr' bs (f s) = Some q" and "\<And>bs s. wr' bs (f s) = map_option (map_prod id f) (wr bs s)"
  shows "\<exists>r s'. q = (r, f s') \<and> write_all_over wr bs s = Some (r, s')"
proof -
  have "\<exists>r s'. q = (r, f s') \<and> write_all_over wr bs s = Some (r, s')" if "write_all_over wr' bs t = Some q" "t = f s" for t
    using assms(2) that(2)
  proof (induction arbitrary: s rule: write_all_over.raw_induct[OF _ that(1), consumes 0])
    case (1 write_all wr' bs t q)
    show ?case
    proof (cases "bs = []")
      case True
      with 1(2) show ?thesis by (subst write_all_over.simps) (auto simp: 1(4))
    next
      case False
      with 1(2) obtain ev s' where ev: "wr bs s = Some (ev, s')" by (cases "wr bs s") (auto simp: 1(3,4))
      show ?thesis
      proof (cases "(\<exists>n > 0. ev = Wrote n) \<or> ev = WriteInterrupted")
        case True
        define rest where "rest = (case ev of Wrote n \<Rightarrow> drop n bs | _ \<Rightarrow> bs)"
        have "write_all wr' rest (f s') = Some q" using 1(2) True ev \<open>bs \<noteq> []\<close> by (auto simp: 1(3,4) rest_def)
        from 1(1)[OF this 1(3) refl] True ev \<open>bs \<noteq> []\<close> show ?thesis
          by (subst write_all_over.simps) (auto simp: rest_def)
      next
        case False
        with 1(2) ev \<open>bs \<noteq> []\<close> show ?thesis
          by (subst write_all_over.simps) (cases ev; auto simp: 1(3,4))
      qed
    qed
  qed
  with assms(1) show ?thesis by blast
qed

lemma reads_of_lift:
  assumes "\<And>s. rd' (f s) = map_option (map_prod id f) (rd s)"
  shows "reads_of rd' (f s) evs = reads_of rd s evs"
  by (induction evs arbitrary: s) (auto simp: assms split: option.splits)

lemma pump_lifts:
  "stream_read tcp tls (PumpTcp t) = map_option (map_prod id PumpTcp) (tcp t)"
  "stream_read tcp tls (PumpTls u) = map_option (map_prod id PumpTls) (tls u)"
  "stream_write tcpw tlsw bs (PumpTcp t) = map_option (map_prod id PumpTcp) (tcpw bs t)"
  "stream_write tcpw tlsw bs (PumpTls u) = map_option (map_prod id PumpTls) (tlsw bs u)"
  by (simp_all add: stream_read_def stream_write_def map_prod_def id_def)

text \<open>
  What a request and the answer to it look like on a stream: the request is written to it, and unless that fails the
  reads are what the stream then delivers, interruptions left out.
\<close>

definition plays_over ::
    "'s reader \<Rightarrow> 's writer \<Rightarrow> ('s \<Rightarrow> unit res \<times> 's) \<Rightarrow> 's \<Rightarrow> bytes \<Rightarrow> unit res \<Rightarrow> read_event list \<Rightarrow> bool" where
  "plays_over rd wr fl s request written reads \<longleftrightarrow>
     (\<exists>s'. write_all_over (write_retrying wr) request s = Some (written, s') \<and>
        (if is_ok written then reads_of (read_retrying rd) (snd (fl s')) reads else reads = []))"

text \<open>
  How a connection plays a dial.  A target without TLS is asked on the connection itself.  For a target with TLS there has to be
  a session, of the trust anchors given and for the target's own name, and the request and the answer go through that
  session.
\<close>

definition stream_plays ::
    "('a, 'c, 't) stream_ops \<Rightarrow> egress_target \<Rightarrow> 'a list \<Rightarrow> 't \<Rightarrow> unit res \<Rightarrow> unit res \<Rightarrow> read_event list \<Rightarrow> bool" where
  "stream_plays ops target roots stream tls written reads \<longleftrightarrow>
     (if \<not> tg_tls target
      then plays_over (op_tcp_read ops) (op_tcp_write ops) (op_tcp_flush ops) stream (bytes_of (check_request target)) written reads
      else if is_err tls then \<not> tls_session_for ops roots target
      else \<exists>name connection. server_name_of (op_dns ops) (tg_host target) = Ok name \<and>
        op_connect ops \<lparr>tc_roots = roots, tc_client_auth = False, tc_alpn = [''http/1.1'']\<rparr> name = Ok connection \<and>
        plays_over (op_tls_read ops) (op_tls_write ops) (op_tls_flush ops) (connection, stream) (bytes_of (check_request target))
          written reads)"

text \<open>The part of a check after the stream was chosen, for a stream embedded in the pump.\<close>

lemma check_requested:
  assumes lifts: "\<And>t. stream_read (op_tcp_read ops) (op_tls_read ops) (f t) = map_option (map_prod id f) (rd t)"
      "\<And>bs t. stream_write (op_tcp_write ops) (op_tls_write ops) bs (f t) = map_option (map_prod id f) (wr bs t)"
      "\<And>t. snd (pump_flush (op_tcp_flush ops) (op_tls_flush ops) (f t)) = f (snd (fl t))"
    and check: "check_target_with_roots ops target timeout roots d stream = Some c"
    and conn: "dl_connect d = Inr u" "fst (socks5_connect (tg_host target) (tg_port target) (dl_sock d)) = Inr v"
    and w: "wrap_stream_with_roots (op_dns ops) (op_connect ops) stream target roots = Inr (f t)"
  shows "\<exists>written reads. plays_over rd wr fl t (bytes_of (check_request target)) written reads \<and> list_all (\<lambda>ev. \<not> is_interrupted ev) reads \<and>
    (\<forall>unread. c = check_target target timeout (d\<lparr>dl_tls := Ok (), dl_request_write := written, dl_reads := reads @ unread\<rparr>))"
proof -
  have failed: "failed_check target (d\<lparr>dl_tls := a, dl_request_write := b, dl_reads := g\<rparr>) e = failed_check target d e" for a b g e
    by (simp add: failed_check_def)
  let ?wr = "write_all_over (pump_write (op_tcp_write ops) (op_tls_write ops)) (bytes_of (check_request target)) (f t)"
  obtain q where q: "?wr = Some q"
    using check conn w by (auto simp: check_target_with_roots_def split: option.splits)
  obtain written t1 where wrote: "?wr = Some (written, f t1)" "write_all_over (write_retrying wr) (bytes_of (check_request target)) t = Some (written, t1)"
    using write_all_over_lift[where f = f and s = t and bs = "bytes_of (check_request target)" and wr = "write_retrying wr" and q = q,
        OF _ write_retrying_lift[where f = f and wr = wr, OF lifts(2)]] q that
    unfolding pump_write_def by blast
  show ?thesis
  proof (cases written)
    case (Inl e)
    with check conn w wrote show ?thesis
      by (intro exI[of _ written] exI[of _ "[]"]) (auto simp: check_target_with_roots_def check_target_def failed plays_over_def)
  next
    case (Inr x)
    let ?rd = "pump_read (op_tcp_read ops) (op_tls_read ops)"
    have fl: "snd (pump_flush (op_tcp_flush ops) (op_tls_flush ops) (f t1)) = f (snd (fl t1))" by (rule lifts(3))
    obtain ex where ex: "exchange_over ?rd timeout (f (snd (fl t1))) = Some ex"
      using check conn w wrote(1) Inr fl by (auto simp: check_target_with_roots_def Let_def split: option.splits)
    then obtain r where r: "header_loop ?rd timeout (f (snd (fl t1))) [] = Some r"
      "ex = try_then r (\<lambda>response. Ok (parse_exchange response))" by (auto simp: exchange_over_def)
    from header_loop_script[OF r(1)] obtain evs where
      evs: "reads_of ?rd (f (snd (fl t1))) evs" "\<And>unread. read_response timeout (evs @ unread) [] = r" by blast
    have "reads_of (read_retrying rd) (snd (fl t1)) evs"
      using evs(1) reads_of_lift[where f = f and rd = "read_retrying rd", OF read_retrying_lift[where f = f and rd = rd, OF lifts(1)]]
      by (simp add: pump_read_def)
    then have "plays_over rd wr fl t (bytes_of (check_request target)) written evs" using wrote(2) Inr by (simp add: plays_over_def)
    moreover have "list_all (\<lambda>ev. \<not> is_interrupted ev) evs" by (rule reads_of_all[OF pump_read_result evs(1)])
    moreover have "c = (case ex of Inl e \<Rightarrow> failed_check target d e | Inr x \<Rightarrow> judge target (dl_elapsed d) x)"
      using check conn w wrote(1) Inr ex fl by (cases ex) (simp_all add: check_target_with_roots_def Let_def)
    then have "c = check_target target timeout (d\<lparr>dl_tls := Ok (), dl_request_write := written, dl_reads := evs @ unread\<rparr>)" for unread
      using conn evs(2) Inr unfolding r(2) by (cases r) (simp_all add: check_target_def failed read_http_exchange_def)
    ultimately show ?thesis by blast
  qed
qed

definition connected :: "egress_target \<Rightarrow> dial \<Rightarrow> bool" where
  "connected target d \<longleftrightarrow> is_ok (dl_connect d) \<and> is_ok (fst (socks5_connect (tg_host target) (tg_port target) (dl_sock d)))"

lemma check_over_stream_dial:
  assumes check: "check_target_with_roots ops target timeout roots d stream = Some c" and "connected target d"
  shows "\<exists>tls written reads. stream_plays ops target roots stream tls written reads \<and> list_all (\<lambda>ev. \<not> is_interrupted ev) reads \<and>
    (\<forall>unread. c = check_target target timeout (d\<lparr>dl_tls := tls, dl_request_write := written, dl_reads := reads @ unread\<rparr>))"
proof -
  obtain u v where conn: "dl_connect d = Inr u" "fst (socks5_connect (tg_host target) (tg_port target) (dl_sock d)) = Inr v"
    using assms(2) by (auto simp: connected_def is_ok_iff)
  obtain wrapped where w: "wrap_stream_with_roots (op_dns ops) (op_connect ops) stream target roots = wrapped" by blast
  from w show ?thesis
  proof (cases rule: wrap_stream_cases)
    case plain
    have "\<exists>written reads. plays_over (op_tcp_read ops) (op_tcp_write ops) (op_tcp_flush ops) stream (bytes_of (check_request target)) written reads \<and>
        list_all (\<lambda>ev. \<not> is_interrupted ev) reads \<and>
        (\<forall>unread. c = check_target target timeout (d\<lparr>dl_tls := Ok (), dl_request_write := written, dl_reads := reads @ unread\<rparr>))"
      by (rule check_requested[OF pump_lifts(1) pump_lifts(3) _ check conn])
        (use w plain in \<open>auto simp: pump_flush_def split: prod.splits\<close>)
    with plain(1) show ?thesis unfolding stream_plays_def by auto
  next
    case (tls name connection)
    have "\<exists>written reads. plays_over (op_tls_read ops) (op_tls_write ops) (op_tls_flush ops) (connection, stream)
        (bytes_of (check_request target)) written reads \<and> list_all (\<lambda>ev. \<not> is_interrupted ev) reads \<and>
        (\<forall>unread. c = check_target target timeout (d\<lparr>dl_tls := Ok (), dl_request_write := written, dl_reads := reads @ unread\<rparr>))"
      by (rule check_requested[OF pump_lifts(2) pump_lifts(4) _ check conn])
        (use w tls in \<open>auto simp: pump_flush_def split: prod.splits\<close>)
    then obtain written reads where "plays_over (op_tls_read ops) (op_tls_write ops) (op_tls_flush ops) (connection, stream)
        (bytes_of (check_request target)) written reads" "list_all (\<lambda>ev. \<not> is_interrupted ev) reads"
        "\<forall>unread. c = check_target target timeout (d\<lparr>dl_tls := Ok (), dl_request_write := written, dl_reads := reads @ unread\<rparr>)" by blast
    with tls(1-3) show ?thesis
      unfolding stream_plays_def by (intro exI[of _ "Ok ()"] exI[of _ written] exI[of _ reads]) auto
  next
    case (refused e)
    then have "c = failed_check target d (''TLS setup failed: '' @ e)" using check conn w by (simp add: check_target_with_roots_def)
    then have "c = check_target target timeout (d\<lparr>dl_tls := Err e, dl_request_write := Ok (), dl_reads := [] @ unread\<rparr>)" for unread
      using conn refused(1) by (simp add: check_target_def failed_check_def)
    with refused show ?thesis
      unfolding stream_plays_def by (intro exI[of _ "Err e"] exI[of _ "Ok ()"] exI[of _ "[]"]) auto
  qed
qed

section \<open>Streams on which the loop ends\<close>

fun event_time :: "read_event \<Rightarrow> duration option" where
  "event_time (Data now bs) = Some now"
| "event_time (Blocked now) = Some now"
| "event_time (Interrupted now) = Some now"
| "event_time (Failed e) = None"

fun is_idle :: "read_event \<Rightarrow> bool" where
  "is_idle (Blocked now) = True"
| "is_idle (Interrupted now) = True"
| "is_idle ev = False"

lemma take_event_goes_on:
  "take_event timeout ev response = Inr sofar \<Longrightarrow>
     \<exists>now. event_time ev = Some now \<and> now \<le> timeout \<and> length sofar \<le> 64 * 1024 \<and>
       (if is_idle ev then sofar = response else length response < length sofar)"
  by (cases ev) (auto simp: take_event_def limit_error_def split: if_splits option.splits)

text \<open>What the loop relies on: a read returns, what it says of the time is the time, and a read that brings nothing takes time.\<close>

locale byte_stream =
  fixes rd :: "'s reader" and clock :: "'s \<Rightarrow> duration" and good :: "'s \<Rightarrow> bool"
  assumes returns: "good s \<Longrightarrow> rd s \<noteq> None"
    and keeps: "good s \<Longrightarrow> rd s = Some (ev, s') \<Longrightarrow> good s'"
    and stamped: "good s \<Longrightarrow> rd s = Some (ev, s') \<Longrightarrow> event_time ev = Some now \<Longrightarrow> now = clock s'"
    and passes: "good s \<Longrightarrow> rd s = Some (ev, s') \<Longrightarrow> clock s \<le> clock s'"
    and idles: "good s \<Longrightarrow> rd s = Some (ev, s') \<Longrightarrow> is_idle ev \<Longrightarrow> clock s < clock s'"
begin

lemma header_loop_ends: "good s \<Longrightarrow> \<exists>r. header_loop rd timeout s response = Some r"
proof (induction "(timeout + 1 - clock s) + (64 * 1024 + 1 - length response)" arbitrary: s response rule: less_induct)
  case less
  obtain ev s' where ev: "rd s = Some (ev, s')" using returns[OF less.prems] by auto
  show ?case
  proof (cases "take_event timeout ev response")
    case (Inr sofar)
    from take_event_goes_on[OF this] obtain now where now: "event_time ev = Some now" "now \<le> timeout"
      "length sofar \<le> 64 * 1024" "if is_idle ev then sofar = response else length response < length sofar" by blast
    have "now = clock s'" by (rule stamped[OF less.prems ev now(1)])
    moreover have "clock s \<le> clock s'" "is_idle ev \<Longrightarrow> clock s < clock s'"
      using passes[OF less.prems ev] idles[OF less.prems ev] by auto
    ultimately have "\<exists>r. header_loop rd timeout s' sofar = Some r"
      using now keeps[OF less.prems ev] by (intro less.hyps) (auto split: if_splits)
    then show ?thesis using ev Inr by (subst header_loop.simps) simp
  qed (use ev in \<open>subst header_loop.simps, simp\<close>)
qed

end

text \<open>A stream on which only so many reads in a row are interrupted: retrying them keeps the contract.\<close>

locale interruptible = byte_stream +
  fixes pending :: "'s \<Rightarrow> nat"
  assumes interrupts: "good s \<Longrightarrow> rd s = Some (Interrupted now, s') \<Longrightarrow> pending s' < pending s"
begin

lemma read_retrying_step:
  "good s \<Longrightarrow> \<exists>ev s'. read_retrying rd s = Some (ev, s') \<and> good s' \<and> clock s \<le> clock s' \<and>
     (\<forall>now. event_time ev = Some now \<longrightarrow> now = clock s') \<and> (is_idle ev \<longrightarrow> clock s < clock s')"
proof (induction "pending s" arbitrary: s rule: less_induct)
  case less
  obtain ev s' where ev: "rd s = Some (ev, s')" using returns[OF less.prems] by auto
  show ?case
  proof (cases "is_interrupted ev")
    case True
    then obtain now where "ev = Interrupted now" by (cases ev) auto
    with ev have "pending s' < pending s" using interrupts[OF less.prems] by blast
    from less.hyps[OF this keeps[OF less.prems ev]] obtain ev2 s2 where
      "read_retrying rd s' = Some (ev2, s2) \<and> good s2 \<and> clock s' \<le> clock s2 \<and>
        (\<forall>now. event_time ev2 = Some now \<longrightarrow> now = clock s2) \<and> (is_idle ev2 \<longrightarrow> clock s' < clock s2)" by blast
    with True ev passes[OF less.prems ev] show ?thesis
      by (intro exI[of _ ev2] exI[of _ s2], subst read_retrying.simps) auto
  next
    case False
    with ev keeps[OF less.prems ev] passes[OF less.prems ev] stamped[OF less.prems ev] idles[OF less.prems ev] show ?thesis
      by (intro exI[of _ ev] exI[of _ s'], subst read_retrying.simps) auto
  qed
qed

end

sublocale interruptible \<subseteq> pumped: byte_stream "read_retrying rd" clock good
proof unfold_locales
  fix s ev s' now
  assume good: "good s"
  note step = read_retrying_step[OF good]
  show "read_retrying rd s \<noteq> None" using step by auto
  assume rd: "read_retrying rd s = Some (ev, s')"
  show "good s'" "clock s \<le> clock s'" using step rd by auto
  show "event_time ev = Some now \<Longrightarrow> now = clock s'" "is_idle ev \<Longrightarrow> clock s < clock s'" using step rd by auto
qed

section \<open>Wires\<close>

text \<open>
  A connection that may do anything: \<open>wi_reads n\<close> and \<open>wi_writes n\<close> are what its reads and writes, or those of the TLS session on
  it, return at the \<open>n\<close>-th call, for ever.  Nothing makes it end.
\<close>

record wire =
  wi_now :: duration
  wi_read :: nat
  wi_reads :: "nat \<Rightarrow> read_event"
  wi_written :: nat
  wi_writes :: "nat \<Rightarrow> write_event"
  wi_sent :: bytes

definition wire_read :: "wire reader" where
  "wire_read w =
     (let ev = wi_reads w (wi_read w) in
      Some (ev, w\<lparr>wi_now := unwrap_or (wi_now w) (event_time ev), wi_read := wi_read w + 1\<rparr>))"

definition wire_write :: "wire writer" where
  "wire_write bs w =
     (case wi_writes w (wi_written w) of
        Wrote n \<Rightarrow> Some (Wrote (min n (length bs)), w\<lparr>wi_written := wi_written w + 1, wi_sent := wi_sent w @ take n bs\<rparr>)
      | ev \<Rightarrow> Some (ev, w\<lparr>wi_written := wi_written w + 1\<rparr>))"

definition over_tls_read :: "('c \<times> wire) reader" where
  "over_tls_read = (\<lambda>(conn, w). map_option (\<lambda>(ev, w). (ev, (conn, w))) (wire_read w))"

definition over_tls_write :: "('c \<times> wire) writer" where
  "over_tls_write bs = (\<lambda>(conn, w). map_option (\<lambda>(ev, w). (ev, (conn, w))) (wire_write bs w))"

definition wire_ops :: "(string \<Rightarrow> bool) \<Rightarrow> ('a client_config \<Rightarrow> server_name \<Rightarrow> 'c res) \<Rightarrow> ('a, 'c, wire) stream_ops" where
  "wire_ops dns connect = \<lparr>op_tcp_read = wire_read, op_tls_read = over_tls_read, op_tcp_write = wire_write,
     op_tls_write = over_tls_write, op_tcp_flush = Pair (Ok ()), op_tls_flush = Pair (Ok ()),
     op_dns = dns, op_connect = connect\<rparr>"

text \<open>
  What a check needs of a connection to end: the clock does not go back, and a read that brings nothing takes time, as the
  read timeout of the socket makes it; and neither reads nor writes are interrupted by signals for ever.
\<close>

fun clock_after :: "wire \<Rightarrow> nat \<Rightarrow> duration" where
  "clock_after w 0 = wi_now w"
| "clock_after w (Suc k) = unwrap_or (clock_after w k) (event_time (wi_reads w (wi_read w + k)))"

definition wire_timed :: "wire \<Rightarrow> bool" where
  "wire_timed w \<longleftrightarrow> (\<forall>k t. event_time (wi_reads w (wi_read w + k)) = Some t \<longrightarrow>
     (if is_idle (wi_reads w (wi_read w + k)) then clock_after w k < t else clock_after w k \<le> t))"

definition signals_pause :: "wire \<Rightarrow> bool" where
  "signals_pause w \<longleftrightarrow> (\<forall>n. \<exists>m \<ge> n. \<not> is_interrupted (wi_reads w m)) \<and> (\<forall>n. \<exists>m \<ge> n. wi_writes w m \<noteq> WriteInterrupted)"

definition wire_live :: "wire \<Rightarrow> bool" where
  "wire_live w \<longleftrightarrow> wire_timed w \<and> signals_pause w"

fun wire_of :: "(wire, 'c \<times> wire) pump_stream \<Rightarrow> wire" where
  "wire_of (PumpTcp w) = w"
| "wire_of (PumpTls (conn, w)) = w"

lemma wire_stream_read:
  "stream_read wire_read over_tls_read ps = Some (ev, ps') \<longleftrightarrow>
     wire_read (wire_of ps) = Some (ev, wire_of ps') \<and>
     (case ps of PumpTcp w \<Rightarrow> \<exists>w'. ps' = PumpTcp w' | PumpTls (conn, w) \<Rightarrow> \<exists>w'. ps' = PumpTls (conn, w'))"
  by (auto simp: stream_read_def over_tls_read_def split: pump_stream.splits prod.splits)

lemma clock_after_read:
  assumes "wire_read w = Some (ev, w')"
  shows "clock_after w' k = clock_after w (Suc k)"
  using assms by (induction k) (auto simp: wire_read_def Let_def)

lemma wire_read_live:
  assumes "wire_live w" and "wire_read w = Some (ev, w')"
  shows "wire_live w'" and "event_time ev = Some now \<Longrightarrow> now = wi_now w'"
    and "wi_now w \<le> wi_now w'" and "is_idle ev \<Longrightarrow> wi_now w < wi_now w'"
proof -
  have w': "wi_reads w' = wi_reads w" "wi_writes w' = wi_writes w" "wi_read w' = wi_read w + 1" "ev = wi_reads w (wi_read w)"
    "wi_now w' = unwrap_or (wi_now w) (event_time ev)"
    using assms(2) by (auto simp: wire_read_def Let_def)
  have timed: "event_time (wi_reads w (wi_read w + k)) = Some t \<Longrightarrow>
      (if is_idle (wi_reads w (wi_read w + k)) then clock_after w k < t else clock_after w k \<le> t)" for k t
    using assms(1) by (simp add: wire_live_def wire_timed_def)
  show "wire_live w'"
    unfolding wire_live_def
  proof
    show "wire_timed w'"
      unfolding wire_timed_def clock_after_read[OF assms(2)] w'(1,3) using timed[of "Suc _"] by (simp del: clock_after.simps(2))
    show "signals_pause w'" using assms(1) by (simp add: wire_live_def signals_pause_def w'(1,2))
  qed
  show "event_time ev = Some now \<Longrightarrow> now = wi_now w'" by (simp add: w'(5))
  show "wi_now w \<le> wi_now w'" "is_idle ev \<Longrightarrow> wi_now w < wi_now w'"
    using timed[of 0] by (cases ev; auto simp: w'(4,5) split: if_splits)+
qed

text \<open>How many reads are still interrupted before one is not.\<close>

definition interrupted_for :: "wire \<Rightarrow> nat" where
  "interrupted_for w = (LEAST k. \<not> is_interrupted (wi_reads w (wi_read w + k)))"

lemma interrupted_for_less:
  assumes "wire_live w" and "wire_read w = Some (ev, w')" and "is_interrupted ev"
  shows "interrupted_for w' < interrupted_for w"
proof -
  have w': "wi_reads w' = wi_reads w" "wi_read w' = wi_read w + 1" "ev = wi_reads w (wi_read w)"
    using assms(2) by (auto simp: wire_read_def Let_def)
  let ?P = "\<lambda>k. \<not> is_interrupted (wi_reads w (wi_read w + k))"
  from assms(1) obtain m where "m \<ge> wi_read w" "\<not> is_interrupted (wi_reads w m)" by (auto simp: wire_live_def signals_pause_def)
  then have "?P (m - wi_read w)" by simp
  then have "?P (LEAST k. ?P k)" by (rule LeastI)
  moreover from this assms(3) have "(LEAST k. ?P k) \<noteq> 0" by (intro notI) (simp add: w'(3))
  ultimately have "?P (Suc ((LEAST k. ?P k) - 1))" by simp
  then have "interrupted_for w' \<le> (LEAST k. ?P k) - 1"
    unfolding interrupted_for_def w'(1,2) by (intro Least_le) simp
  with \<open>(LEAST k. ?P k) \<noteq> 0\<close> show ?thesis unfolding interrupted_for_def by linarith
qed

interpretation wire_pump: interruptible "stream_read wire_read over_tls_read" "\<lambda>ps. wi_now (wire_of ps)" "\<lambda>ps. wire_live (wire_of ps)"
  "\<lambda>ps. interrupted_for (wire_of ps)"
proof unfold_locales
  fix ps :: "(wire, 'c \<times> wire) pump_stream" and ev ps' now
  assume good: "wire_live (wire_of ps)"
  show "stream_read wire_read over_tls_read ps \<noteq> None"
    by (cases ps) (auto simp: stream_read_def over_tls_read_def wire_read_def Let_def)
  note step = wire_read_live[OF good]
  show "wire_live (wire_of ps')" "wi_now (wire_of ps) \<le> wi_now (wire_of ps')" if "stream_read wire_read over_tls_read ps = Some (ev, ps')"
    using that step(1,3) unfolding wire_stream_read by blast+
  show "now = wi_now (wire_of ps')" if "stream_read wire_read over_tls_read ps = Some (ev, ps')" "event_time ev = Some now"
    using that step(2) unfolding wire_stream_read by blast
  show "wi_now (wire_of ps) < wi_now (wire_of ps')" if "stream_read wire_read over_tls_read ps = Some (ev, ps')" "is_idle ev"
    using that step(4) unfolding wire_stream_read by blast
  show "interrupted_for (wire_of ps') < interrupted_for (wire_of ps)"
    if "stream_read wire_read over_tls_read ps = Some (Interrupted now, ps')"
    using that interrupted_for_less[OF good] is_interrupted.simps(1) unfolding wire_stream_read by blast
qed

lemma wire_stream_write_ex:
  assumes "wire_write bs (wire_of ps) = Some (ev, w')"
  obtains ps' where "stream_write wire_write over_tls_write bs ps = Some (ev, ps')" and "wire_of ps' = w'"
proof (cases ps)
  case (PumpTcp t)
  with assms that[of "PumpTcp w'"] show ?thesis by (simp add: stream_write_def)
next
  case (PumpTls u)
  with assms that[of "PumpTls (fst u, w')"] show ?thesis by (cases u) (simp add: stream_write_def over_tls_write_def)
qed

text \<open>Writing leaves what a wire will read as it is.\<close>

definition same_reads :: "wire \<Rightarrow> wire \<Rightarrow> bool" where
  "same_reads w w' \<longleftrightarrow> wi_now w' = wi_now w \<and> wi_read w' = wi_read w \<and> wi_reads w' = wi_reads w \<and> wi_writes w' = wi_writes w"

lemma clock_after_same: "same_reads w w' \<Longrightarrow> clock_after w' k = clock_after w k"
  by (induction k) (simp_all add: same_reads_def)

lemma same_reads_live: "same_reads w w' \<Longrightarrow> wire_live w \<Longrightarrow> wire_live w'"
  using clock_after_same[of w w'] by (auto simp: wire_live_def wire_timed_def signals_pause_def same_reads_def)

lemma same_reads_refl: "same_reads w w"
  by (simp add: same_reads_def)

lemma same_reads_trans: "same_reads w w' \<Longrightarrow> same_reads w' w'' \<Longrightarrow> same_reads w w''"
  by (simp add: same_reads_def)

text \<open>One write of the pump on a wire: the bytes it took are the bytes sent.\<close>

lemma pump_write_wire:
  assumes "signals_pause (wire_of ps)"
  shows "\<exists>ev ps'. pump_write wire_write over_tls_write bs ps = Some (ev, ps') \<and> ev \<noteq> WriteInterrupted \<and>
     same_reads (wire_of ps) (wire_of ps') \<and> (\<forall>n. ev = Wrote n \<longrightarrow> wi_sent (wire_of ps') = wi_sent (wire_of ps) @ take n bs)"
proof -
  obtain m where "m \<ge> wi_written (wire_of ps)" "wi_writes (wire_of ps) m \<noteq> WriteInterrupted"
    using assms by (auto simp: signals_pause_def)
  then show ?thesis
  proof (induction "m - wi_written (wire_of ps)" arbitrary: ps)
    case (0 ps)
    let ?w = "wire_of ps"
    obtain ev w' where w': "wire_write bs ?w = Some (ev, w')" by (cases "wi_writes ?w (wi_written ?w)") (auto simp: wire_write_def)
    obtain ps' where ps': "stream_write wire_write over_tls_write bs ps = Some (ev, ps')" "wire_of ps' = w'"
      using w' by (rule wire_stream_write_ex)
    have "m = wi_written ?w" using 0 by simp
    with 0 w' have ev: "ev \<noteq> WriteInterrupted" by (auto simp: wire_write_def split: write_event.splits)
    then have "pump_write wire_write over_tls_write bs ps = Some (ev, ps')"
      using ps'(1) unfolding pump_write_def by (subst write_retrying.simps) simp
    moreover have "same_reads ?w w' \<and> (\<forall>n. ev = Wrote n \<longrightarrow> wi_sent w' = wi_sent ?w @ take n bs)"
      using w' by (auto simp: wire_write_def same_reads_def min_def split: write_event.splits)
    ultimately show ?case using ev ps'(2) by blast
  next
    case (Suc k ps)
    let ?w = "wire_of ps"
    obtain ev w' where w': "wire_write bs ?w = Some (ev, w')" by (cases "wi_writes ?w (wi_written ?w)") (auto simp: wire_write_def)
    obtain ps' where ps': "stream_write wire_write over_tls_write bs ps = Some (ev, ps')" "wire_of ps' = w'"
      using w' by (rule wire_stream_write_ex)
    have same: "same_reads ?w w'" "wi_written w' = wi_written ?w + 1" "ev = WriteInterrupted \<Longrightarrow> wi_sent w' = wi_sent ?w"
      "\<forall>n. ev = Wrote n \<longrightarrow> wi_sent w' = wi_sent ?w @ take n bs"
      using w' by (auto simp: wire_write_def same_reads_def min_def split: write_event.splits)
    show ?case
    proof (cases "ev = WriteInterrupted")
      case True
      have "k = m - wi_written (wire_of ps')" "m \<ge> wi_written (wire_of ps')" "wi_writes (wire_of ps') m \<noteq> WriteInterrupted"
        using Suc(2,3,4) same ps'(2) by (auto simp: same_reads_def)
      from Suc(1)[OF this] obtain ev2 ps2 where p2: "pump_write wire_write over_tls_write bs ps' = Some (ev2, ps2)" "ev2 \<noteq> WriteInterrupted"
        "same_reads w' (wire_of ps2)" "\<forall>n. ev2 = Wrote n \<longrightarrow> wi_sent (wire_of ps2) = wi_sent w' @ take n bs" using ps'(2) by blast
      have "pump_write wire_write over_tls_write bs ps = Some (ev2, ps2)"
        using ps'(1) True p2(1) unfolding pump_write_def by (subst write_retrying.simps) simp
      with p2 same True show ?thesis using same_reads_trans by (intro exI[of _ ev2] exI[of _ ps2]) auto
    next
      case False
      then have "pump_write wire_write over_tls_write bs ps = Some (ev, ps')"
        using ps'(1) unfolding pump_write_def by (subst write_retrying.simps) simp
      then show ?thesis using same ps'(2) False by (intro exI[of _ ev] exI[of _ ps']) auto
    qed
  qed
qed

text \<open>\<open>write_all\<close> on a wire returns, and when it succeeds exactly the bytes asked for were sent.\<close>

lemma write_all_wire:
  "signals_pause (wire_of ps) \<Longrightarrow>
     \<exists>r ps'. write_all_over (pump_write wire_write over_tls_write) bs ps = Some (r, ps') \<and> same_reads (wire_of ps) (wire_of ps') \<and>
       (r = Ok () \<longrightarrow> wi_sent (wire_of ps') = wi_sent (wire_of ps) @ bs)"
proof (induction "length bs" arbitrary: ps bs rule: less_induct)
  case less
  show ?case
  proof (cases "bs = []")
    case True
    then show ?thesis by (subst write_all_over.simps) (simp add: same_reads_refl)
  next
    case False
    obtain ev ps1 where p: "pump_write wire_write over_tls_write bs ps = Some (ev, ps1)" "ev \<noteq> WriteInterrupted"
      "same_reads (wire_of ps) (wire_of ps1)" "\<forall>n. ev = Wrote n \<longrightarrow> wi_sent (wire_of ps1) = wi_sent (wire_of ps) @ take n bs"
      using pump_write_wire[OF less.prems] by blast
    show ?thesis
    proof (cases "\<exists>n > 0. ev = Wrote n")
      case True
      then obtain n where n: "n > 0" "ev = Wrote n" by blast
      have "signals_pause (wire_of ps1)" using less.prems p(3) by (simp add: signals_pause_def same_reads_def)
      then obtain r ps2 where p2: "write_all_over (pump_write wire_write over_tls_write) (drop n bs) ps1 = Some (r, ps2)"
        "same_reads (wire_of ps1) (wire_of ps2)" "r = Ok () \<longrightarrow> wi_sent (wire_of ps2) = wi_sent (wire_of ps1) @ drop n bs"
        using less.hyps[of "drop n bs" ps1] n False by (cases bs) auto
      have "write_all_over (pump_write wire_write over_tls_write) bs ps = Some (r, ps2)"
        using False p(1) n p2(1) by (subst write_all_over.simps) simp
      then show ?thesis using p2 p(3,4) n same_reads_trans by (intro exI[of _ r] exI[of _ ps2]) auto
    next
      case stop: False
      then show ?thesis using False p by (cases ev) (subst write_all_over.simps, simp)+
    qed
  qed
qed

lemma exchange_over_wire: "wire_live (wire_of ps) \<Longrightarrow> \<exists>r. exchange_over (pump_read wire_read over_tls_read) timeout ps = Some r"
  using wire_pump.pumped.header_loop_ends[of ps timeout "[]"] by (auto simp: exchange_over_def pump_read_def)

lemma check_on_wire_ends:
  assumes "wire_live w"
  shows "\<exists>c. check_target_with_roots (wire_ops dns connect) target timeout roots d w = Some c"
proof (cases "wrap_stream_with_roots dns connect w target roots")
  case (Inr ps)
  then have ps: "wire_of ps = w" by (auto simp: wrap_stream_with_roots_def Let_def split: if_splits)
  obtain r ps1 where wr: "write_all_over (pump_write wire_write over_tls_write) (bytes_of (check_request target)) ps = Some (r, ps1)"
    "same_reads w (wire_of ps1)"
    using write_all_wire[of ps "bytes_of (check_request target)"] assms ps by (auto simp: wire_live_def)
  have fl: "snd (pump_flush (Pair (Ok ())) (Pair (Ok ())) ps1) = ps1" by (simp add: pump_flush_def split: pump_stream.splits)
  obtain ex where "exchange_over (pump_read wire_read over_tls_read) timeout ps1 = Some ex"
    using exchange_over_wire[of ps1 timeout] same_reads_live[OF wr(2) assms] by blast
  then show ?thesis using Inr wr(1)
    by (cases r; cases ex) (simp_all add: check_target_with_roots_def wire_ops_def fl split: sum.splits)
qed (simp add: check_target_with_roots_def wire_ops_def split: sum.splits)

section \<open>Properties\<close>

text \<open>
  Claim C20.  A check over its stream is a check of the dial model on what the stream delivers.  Once the connection stands, the
  verdict is the one \<^const>\<open>check_target\<close> gives to the reads that follow the request, whatever the stream would have
  delivered next, none of them an interruption.  For a target without TLS they are reads of the connection; for a target
  with TLS they are reads of a session of the trust anchors given, for the target's own name, through which the request was
  written.  So what verifies over TLS was read through such a session, and everything shown of scripts holds of streams.
\<close>

theorem stream_check_refines_dial:
  assumes "check_target_with_roots ops target timeout roots d stream = Some c"
  shows "(\<exists>tls written reads. (connected target d \<longrightarrow> stream_plays ops target roots stream tls written reads) \<and>
      list_all (\<lambda>ev. \<not> is_interrupted ev) reads \<and>
      (\<forall>unread. c = check_target target timeout (d\<lparr>dl_tls := tls, dl_request_write := written, dl_reads := reads @ unread\<rparr>))) \<and>
    (ck_verified c \<and> tg_tls target \<longrightarrow> tls_session_for ops roots target)"
proof (cases "connected target d")
  case True
  from check_over_stream_dial[OF assms this] obtain tls written reads where
    c: "\<And>unread. c = check_target target timeout (d\<lparr>dl_tls := tls, dl_request_write := written, dl_reads := reads @ unread\<rparr>)"
    and plays: "stream_plays ops target roots stream tls written reads" "list_all (\<lambda>ev. \<not> is_interrupted ev) reads" by blast
  have "tls = Ok ()" if "ck_verified c" "tg_tls target" using c[of "[]"] that by (simp add: check_verified)
  then have "ck_verified c \<and> tg_tls target \<longrightarrow> tls_session_for ops roots target"
    using plays(1) by (auto simp: stream_plays_def tls_session_for_def)
  with c plays show ?thesis by blast
next
  case False
  then have "c = check_target target timeout (d\<lparr>dl_tls := Ok (), dl_request_write := Ok (), dl_reads := [] @ unread\<rparr>) \<and> \<not> ck_verified c"
    for unread using assms
    by (auto simp: connected_def check_target_with_roots_def check_target_def failed_check_def split: sum.splits)
  with False show ?thesis by (intro conjI exI[of _ "Ok ()"] exI[of _ "[]"]) auto
qed

text \<open>
  Claim C21.  A check ends by its own limits.  On a connection that goes on for ever, over TCP or TLS, whatever its reads bring
  and however little of the request a write takes, every check returns a verdict, if the clock does not go back, a read
  that brings nothing takes time, and signals do not interrupt for ever: the limit of 64 KiB ends a
  stream of bytes, the deadline a stream of nothing.
\<close>

theorem check_on_wire_returns:
  assumes "wire_live w"
  shows "\<exists>c. check_target_with_roots (wire_ops dns connect) target timeout roots d w = Some c"
  using assms by (rule check_on_wire_ends)

text \<open>
  A target over TLS whose answer comes after a signal and a wait, and a request that is written in pieces; and a server that
  sends the same byte for ever.
\<close>

definition sample_wire :: wire where
  "sample_wire = \<lparr>wi_now = 0, wi_read = 0, wi_reads = (\<lambda>n. if n = 0 then Interrupted 1 else if n = 1 then Blocked 3
       else if n = 2 then Data 4 (online_headers @ ''online'') else Data 5 []),
     wi_written = 0, wi_writes = (\<lambda>n. if n = 0 then WriteInterrupted else Wrote 10), wi_sent = []\<rparr>"

definition babbling_wire :: wire where
  "babbling_wire = \<lparr>wi_now = 0, wi_read = 0, wi_reads = (\<lambda>n. Data 1 ''x''), wi_written = 0, wi_writes = (\<lambda>n. Wrote 1), wi_sent = []\<rparr>"

definition any_session :: "string client_config \<Rightarrow> server_name \<Rightarrow> unit res" where
  "any_session config name = Ok ()"

lemma sample_clock_after: "clock_after sample_wire k = (if k = 0 then 0 else if k = 1 then 1 else if k = 2 then 3 else if k = 3 then 4 else 5)"
  by (induction k) (auto simp: sample_wire_def)

lemma sample_wire_live: "wire_live sample_wire"
proof -
  have "wire_timed sample_wire" unfolding wire_timed_def sample_clock_after by (auto simp: sample_wire_def)
  moreover have "signals_pause sample_wire"
    unfolding signals_pause_def
  proof (intro conjI allI)
    fix n
    show "\<exists>m \<ge> n. \<not> is_interrupted (wi_reads sample_wire m)" "\<exists>m \<ge> n. wi_writes sample_wire m \<noteq> WriteInterrupted"
      by (rule exI[of _ "n + 3"], simp add: sample_wire_def)+
  qed
  ultimately show ?thesis by (simp add: wire_live_def)
qed

lemma babbling_wire_live: "wire_live babbling_wire"
proof -
  have "clock_after babbling_wire k \<le> 1" for k by (induction k) (simp_all add: babbling_wire_def)
  then show ?thesis by (auto simp: wire_live_def wire_timed_def signals_pause_def babbling_wire_def)
qed

theorem check_on_wire_returns_witness:
  "\<exists>c. check_target_with_roots (wire_ops (\<lambda>h. True) any_session) online_target 100 [''root''] (sample_dial []) babbling_wire = Some c"
  using check_on_wire_returns[OF babbling_wire_live] .

theorem stream_check_refines_dial_witness:
  "\<exists>c. check_target_with_roots (wire_ops (\<lambda>h. True) any_session) (online_target\<lparr>tg_tls := True\<rparr>) 100 [''root''] (sample_dial []) sample_wire
       = Some c \<and>
     (ck_verified c \<longrightarrow> tls_session_for (wire_ops (\<lambda>h. True) any_session :: (string, unit, wire) stream_ops) [''root'']
       (online_target\<lparr>tg_tls := True\<rparr>))"
proof -
  obtain c where c: "check_target_with_roots (wire_ops (\<lambda>h. True) any_session) (online_target\<lparr>tg_tls := True\<rparr>) 100 [''root'']
      (sample_dial []) sample_wire = Some c" using check_on_wire_ends[OF sample_wire_live] by blast
  from stream_check_refines_dial[OF c] c show ?thesis by auto
qed

text \<open>
  The pump repeats an interrupted read without looking at the clock: on a stream whose reads are interrupted again and
  again, the loop would end with its deadline, but above the pump the read never returns.
\<close>

lemma interrupts_outlast_deadline:
  assumes storm: "\<And>s. \<exists>s'. rd s = Some (Interrupted (clock s'), s') \<and> clock s < clock s'"
  shows "(\<exists>e. header_loop rd timeout s [] = Some (Err e)) \<and> header_loop (read_retrying rd) timeout s [] = None"
proof
  have byte: "byte_stream rd clock (\<lambda>s. True)"
  proof
    fix s ev s' now
    obtain s2 where s2: "rd s = Some (Interrupted (clock s2), s2)" "clock s < clock s2" using storm by blast
    show "rd s \<noteq> None" using s2 by simp
    assume "rd s = Some (ev, s')"
    with s2 have "ev = Interrupted (clock s')" "clock s < clock s'" by auto
    then show "clock s \<le> clock s'" "clock s < clock s'" "event_time ev = Some now \<Longrightarrow> now = clock s'" by auto
  qed simp
  obtain r where r: "header_loop rd timeout s [] = Some r"
    using byte_stream.header_loop_ends[OF byte] by blast
  have "\<exists>e. r = Err e" if "header_loop rd timeout s response = Some r" "response = []"
      "\<And>s. \<exists>s'. rd s = Some (Interrupted (clock s'), s') \<and> clock s < clock s'" for response
    using that(2,3)
  proof (induction rule: header_loop.raw_induct[OF _ that(1), consumes 0])
    case (1 loop rd timeout s response r)
    from 1(4) obtain s' where s': "rd s = Some (Interrupted (clock s'), s')" by blast
    show ?case
    proof (cases "take_event timeout (Interrupted (clock s')) response")
      case (Inl r')
      with 1(2) s' show ?thesis by (auto simp: 1(3) take_event_def split: option.splits)
    next
      case (Inr sofar)
      then have "sofar = []" by (auto simp: 1(3) take_event_def split: option.splits)
      with 1(2) s' Inr have "loop rd timeout s' [] = Some r" by (simp add: 1(3))
      from 1(1)[OF this refl 1(4)] show ?thesis .
    qed
  qed
  from this[OF r refl storm] r show "\<exists>e. header_loop rd timeout s [] = Some (Err e)" by blast
  have never: "read_retrying rd s \<noteq> Some p" for s p
  proof
    assume that: "read_retrying rd s = Some p"
    have False if "\<And>s. \<exists>s'. rd s = Some (Interrupted (clock s'), s') \<and> clock s < clock s'"
      using that
    proof (induction rule: read_retrying.raw_induct[OF _ \<open>read_retrying rd s = Some p\<close>, consumes 0])
      case (1 retry rd s p)
      from 1(3) obtain s' where "rd s = Some (Interrupted (clock s'), s')" by blast
      with 1(2) have "retry rd s' = Some p" by simp
      from 1(1)[OF this 1(3)] show ?case .
    qed
    with storm show False by blast
  qed
  then have "read_retrying rd s = None" by (cases "read_retrying rd s") auto
  then show "header_loop (read_retrying rd) timeout s [] = None" by (subst header_loop.simps) simp
qed

lemma read_char_absent: "c \<notin> set s \<Longrightarrow> read_char c s = None"
  by (cases s) (auto simp: read_char_def)

lemma read_number_rest: "read_number radix md z mx s = Some (n, r) \<Longrightarrow> set r \<subseteq> set s"
  by (auto simp: read_number_def Let_def dest: set_dropWhileD split: if_splits option.splits)

lemma parse_ipv6_needs_colon:
  assumes "CHR '':'' \<notin> set s"
  shows "parse_ipv6 s = None"
proof -
  have first: "read_groups 8 0 s =
      (case read_ipv4 s of
         Some (a, r) \<Rightarrow> ([unat a div 2 ^ 16, unat a mod 2 ^ 16], True, r)
       | None \<Rightarrow>
           (case read_number 16 4 True 65535 s of
              None \<Rightarrow> ([], False, s)
            | Some (g, r) \<Rightarrow> (case read_groups 7 (Suc 0) r of (gs, v4, r') \<Rightarrow> (g # gs, v4, r'))))"
    using read_groups.simps(2)[of 7 0 s] by (cases "read_ipv4 s") (simp_all add: read_separator_def)
  have second: "read_groups 7 (Suc 0) r = ([], False, r)" if "CHR '':'' \<notin> set r" for r
    using read_groups.simps(2)[of 6 1 r] read_char_absent[OF that] by (simp add: read_separator_def)
  have "CHR '':'' \<notin> set r" if "read_number 16 4 True 65535 s = Some (g, r)" for g r
    using read_number_rest[OF that] assms by auto
  then have "read_ipv6 s = None"
    using read_char_absent[OF assms] read_char_absent
    by (auto simp: read_ipv6_def first second split: option.splits prod.splits)
  then show ?thesis by (simp add: parse_ipv6_def)
qed

lemma parse_ipv4_needs_digit: "to_digit 10 c = None \<Longrightarrow> parse_ipv4 (c # s) = None"
  using read_octets.simps(2)[of 3 0 "c # s"] by (simp add: parse_ipv4_def read_ipv4_def read_separator_def read_number_def)

text \<open>No TLS target of the tables is written as an address: each is verified under its domain name.\<close>

lemma targets_verified_by_name:
  assumes "t \<in> set (EGRESS_TARGETS @ REAL_SITE_TARGETS)" and "tg_tls t" and "dns (tg_host t)"
  shows "server_name_of dns (tg_host t) = Ok (NameDns (tg_host t))"
proof -
  have "list_all (\<lambda>t. CHR '':'' \<notin> set (tg_host t) \<and> (case tg_host t of [] \<Rightarrow> False | c # s \<Rightarrow> to_digit 10 c = None))
      (EGRESS_TARGETS @ REAL_SITE_TARGETS)"
    by (simp add: EGRESS_TARGETS_def REAL_SITE_TARGETS_def operator_def real_site_def to_digit_def
        is_ascii_digit_def is_ascii_lowercase_def)
  then have "CHR '':'' \<notin> set (tg_host t) \<and> (\<exists>c s. tg_host t = c # s \<and> to_digit 10 c = None)"
    using assms(1) unfolding list_all_iff by (cases "tg_host t") fastforce+
  then have "parse_ipv6 (tg_host t) = None" "parse_ipv4 (tg_host t) = None"
    using parse_ipv6_needs_colon parse_ipv4_needs_digit by auto
  with assms(3) show ?thesis by (simp add: server_name_of_def)
qed

end
