(* ===== verification/Testbed.thy ===== *)
theory Testbed
  imports Adapter Egress_Stream
begin

text \<open>
  The testbed of an egress trial, \<open>crates/adapter/src/egress.rs\<close> lines 427 to 560: compiling and checking a
  configuration, spawning the core, waiting for its listener, and the two scatters over it, whose checks run over the
  streams of \<^theory_text>\<open>Egress_Stream\<close>; the single round trip; the core a trial owns; with them
  \<open>validate_config\<close> and \<open>probe_capabilities\<close> of \<open>crates/adapter/src/lib.rs\<close>.

  What one trial meets outside the program is a \<open>trial_env\<close>: the free port, the runs of the binary,
  the file system, the looks at the listener and at the child, the connection each target is
  reached on, and \<open>rustls\<close> with its names and trust anchors.  \<open>serde_json\<close>'s printing is a parameter.
\<close>

section \<open>Running the binary\<close>

record bin_output =
  bo_success :: bool
  bo_stdout :: string
  bo_stderr :: string

definition probe_capabilities :: "(string \<Rightarrow> string list \<Rightarrow> bin_output res) \<Rightarrow> string \<Rightarrow> core_capabilities res" where
  "probe_capabilities run binary_path =
     (case run binary_path [''version''] of
        Inl e \<Rightarrow> Err (''failed to run `'' @ binary_path @ '' version`'')
      | Inr out \<Rightarrow>
          if \<not> bo_success out then Err ''sing-box failed to report its version''
          else Ok \<lparr>cc_core_name = ''sing-box'',
                   cc_version = (case lines (from_utf8_lossy (bo_stdout out)) of [] \<Rightarrow> ''unknown'' | l # _ \<Rightarrow> l),
                   cc_supported = {CapVless, CapVlessReality, CapVmess, CapTrojan, CapShadowsocks, CapHysteria2,
                     CapTuic, CapWireGuard, CapWebSocket, CapGrpc, CapHttpUpgrade, CapXHttp, CapMultiplexing}\<rparr>)"

text \<open>\<open>check\<close> is the run of the binary on the temporary file, \<open>write\<close> the creation of that file.\<close>

definition adapter_validate_config :: "unit res \<Rightarrow> (string \<Rightarrow> bin_output res) \<Rightarrow> string \<Rightarrow> string \<Rightarrow> unit res" where
  "adapter_validate_config write check binary_path config_json =
     try_then write (\<lambda>_.
     (case check config_json of
        Inl e \<Rightarrow> Err (''failed to run `'' @ binary_path @ '' check -c''  @ ''`'')
      | Inr out \<Rightarrow>
          if \<not> bo_success out then Err (''sing-box rejected the config: '' @ trim (from_utf8_lossy (bo_stderr out)))
          else Ok ()))"

section \<open>The testbed\<close>

text \<open>
  One look of \<open>wait_until_ready\<close>: does the listener accept, has the child exited, what time is it.
  \<open>take_stderr\<close> reads the child's pipe to its end.  The pipe of a core that has exited is at its end; of a core
  that still runs the read returns when the core closes it, and \<open>te_stderr_running\<close> is \<^term>\<open>None\<close> when it never does.
\<close>

record poll =
  pl_accepts :: bool
  pl_exited :: "string option res"
  pl_now :: instant

record trial_env =
  te_port :: "u16 res"
  te_to_vec :: "json \<Rightarrow> string res"
  te_to_vec_pretty :: "json \<Rightarrow> string res"
  te_check_file :: "unit res"
  te_check :: "string \<Rightarrow> bin_output res"
  te_create_dir :: "unit res"
  te_write :: "string \<Rightarrow> unit res"
  te_spawn :: "unit res"
  te_started :: instant
  te_polls :: "nat \<Rightarrow> poll"
  te_stderr_exited :: string
  te_stderr_running :: "string option"
  te_seed :: u64
  te_conn :: "u16 \<Rightarrow> egress_target \<Rightarrow> dial \<times> wire"
  te_dns :: "string \<Rightarrow> bool"
  te_connect :: "string client_config \<Rightarrow> server_name \<Rightarrow> unit res"
  te_roots :: "string list"

definition take_stderr :: "trial_env \<Rightarrow> bool \<Rightarrow> string option" where
  "take_stderr env running =
     map_option (\<lambda>s. if s = [] then ''no stderr captured'' else s)
       (if running then te_stderr_running env else Some (te_stderr_exited env))"

text \<open>The loop of \<open>wait_until_ready\<close>; \<open>None\<close> is a loop that has not ended with the fuel given, or a read of the pipe
  that does not return.\<close>

fun ready_loop :: "trial_env \<Rightarrow> instant \<Rightarrow> nat \<Rightarrow> nat \<Rightarrow> unit res option" where
  "ready_loop env deadline 0 n = None"
| "ready_loop env deadline (Suc fuel) n =
     (let look = te_polls env n in
      if pl_accepts look then Some (Ok ())
      else case pl_exited look of
        Inl e \<Rightarrow> Some (Err e)
      | Inr (Some status) \<Rightarrow>
          map_option (\<lambda>s. Err (''sing-box testbed exited '' @ status @ '': '' @ trim s)) (take_stderr env False)
      | Inr None \<Rightarrow>
          if deadline < pl_now look
          then map_option (\<lambda>s. Err (''sing-box testbed never opened the listener: '' @ trim s)) (take_stderr env True)
          else ready_loop env deadline fuel (n + 1))"

definition ready_timeout :: duration where "ready_timeout = from_secs 10"
definition ready_pause :: duration where "ready_pause = from_millis 100"

text \<open>Looks are at least a pause apart, so 102 of them reach past the deadline.\<close>

definition ready_fuel :: nat where "ready_fuel = 102"

definition wait_until_ready :: "trial_env \<Rightarrow> unit res option" where
  "wait_until_ready env = ready_loop env (te_started env + ready_timeout) ready_fuel 0"

definition spawn_with_config :: "trial_env \<Rightarrow> string \<Rightarrow> json \<Rightarrow> u16 \<Rightarrow> u16 res option" where
  "spawn_with_config env binary config port =
     (case try_then (te_to_vec env config) (\<lambda>bytes.
             map_err (\<lambda>_. ''testbed config rejected by '' @ binary)
               (adapter_validate_config (te_check_file env) (te_check env) binary bytes)) of
        Inl e \<Rightarrow> Some (Err e)
      | Inr _ \<Rightarrow>
          (case try_then (te_create_dir env) (\<lambda>_. try_then (te_to_vec_pretty env config) (te_write env)) of
             Inl e \<Rightarrow> Some (Err e)
           | Inr _ \<Rightarrow>
               (case te_spawn env of
                  Inl e \<Rightarrow> Some (Err (''could not launch sing-box; is '' @ binary @ '' a valid binary?''))
                | Inr _ \<Rightarrow> map_option (\<lambda>r. try_then r (\<lambda>_. Ok port)) (wait_until_ready env))))"

definition Testbed_spawn :: "(uuid \<Rightarrow> string) \<Rightarrow> trial_env \<Rightarrow> string \<Rightarrow> canonical_node \<Rightarrow> u16 \<Rightarrow> u16 res option" where
  "Testbed_spawn show_uuid env binary node port =
     (case compile_testbed_config show_uuid node port of
        Inl e \<Rightarrow> Some (Err e)
      | Inr config \<Rightarrow> spawn_with_config env binary config port)"

definition Testbed_spawn_direct :: "trial_env \<Rightarrow> string \<Rightarrow> u16 \<Rightarrow> u16 res option" where
  "Testbed_spawn_direct env binary port = spawn_with_config env binary (compile_direct_testbed_config port) port"

text \<open>The check of one target through the listener at \<open>port\<close>; \<open>None\<close> is a check that never returns.\<close>

definition trial_check :: "trial_env \<Rightarrow> u16 \<Rightarrow> duration \<Rightarrow> egress_target \<Rightarrow> target_check option" where
  "trial_check env port timeout target =
     (case te_conn env port target of
        (d, connection) \<Rightarrow>
          check_target_default (wire_ops (te_dns env) (te_connect env)) (te_roots env) target timeout d connection)"

text \<open>
  A scatter over a testbed; \<open>None\<close> is a panic, or a wait or a check that does not end: the workers are
  joined before the report is made, so one check that does not return holds the whole scatter.
\<close>

definition scatter_on :: "trial_env \<Rightarrow> scatter_config \<Rightarrow> u16 res option \<Rightarrow> scatter_report res option" where
  "scatter_on env cfg bed =
     (case bed of
        None \<Rightarrow> None
      | Some (Inl e) \<Rightarrow> Some (Err e)
      | Some (Inr port) \<Rightarrow>
          let check = trial_check env port (sc_timeout cfg) in
          if list_all (\<lambda>t. check t \<noteq> None) (sample_targets (te_seed env) cfg)
          then map_option Ok (scatter_over_testbed (te_seed env) cfg (\<lambda>t. the (check t)))
          else None)"

definition test_egress_scatter ::
    "(uuid \<Rightarrow> string) \<Rightarrow> trial_env \<Rightarrow> string \<Rightarrow> canonical_node \<Rightarrow> scatter_config \<Rightarrow> scatter_report res option" where
  "test_egress_scatter show_uuid env binary node cfg =
     (case te_port env of
        Inl e \<Rightarrow> Some (Err e)
      | Inr port \<Rightarrow> scatter_on env cfg (Testbed_spawn show_uuid env binary node port))"

definition test_local_egress_scatter :: "trial_env \<Rightarrow> string \<Rightarrow> scatter_config \<Rightarrow> scatter_report res option" where
  "test_local_egress_scatter env binary cfg =
     (case te_port env of
        Inl e \<Rightarrow> Some (Err e)
      | Inr port \<Rightarrow> scatter_on env cfg (Testbed_spawn_direct env binary port))"

section \<open>A trial ends\<close>

text \<open>Between two looks the thread sleeps for a pause.\<close>

definition clock_ok :: "trial_env \<Rightarrow> bool" where
  "clock_ok env = (\<forall>n. te_started env + n * ready_pause \<le> pl_now (te_polls env n))"

text \<open>A look that ends the wait at once: the listener accepts, or the child has exited or cannot be asked.\<close>

definition settled :: "trial_env \<Rightarrow> nat \<Rightarrow> bool" where
  "settled env n \<longleftrightarrow> pl_accepts (te_polls env n) \<or> pl_exited (te_polls env n) \<noteq> Ok None"

definition settles_in_time :: "trial_env \<Rightarrow> bool" where
  "settles_in_time env \<longleftrightarrow> (\<exists>n. settled env n \<and> (\<forall>m < n. pl_now (te_polls env m) \<le> te_started env + ready_timeout))"

definition trial_ok :: "trial_env \<Rightarrow> bool" where
  "trial_ok env \<longleftrightarrow> clock_ok env \<and> (te_stderr_running env \<noteq> None \<or> settles_in_time env) \<and>
     (\<forall>port t. wire_live (snd (te_conn env port t)))"

lemma ready_loop_settled: "settled env n \<Longrightarrow> \<exists>r. ready_loop env deadline (Suc fuel) n = Some r"
  by (auto simp: settled_def Let_def take_stderr_def split: sum.splits option.splits)

lemma ready_loop_late:
  "\<not> settled env n \<Longrightarrow> deadline < pl_now (te_polls env n) \<Longrightarrow>
     ready_loop env deadline (Suc fuel) n =
       map_option (\<lambda>s. Err (''sing-box testbed never opened the listener: '' @ trim s)) (take_stderr env True)"
  by (simp add: settled_def Let_def)

lemma ready_loop_again:
  "\<not> settled env n \<Longrightarrow> pl_now (te_polls env n) \<le> deadline \<Longrightarrow>
     ready_loop env deadline (Suc fuel) n = ready_loop env deadline fuel (n + 1)"
  by (simp add: settled_def Let_def)

lemma ready_loop_ends:
  assumes "clock_ok env" and "deadline < te_started env + (n + fuel) * ready_pause"
    and "te_stderr_running env \<noteq> None \<or> (\<exists>k. settled env (n + k) \<and> (\<forall>m < k. pl_now (te_polls env (n + m)) \<le> deadline))"
  shows "\<exists>r. ready_loop env deadline (Suc fuel) n = Some r"
  using assms(2,3)
proof (induction fuel arbitrary: n)
  case 0
  hence late: "deadline < pl_now (te_polls env n)" using assms(1) by (metis add_0_right clock_ok_def order_less_le_trans)
  show ?case
  proof (cases "settled env n")
    case False
    have "te_stderr_running env \<noteq> None"
    proof (rule ccontr)
      assume "\<not> te_stderr_running env \<noteq> None"
      then obtain k where k: "settled env (n + k)" "\<forall>m < k. pl_now (te_polls env (n + m)) \<le> deadline" using 0 by blast
      with False have "0 < k" by (cases k) auto
      with k(2) late show False by force
    qed
    with False late show ?thesis by (auto simp: ready_loop_late take_stderr_def simp del: ready_loop.simps)
  qed (rule ready_loop_settled)
next
  case (Suc fuel)
  show ?case
  proof (cases "settled env n")
    case False
    show ?thesis
    proof (cases "te_stderr_running env")
      case None
      then obtain k where k: "settled env (n + k)" "\<forall>m < k. pl_now (te_polls env (n + m)) \<le> deadline" using Suc.prems by blast
      with False obtain j where j: "k = Suc j" by (cases k) auto
      have "\<forall>m < j. pl_now (te_polls env (n + 1 + m)) \<le> deadline"
      proof (intro allI impI)
        fix m assume "m < j"
        thus "pl_now (te_polls env (n + 1 + m)) \<le> deadline" using k(2) j by (metis Suc_less_eq add.assoc plus_1_eq_Suc)
      qed
      hence "\<exists>r. ready_loop env deadline (Suc fuel) (n + 1) = Some r"
        using k(1) j Suc.prems(1) by (intro Suc.IH disjI2 exI[of _ j]) auto
      moreover have "pl_now (te_polls env n) \<le> deadline" using k(2) j by force
      ultimately show ?thesis using False by (simp add: ready_loop_again del: ready_loop.simps)
    next
      case (Some out)
      hence "\<exists>r. ready_loop env deadline (Suc fuel) (n + 1) = Some r"
        using Suc.prems(1) by (intro Suc.IH) auto
      thus ?thesis using False Some
        by (cases "deadline < pl_now (te_polls env n)")
          (auto simp: ready_loop_late ready_loop_again take_stderr_def simp del: ready_loop.simps)
    qed
  qed (rule ready_loop_settled)
qed

lemma ready_loop_blocked:
  assumes "te_stderr_running env = None" and "\<And>k. settled env (n + k) \<Longrightarrow> \<exists>m < k. deadline < pl_now (te_polls env (n + m))"
  shows "ready_loop env deadline fuel n = None"
  using assms(2)
proof (induction fuel arbitrary: n)
  case (Suc fuel)
  have now: "\<not> settled env n" using Suc.prems[of 0] by auto
  show ?case
  proof (cases "deadline < pl_now (te_polls env n)")
    case True
    with now assms(1) show ?thesis by (simp add: ready_loop_late take_stderr_def del: ready_loop.simps)
  next
    case False
    have "\<exists>m < k. deadline < pl_now (te_polls env (n + 1 + m))" if "settled env (n + 1 + k)" for k
    proof -
      from Suc.prems[of "Suc k"] that obtain m where "m < Suc k" "deadline < pl_now (te_polls env (n + m))" by auto
      with False show ?thesis by (cases m) auto
    qed
    then have "ready_loop env deadline fuel (n + 1) = None" by (rule Suc.IH)
    with now False show ?thesis by (simp add: ready_loop_again del: ready_loop.simps)
  qed
qed simp

lemma wait_until_ready_ends: "trial_ok env \<Longrightarrow> \<exists>r. wait_until_ready env = Some r"
  using ready_loop_ends [of env "te_started env + ready_timeout" 0 101]
  by (simp add: wait_until_ready_def ready_fuel_def ready_timeout_def ready_pause_def from_secs_def from_millis_def
      trial_ok_def settles_in_time_def del: ready_loop.simps)

text \<open>
  A core that runs on without opening its listener is given up at the deadline, but the report reads its error
  output to the end before the core is killed: as long as the core keeps the pipe open the trial
  stays there.
\<close>

lemma silent_core_blocks_trial:
  assumes "te_stderr_running env = None" and "\<not> settles_in_time env"
  shows "ready_loop env (te_started env + ready_timeout) fuel 0 = None"
proof (rule ready_loop_blocked[OF assms(1)])
  fix k assume "settled env (0 + k)"
  with assms(2) show "\<exists>m < k. te_started env + ready_timeout < pl_now (te_polls env (0 + m))"
    by (auto simp: settles_in_time_def not_le)
qed

lemma spawn_with_config_ends: "trial_ok env \<Longrightarrow> \<exists>r. spawn_with_config env binary config port = Some r"
  using wait_until_ready_ends [of env] by (auto simp: spawn_with_config_def split: sum.splits)

lemma Testbed_spawn_ends: "trial_ok env \<Longrightarrow> \<exists>r. Testbed_spawn su env binary node port = Some r"
  by (cases "compile_testbed_config su node port") (simp_all add: Testbed_spawn_def spawn_with_config_ends)

lemma trial_check_ends: "trial_ok env \<Longrightarrow> trial_check env port timeout t \<noteq> None"
  using check_on_wire_ends[of "snd (te_conn env port t)" "te_dns env" "te_connect env" t timeout _ "fst (te_conn env port t)"]
  by (auto simp: trial_check_def trial_ok_def check_target_default_def split: prod.splits)

lemma scatter_on_ends:
  "trial_ok env \<Longrightarrow> 0 < sc_max_concurrency cfg \<Longrightarrow> bed = Some b \<Longrightarrow> \<exists>r. scatter_on env cfg bed = Some r"
  using trial_check_ends[of env]
  by (auto simp: scatter_on_def scatter_over_testbed_def worker_count_def Let_def list_all_iff split: sum.splits)

text \<open>The checks of a report are those of the sampled targets, in their order, and the verdict is the fold over them.\<close>

lemma scatter_on_Ok:
  assumes "scatter_on env cfg (Some (Ok port)) = Some (Ok report)"
  shows "map Some (sr_checks report) = map (trial_check env port (sc_timeout cfg)) (sample_targets (te_seed env) cfg)"
    and "report = fold_report (sample_targets (te_seed env) cfg) (sc_min_verified cfg) (sr_checks report)"
proof -
  let ?work = "sample_targets (te_seed env) cfg" and ?check = "trial_check env port (sc_timeout cfg)"
  have all: "list_all (\<lambda>t. ?check t \<noteq> None) ?work" and
    r: "scatter_over_testbed (te_seed env) cfg (\<lambda>t. the (?check t)) = Some report"
    using assms by (auto simp: scatter_on_def Let_def split: if_splits)
  from r have report: "report = fold_report ?work (sc_min_verified cfg) (map (\<lambda>t. the (?check t)) ?work)"
    by (auto simp: scatter_over_testbed_def Let_def split: option.splits)
  then have checks: "sr_checks report = map (\<lambda>t. the (?check t)) ?work" by (simp add: fold_report_def Let_def)
  show "map Some (sr_checks report) = map ?check ?work"
    unfolding checks using all by (auto simp: list_all_iff)
  show "report = fold_report ?work (sc_min_verified cfg) (sr_checks report)" using report checks by simp
qed

lemma test_egress_scatter_ends:
  assumes "trial_ok env" "0 < sc_max_concurrency cfg"
  shows "\<exists>r. test_egress_scatter su env binary node cfg = Some r"
proof (cases "te_port env")
  case (Inr port)
  obtain b where "Testbed_spawn su env binary node port = Some b" using Testbed_spawn_ends [OF assms(1)] by blast
  thus ?thesis using Inr scatter_on_ends [OF assms refl, of b] by (simp add: test_egress_scatter_def)
qed (simp add: test_egress_scatter_def)

lemma ready_loop_accepts: "ready_loop env d fuel m = Some (Ok ()) \<Longrightarrow> \<exists>n < m + fuel. pl_accepts (te_polls env n)"
proof (induction fuel arbitrary: m)
  case (Suc fuel)
  show ?case
  proof (cases "pl_accepts (te_polls env m)")
    case False
    hence "ready_loop env d fuel (m + 1) = Some (Ok ())"
      using Suc.prems by (auto simp: Let_def split: sum.splits option.splits if_splits)
    thus ?thesis using Suc.IH by fastforce
  qed (intro exI [of _ m], simp)
qed simp

text \<open>
  What a testbed is when its spawn succeeds: this very configuration was serialised, the bytes were accepted by the
  binary's check, it was written to the run directory, the core was launched on it and its listener accepted.
\<close>

definition checked_testbed :: "trial_env \<Rightarrow> json \<Rightarrow> bool" where
  "checked_testbed env config \<longleftrightarrow>
     (\<exists>bytes out pretty. te_to_vec env config = Ok bytes \<and> te_check_file env = Ok () \<and> te_check env bytes = Ok out \<and> bo_success out \<and>
        te_create_dir env = Ok () \<and> te_to_vec_pretty env config = Ok pretty \<and> te_write env pretty = Ok () \<and> te_spawn env = Ok ()) \<and>
     (\<exists>n < ready_fuel. pl_accepts (te_polls env n))"

lemma adapter_validate_config_Ok:
  "adapter_validate_config write check binary bytes = Ok () \<longleftrightarrow> write = Ok () \<and> (\<exists>out. check bytes = Ok out \<and> bo_success out)"
  by (auto simp: adapter_validate_config_def split: sum.splits)

lemma spawn_with_config_Ok:
  assumes "spawn_with_config env binary config port = Some (Ok p)"
  shows "p = port" and "checked_testbed env config"
proof -
  let ?check = "adapter_validate_config (te_check_file env) (te_check env) binary"
  obtain bytes where bytes: "te_to_vec env config = Inr bytes" "?check bytes = Inr ()"
    using assms by (cases "te_to_vec env config"; cases "?check (projr (te_to_vec env config))")
      (auto simp: spawn_with_config_def)
  obtain pretty where pretty: "te_create_dir env = Inr ()" "te_to_vec_pretty env config = Inr pretty" "te_write env pretty = Inr ()"
    using assms bytes
    by (cases "te_create_dir env"; cases "te_to_vec_pretty env config"; cases "te_write env (projr (te_to_vec_pretty env config))")
      (auto simp: spawn_with_config_def)
  have spawn: "te_spawn env = Inr ()" "wait_until_ready env = Some (Inr ())" and "p = port"
    using assms bytes pretty by (auto simp: spawn_with_config_def split: sum.splits)
  then show "p = port" by simp
  have "\<exists>n < ready_fuel. pl_accepts (te_polls env n)"
    using spawn(2) ready_loop_accepts [of env _ ready_fuel 0] by (simp add: wait_until_ready_def)
  with bytes pretty spawn(1) adapter_validate_config_Ok show "checked_testbed env config"
    unfolding checked_testbed_def by blast
qed

lemma Testbed_spawn_Ok:
  assumes "Testbed_spawn su env binary node port = Some (Ok p)"
  shows "p = port" and "server_ok node" and "\<exists>config. compile_testbed_config su node port = Ok config \<and> checked_testbed env config"
proof -
  obtain config where c: "compile_testbed_config su node port = Ok config"
    using assms by (cases "compile_testbed_config su node port") (auto simp: Testbed_spawn_def)
  thus "server_ok node" using compile_outbound_Ok_iff by (auto simp: compile_testbed_config_def)
  have "spawn_with_config env binary config port = Some (Ok p)" using assms c by (simp add: Testbed_spawn_def)
  with c spawn_with_config_Ok show "p = port" "\<exists>config. compile_testbed_config su node port = Ok config \<and> checked_testbed env config" by blast+
qed

lemma test_egress_scatter_Ok:
  assumes "test_egress_scatter su env binary node cfg = Some (Ok report)"
  shows "server_ok node \<and> (\<exists>port config. te_port env = Ok port \<and> compile_testbed_config su node port = Ok config \<and>
    checked_testbed env config \<and>
    map Some (sr_checks report) = map (trial_check env port (sc_timeout cfg)) (sample_targets (te_seed env) cfg) \<and>
    report = fold_report (sample_targets (te_seed env) cfg) (sc_min_verified cfg) (sr_checks report))"
proof -
  obtain port where port: "te_port env = Ok port" using assms by (auto simp: test_egress_scatter_def split: sum.splits)
  then have on: "scatter_on env cfg (Testbed_spawn su env binary node port) = Some (Ok report)"
    using assms by (simp add: test_egress_scatter_def)
  then obtain p where p: "Testbed_spawn su env binary node port = Some (Ok p)"
    by (auto simp: scatter_on_def split: option.splits sum.splits)
  note spawned = Testbed_spawn_Ok[OF p]
  from on p spawned(1) have "scatter_on env cfg (Some (Ok port)) = Some (Ok report)" by simp
  from scatter_on_Ok[OF this] port spawned(2,3) show ?thesis by blast
qed

text \<open>Claim C19: an egress trial ends, and its report is that of the checks over the configuration of its node.  When at
  least a pause lies between two looks at the listener, at least one worker is allowed, the core opens its
  listener or exits before the deadline or closes its error output at all, and the connections keep time and are
  not interrupted by signals for ever, however long they go on sending, the trial of every node returns a report or an error.
  A report comes only when the node's own configuration for the port in use was compiled, the bytes it was
  serialised to passed the binary's check, that configuration was written, the core was launched and its listener
  accepted; its checks are then exactly what the stream checks of the sampled targets return, in that order, and its
  counts and verdict are the fold over them.\<close>

theorem egress_trial_ends:
  assumes "trial_ok env" "0 < sc_max_concurrency cfg"
  shows "\<exists>r. test_egress_scatter su env binary node cfg = Some r \<and>
    (\<forall>report. r = Ok report \<longrightarrow> server_ok node \<and> (\<exists>port config. te_port env = Ok port \<and> compile_testbed_config su node port = Ok config \<and>
       checked_testbed env config \<and>
       map Some (sr_checks report) = map (trial_check env port (sc_timeout cfg)) (sample_targets (te_seed env) cfg) \<and>
       report = fold_report (sample_targets (te_seed env) cfg) (sc_min_verified cfg) (sr_checks report)))"
  using test_egress_scatter_ends[OF assms, of su binary node] test_egress_scatter_Ok[of su env binary node cfg] by auto

text \<open>A trial in which everything works and the listener accepts at the third look.\<close>

definition sample_trial :: trial_env where
  "sample_trial = \<lparr>te_port = Ok 40000, te_to_vec = (\<lambda>j. Ok ''j''), te_to_vec_pretty = (\<lambda>j. Ok ''j''), te_check_file = Ok (),
     te_check = (\<lambda>b. Ok \<lparr>bo_success = True, bo_stdout = [], bo_stderr = []\<rparr>), te_create_dir = Ok (), te_write = (\<lambda>b. Ok ()),
     te_spawn = Ok (), te_started = 5, te_polls = (\<lambda>n. \<lparr>pl_accepts = (n = 2), pl_exited = Ok None, pl_now = 5 + n * ready_pause\<rparr>),
     te_stderr_exited = [], te_stderr_running = None, te_seed = 1,
     te_conn = (\<lambda>port t. (sample_dial [], sample_wire)), te_dns = (\<lambda>h. True), te_connect = any_session, te_roots = [''root'']\<rparr>"

lemma sample_trial_ok: "trial_ok sample_trial"
proof -
  have "settled sample_trial 2" by (simp add: settled_def sample_trial_def)
  moreover have "\<forall>m < 2. pl_now (te_polls sample_trial m) \<le> te_started sample_trial + ready_timeout"
    by (auto simp: sample_trial_def ready_pause_def ready_timeout_def from_secs_def from_millis_def)
  ultimately have "settles_in_time sample_trial" by (auto simp: settles_in_time_def)
  then show ?thesis using sample_wire_live by (simp add: trial_ok_def clock_ok_def sample_trial_def)
qed

lemma sample_trial_succeeds:
  assumes "test_egress_scatter su sample_trial binary (sample_node l ''a.example'' 443) ScatterConfig_default = Some r"
  shows "is_ok r"
proof -
  have "server_ok (sample_node l ''a.example'' 443)"
    by (simp add: server_ok_def endpoint_parts_def sample_node_def Let_def ws1_def ws2_def)
  then obtain config where c: "compile_testbed_config su (sample_node l ''a.example'' 443) 40000 = Ok config"
    using compile_outbound_Ok_iff[of su "sample_node l ''a.example'' 443"] by (auto simp: compile_testbed_config_def)
  have "wait_until_ready sample_trial = Some (Ok ())"
  proof -
    have fuel: "ready_fuel = Suc (Suc (Suc 99))" by (simp add: ready_fuel_def)
    have "\<not> settled sample_trial n \<and> pl_now (te_polls sample_trial n) \<le> te_started sample_trial + ready_timeout" if "n < 2" for n
      using that by (auto simp: settled_def sample_trial_def ready_pause_def ready_timeout_def from_secs_def from_millis_def)
    then have again: "ready_loop sample_trial (te_started sample_trial + ready_timeout) (Suc fuel) n =
        ready_loop sample_trial (te_started sample_trial + ready_timeout) fuel (n + 1)" if "n < 2" for n fuel
      using that ready_loop_again by blast
    have "wait_until_ready sample_trial = ready_loop sample_trial (te_started sample_trial + ready_timeout) (Suc 99) (0 + 1 + 1)"
      unfolding wait_until_ready_def fuel by (subst again, simp, subst again, simp, rule refl)
    also have "\<dots> = Some (Ok ())" by (subst ready_loop.simps) (simp add: Let_def sample_trial_def)
    finally show ?thesis .
  qed
  then have "spawn_with_config sample_trial binary config 40000 = Some (Ok 40000)"
    by (simp add: spawn_with_config_def adapter_validate_config_def sample_trial_def)
  with c assms show ?thesis
    by (auto simp: test_egress_scatter_def Testbed_spawn_def scatter_on_def Let_def sample_trial_def split: if_splits)
qed

theorem egress_trial_ends_witness:
  "\<exists>report port config. test_egress_scatter (\<lambda>u. ''u'') sample_trial ''sb'' (sample_node ''a'' ''a.example'' 443) ScatterConfig_default
       = Some (Ok report) \<and>
     compile_testbed_config (\<lambda>u. ''u'') (sample_node ''a'' ''a.example'' 443) port = Ok config \<and> checked_testbed sample_trial config \<and>
     map Some (sr_checks report) =
       map (trial_check sample_trial port (sc_timeout ScatterConfig_default)) (sample_targets (te_seed sample_trial) ScatterConfig_default)"
proof -
  have "0 < sc_max_concurrency ScatterConfig_default" by (simp add: ScatterConfig_default_def)
  note ends = egress_trial_ends [OF sample_trial_ok this, of "\<lambda>u. ''u''" "''sb''" "sample_node ''a'' ''a.example'' 443"]
  then obtain r where r: "test_egress_scatter (\<lambda>u. ''u'') sample_trial ''sb'' (sample_node ''a'' ''a.example'' 443) ScatterConfig_default = Some r"
    by blast
  have "is_ok r" using r sample_trial_succeeds by simp
  then obtain report where "r = Ok report" by (auto simp: is_ok_iff)
  with ends r show ?thesis by auto
qed

section \<open>One round trip\<close>

definition EGRESS_TARGET :: string where "EGRESS_TARGET = ''www.gstatic.com:80''"

definition ephemeral_loopback_port :: "'l res \<Rightarrow> ('l \<Rightarrow> u16 res) \<Rightarrow> u16 res" where
  "ephemeral_loopback_port bind local_port = try_then bind (\<lambda>listener. local_port listener)"

text \<open>\<open>d\<close> is the dial of the round trip on the testbed's port.\<close>

definition test_egress ::
    "(uuid \<Rightarrow> string) \<Rightarrow> trial_env \<Rightarrow> (u16 \<Rightarrow> dial) \<Rightarrow> string \<Rightarrow> canonical_node \<Rightarrow> duration \<Rightarrow> egress_report res option" where
  "test_egress show_uuid env d binary node timeout =
     (case te_port env of
        Inl e \<Rightarrow> Some (Err e)
      | Inr port \<Rightarrow>
          map_option (\<lambda>bed. try_then bed (\<lambda>port. generate_204_over_socks5 EGRESS_TARGET timeout (d port)))
            (Testbed_spawn show_uuid env binary node port))"

section \<open>The core of a trial\<close>

text \<open>
  A testbed owns its core; when the value goes out of scope, at the end of a trial and on the way out of a failed wait, the core is
  killed and reaped.
\<close>

record core_child =
  ch_running :: bool
  ch_reaped :: bool

definition Testbed_drop :: "core_child \<Rightarrow> core_child" where
  "Testbed_drop child = (child\<lparr>ch_running := False\<rparr>)\<lparr>ch_reaped := True\<rparr>"

definition core_started :: "(uuid \<Rightarrow> string) \<Rightarrow> trial_env \<Rightarrow> string \<Rightarrow> canonical_node \<Rightarrow> u16 \<Rightarrow> bool" where
  "core_started show_uuid env binary node port =
     (case compile_testbed_config show_uuid node port of
        Inl e \<Rightarrow> False
      | Inr config \<Rightarrow>
          is_ok (try_then (te_to_vec env config) (adapter_validate_config (te_check_file env) (te_check env) binary)) \<and>
          is_ok (try_then (te_create_dir env) (\<lambda>_. try_then (te_to_vec_pretty env config) (te_write env))) \<and>
          is_ok (te_spawn env))"

definition child_after :: "(uuid \<Rightarrow> string) \<Rightarrow> trial_env \<Rightarrow> string \<Rightarrow> canonical_node \<Rightarrow> u16 \<Rightarrow> scatter_config \<Rightarrow> core_child option" where
  "child_after show_uuid env binary node port cfg =
     (if core_started show_uuid env binary node port
      then Some (case test_egress_scatter show_uuid env binary node cfg of
        None \<Rightarrow> \<lparr>ch_running = True, ch_reaped = False\<rparr>
      | Some r \<Rightarrow> Testbed_drop \<lparr>ch_running = True, ch_reaped = False\<rparr>)
      else None)"

text \<open>No core outlives a trial that ends; a trial that a silent core blocks keeps its core.\<close>

lemma no_core_outlives_trial:
  assumes "trial_ok env" "0 < sc_max_concurrency cfg"
  shows "child_after su env binary node port cfg \<in> {None, Some \<lparr>ch_running = False, ch_reaped = True\<rparr>}"
  using test_egress_scatter_ends[OF assms, of su binary node] by (auto simp: child_after_def Testbed_drop_def)

lemma blocked_trial_keeps_core:
  assumes "te_port env = Ok port" and "core_started su env binary node port"
    and "te_stderr_running env = None" and "\<not> settles_in_time env"
  shows "child_after su env binary node port cfg = Some \<lparr>ch_running = True, ch_reaped = False\<rparr>"
proof -
  obtain config where c: "compile_testbed_config su node port = Inr config" using assms(2) by (auto simp: core_started_def split: sum.splits)
  let ?check = "\<lambda>bytes. adapter_validate_config (te_check_file env) (te_check env) binary bytes"
  have "wait_until_ready env = None"
    using silent_core_blocks_trial[OF assms(3,4)] by (simp add: wait_until_ready_def)
  moreover have "is_ok (try_then (te_to_vec env config) ?check)"
    "is_ok (try_then (te_create_dir env) (\<lambda>_. try_then (te_to_vec_pretty env config) (te_write env)))" "is_ok (te_spawn env)"
    using assms(2) c by (simp_all add: core_started_def)
  moreover from this(1) have "is_ok (try_then (te_to_vec env config) (\<lambda>bytes. map_err (\<lambda>_. ''testbed config rejected by '' @ binary) (?check bytes)))"
    by (auto simp: is_ok_iff)
  ultimately have "spawn_with_config env binary config port = None"
    by (auto simp: spawn_with_config_def is_ok_iff simp del: try_then_Inr_iff)
  with assms(1,2) c show ?thesis
    by (simp add: child_after_def test_egress_scatter_def Testbed_spawn_def scatter_on_def)
qed

end
