(* ===== verification/Shortlist.thy ===== *)
theory Shortlist
  imports Testbed Probe Auto_Select
begin

text \<open>
  Scoring and shortlisting, \<open>crates/controller/src/proxy_controller.rs\<close> lines 402 to 674: the trials of
  candidates, their scores and the order of selection, the cheap sweep and the two-tier shortlist.
  The trial of the candidate in slot \<open>i\<close> meets the environment \<open>trials i\<close>; a result \<open>None\<close> is a
  panic or a trial that does not end.
\<close>

section \<open>Trials and scores\<close>

fun all_some :: "'a option list \<Rightarrow> 'a list option" where
  "all_some [] = Some []"
| "all_some (x # xs) = Option.bind x (\<lambda>y. map_option ((#) y) (all_some xs))"

definition run_egress_trials ::
    "(uuid \<Rightarrow> string) \<Rightarrow> (nat \<Rightarrow> trial_env) \<Rightarrow> string \<Rightarrow> canonical_node list \<Rightarrow> scatter_config \<Rightarrow> scatter_report option list option" where
  "run_egress_trials su trials binary candidates cfg =
     all_some (map (\<lambda>(i, node). map_option ok (test_egress_scatter su (trials i) binary node cfg)) (enumerate 0 candidates))"

definition median_at :: "nat list \<Rightarrow> nat option" where
  "median_at xs = vec_get (sort xs) (length xs div 2)"

definition abs_diff :: "nat \<Rightarrow> nat \<Rightarrow> nat" where
  "abs_diff a b = (if a < b then b - a else a - b)"

text \<open>\<open>u64::try_from(x).unwrap_or(u64::MAX)\<close>.\<close>

definition to_u64_sat :: "nat \<Rightarrow> nat" where
  "to_u64_sat x = (if x < 2 ^ 64 then x else 2 ^ 64 - 1)"

definition verified_latencies :: "scatter_report \<Rightarrow> nat list" where
  "verified_latencies report = map (\<lambda>c. as_millis (ck_latency c)) (filter ck_verified (sr_checks report))"

definition median_of_verified :: "scatter_report \<Rightarrow> duration option \<times> duration option" where
  "median_of_verified report =
     (let latencies = verified_latencies report in
      case median_at latencies of
        None \<Rightarrow> (None, None)
      | Some median \<Rightarrow>
          (let spread = unwrap_or 0 (median_at (map (\<lambda>v. abs_diff v median) latencies))
           in (Some (from_millis (to_u64_sat median)), Some (from_millis (to_u64_sat spread)))))"

definition score_of :: "nat \<Rightarrow> canonical_node \<Rightarrow> scatter_report option \<Rightarrow> nat \<Rightarrow> candidate_score" where
  "score_of index node report min_verified =
     \<lparr>cs_node_index = index, cs_label = nm_label (cn_meta node), cs_sub_id = nm_sub_id (cn_meta node),
      cs_verified = (case report of None \<Rightarrow> 0 | Some r \<Rightarrow> sr_verified r),
      cs_total = (case report of None \<Rightarrow> 0 | Some r \<Rightarrow> sr_total r),
      cs_passes = (case report of None \<Rightarrow> False | Some r \<Rightarrow> min_verified \<le> sr_quorum_verified r),
      cs_median_latency = Option.bind report (\<lambda>r. fst (median_of_verified r)),
      cs_latency_spread = Option.bind report (\<lambda>r. snd (median_of_verified r))\<rparr>"

definition report_at :: "scatter_report option list \<Rightarrow> nat \<Rightarrow> scatter_report option" where
  "report_at reports i = Option.bind (vec_get reports i) (\<lambda>r. r)"

definition rank_candidates :: "canonical_node list \<Rightarrow> scatter_report option list \<Rightarrow> nat \<Rightarrow> candidate_score list" where
  "rank_candidates candidates reports min_verified =
     map (\<lambda>(index, node). score_of index node (report_at reports index) min_verified) (enumerate 0 candidates)"

definition DURATION_MAX :: duration where
  "DURATION_MAX = (2 ^ 64 - 1) * 10 ^ 9 + 999999999"

definition score_cmp :: "candidate_score \<Rightarrow> candidate_score \<Rightarrow> ordering" where
  "score_cmp a b =
     then_with (then_with (then_with (cmp (cs_passes b) (cs_passes a))
       (cmp (unwrap_or DURATION_MAX (cs_median_latency a)) (unwrap_or DURATION_MAX (cs_median_latency b))))
       (cmp (cs_verified b) (cs_verified a)))
       (cmp (cs_node_index a) (cs_node_index b))"

definition sort_ranked :: "candidate_score list \<Rightarrow> candidate_score list" where
  "sort_ranked ranked = sort_by score_cmp ranked"

definition score_egress_candidates ::
    "(uuid \<Rightarrow> string) \<Rightarrow> (nat \<Rightarrow> trial_env) \<Rightarrow> string \<Rightarrow> canonical_node list \<Rightarrow> scatter_config \<Rightarrow> nat \<Rightarrow> candidate_score list option" where
  "score_egress_candidates su trials binary candidates cfg limit =
     map_option (\<lambda>reports. take limit (sort_ranked (rank_candidates candidates reports (sc_min_verified cfg))))
       (run_egress_trials su trials binary candidates cfg)"

section \<open>The two tiers\<close>

record preflight_config =
  pf_concurrency :: nat
  pf_connect_timeout :: duration
  pf_finalists :: nat

definition PreflightConfig_default :: preflight_config where
  "PreflightConfig_default = \<lparr>pf_concurrency = 512, pf_connect_timeout = from_millis 800, pf_finalists = 8\<rparr>"

record cheap_outcome =
  co_latency :: "u16 option"
  co_dead :: bool

text \<open>What a sweep meets: whether the runtime can be built, the network and the panics of each slot.\<close>

record sweep_env =
  sw_runtime :: bool
  sw_nets :: "nat \<Rightarrow> probe_net"
  sw_panics :: "nat \<Rightarrow> bool"

definition cheap_sweep :: "sweep_env \<Rightarrow> canonical_node list \<Rightarrow> preflight_config \<Rightarrow> cheap_outcome list" where
  "cheap_sweep env candidates preflight =
     (if \<not> sw_runtime env then []
      else (let engine = ProbeEngine_new (ProbeConfig_default\<lparr>pc_concurrency_limit := max (pf_concurrency preflight) 1,
                   pc_connect_timeout := pf_connect_timeout preflight\<rparr>)
            in map (\<lambda>x. \<lparr>co_latency = po_latency_ms x, co_dead = is_dead x\<rparr>)
                 (probe_batch engine (sw_nets env) (sw_panics env) candidates L4Ping)))"

definition sweep_key :: "cheap_outcome list \<Rightarrow> nat \<Rightarrow> u16" where
  "sweep_key outcomes i = unwrap_or (- 1) (co_latency (outcomes ! i))"

definition select_finalists :: "cheap_outcome list \<Rightarrow> nat \<Rightarrow> nat list" where
  "select_finalists outcomes finalists =
     (let order = filter (\<lambda>i. \<not> co_dead (outcomes ! i)) [0..<length outcomes]
      in sort (take finalists (sort_by (\<lambda>a b. cmp (sweep_key outcomes a) (sweep_key outcomes b)) order)))"

definition tiered_shortlist ::
    "(uuid \<Rightarrow> string) \<Rightarrow> sweep_env \<Rightarrow> (nat \<Rightarrow> trial_env) \<Rightarrow> string \<Rightarrow> canonical_node list \<Rightarrow> preflight_config \<Rightarrow> scatter_config \<Rightarrow>
      nat \<Rightarrow> candidate_score list option" where
  "tiered_shortlist su sweep trials binary candidates preflight heavy limit =
     (if candidates = [] then Some []
      else (let finalists = select_finalists (cheap_sweep sweep candidates preflight) (pf_finalists preflight) in
            if finalists = [] then Some []
            else (case all_some (map (vec_get candidates) finalists) of
                    None \<Rightarrow> None
                  | Some finalist_nodes \<Rightarrow>
                      map_option (\<lambda>reports. take limit (sort_ranked (map (\<lambda>(slot, node_index, node).
                          score_of node_index node (report_at reports slot) (sc_min_verified heavy))
                          (enumerate 0 (zip finalists finalist_nodes)))))
                        (run_egress_trials su trials binary finalist_nodes heavy))))"

section \<open>Lemmas\<close>

interpretation sr: exact_comparator score_cmp
  unfolding score_cmp_def [abs_def] by (intro exact_then exact_key exact_reverse [OF exact_key])

lemma all_some_Some_iff: "all_some xs = Some ys \<longleftrightarrow> xs = map Some ys"
proof (induction xs arbitrary: ys)
  case (Cons x xs)
  show ?case by (cases x; cases ys) (auto simp: Cons.IH)
qed auto

lemma all_some_vec_get:
  assumes "\<forall>i \<in> set is. i < length xs"
  shows "all_some (map (vec_get xs) is) = Some (map ((!) xs) is)"
  using assms by (auto simp: all_some_Some_iff vec_get_def)

lemma run_egress_trials_length: "run_egress_trials su trials binary nodes cfg = Some rs \<Longrightarrow> length rs = length nodes"
  by (auto simp: run_egress_trials_def all_some_Some_iff dest!: arg_cong [of _ _ length])

lemma run_egress_trials_nth:
  assumes "run_egress_trials su trials binary nodes cfg = Some rs" "i < length nodes"
  shows "\<exists>r. test_egress_scatter su (trials i) binary (nodes ! i) cfg = Some r \<and> rs ! i = ok r"
proof -
  have "map (\<lambda>(i, node). map_option ok (test_egress_scatter su (trials i) binary node cfg)) (enumerate 0 nodes) ! i = map Some rs ! i"
    using assms(1) by (simp add: run_egress_trials_def all_some_Some_iff)
  thus ?thesis using assms run_egress_trials_length [OF assms(1)] by (auto simp: nth_enumerate_eq)
qed

definition alive_slots :: "cheap_outcome list \<Rightarrow> nat list" where
  "alive_slots outcomes = filter (\<lambda>i. \<not> co_dead (outcomes ! i)) [0..<length outcomes]"

definition by_key :: "cheap_outcome list \<Rightarrow> nat list" where
  "by_key outcomes = sort_by (\<lambda>a b. cmp (sweep_key outcomes a) (sweep_key outcomes b)) (alive_slots outcomes)"

lemma select_finalists_eq: "select_finalists outcomes n = sort (take n (by_key outcomes))"
  by (simp add: select_finalists_def by_key_def alive_slots_def Let_def)

lemma by_key_props [simp]:
  "distinct (by_key outcomes)" "set (by_key outcomes) = set (alive_slots outcomes)"
  "length (by_key outcomes) = length (alive_slots outcomes)"
proof -
  have m: "mset (by_key outcomes) = mset (alive_slots outcomes)" by (simp add: by_key_def)
  have "distinct (alive_slots outcomes)" by (simp add: alive_slots_def)
  thus "distinct (by_key outcomes)" using m mset_eq_imp_distinct_iff by blast
  show "set (by_key outcomes) = set (alive_slots outcomes)" using m by (rule mset_eq_setD)
  show "length (by_key outcomes) = length (alive_slots outcomes)" using m by (rule mset_eq_length)
qed

interpretation key: comparator "\<lambda>a b. cmp (sweep_key outcomes a) (sweep_key outcomes b)" for outcomes
  by (rule comparator_key)

lemma alive_slots_bound: "i \<in> set (alive_slots outcomes) \<longleftrightarrow> i < length outcomes \<and> \<not> co_dead (outcomes ! i)"
  by (auto simp: alive_slots_def)

lemma finalists_bound: "i \<in> set (select_finalists outcomes n) \<Longrightarrow> i < length outcomes"
  by (auto simp: select_finalists_eq dest!: in_set_takeD simp: alive_slots_bound)

lemma distinct_finalists: "distinct (select_finalists outcomes n)"
  by (simp add: select_finalists_eq)

lemma cheap_sweep_length: "length (cheap_sweep env nodes pf) \<le> length nodes"
  by (simp add: cheap_sweep_def probe_batch_def Let_def) (metis length_filter_le length_enumerate)

text \<open>The finalists are the fastest live slots.  \<open>select_finalists\<close> returns, in increasing order,
  as many slots as it may of those that are not proven dead, and none that it leaves out was
  measured faster than one it takes; slots without a latency count as slowest, never as dead.\<close>

theorem finalists_are_fastest:
  "let fs = select_finalists outcomes n; alive = {i. i < length outcomes \<and> \<not> co_dead (outcomes ! i)} in
   sorted fs \<and> distinct fs \<and> set fs \<subseteq> alive \<and> length fs = min n (card alive) \<and>
   (\<forall>i \<in> set fs. \<forall>j \<in> alive - set fs. sweep_key outcomes i \<le> sweep_key outcomes j)"
proof -
  let ?fs = "select_finalists outcomes n" and ?alive = "{i. i < length outcomes \<and> \<not> co_dead (outcomes ! i)}"
  have alive: "?alive = set (alive_slots outcomes)" using alive_slots_bound by blast
  have "distinct (alive_slots outcomes)" by (simp add: alive_slots_def)
  hence card: "card ?alive = length (alive_slots outcomes)" by (simp add: alive distinct_card)
  have fs: "set ?fs = set (take n (by_key outcomes))" by (simp add: select_finalists_eq)
  have "sweep_key outcomes i \<le> sweep_key outcomes j" if "i \<in> set ?fs" "j \<in> ?alive - set ?fs" for i j
  proof -
    have "j \<in> set (take n (by_key outcomes) @ drop n (by_key outcomes))" using that alive by simp
    hence "j \<in> set (drop n (by_key outcomes))" using that(2) fs by (auto simp del: append_take_drop_id)
    hence "cmp (sweep_key outcomes i) (sweep_key outcomes j) \<noteq> Greater"
      using key.sort_by_take_least that(1) fs unfolding by_key_def by blast
    thus ?thesis by (auto simp: cmp_def split: if_splits)
  qed
  moreover have "set ?fs \<subseteq> ?alive" using fs alive by (auto dest: in_set_takeD)
  moreover have "length ?fs = min n (card ?alive)" by (simp add: select_finalists_eq card min.commute)
  moreover have "sorted ?fs" "distinct ?fs" by (simp_all add: select_finalists_eq)
  ultimately show ?thesis by (simp add: Let_def)
qed

definition sample_outcomes :: "cheap_outcome list" where
  "sample_outcomes = [\<lparr>co_latency = Some 90, co_dead = False\<rparr>, \<lparr>co_latency = None, co_dead = True\<rparr>,
     \<lparr>co_latency = None, co_dead = False\<rparr>, \<lparr>co_latency = Some 7, co_dead = False\<rparr>]"

theorem finalists_are_fastest_witness:
  "select_finalists sample_outcomes 2 = [0, 3] \<and> sweep_key sample_outcomes 0 \<le> sweep_key sample_outcomes 2"
proof -
  have fs: "select_finalists sample_outcomes 2 = [0, 3]"
    by (simp add: select_finalists_def sample_outcomes_def sweep_key_def cmp_def Let_def upt_conv_Cons)
  have "2 \<in> {i. i < length sample_outcomes \<and> \<not> co_dead (sample_outcomes ! i)} - set (select_finalists sample_outcomes 2)"
    unfolding fs by (simp add: sample_outcomes_def)
  thus ?thesis using finalists_are_fastest [of sample_outcomes 2] fs by (auto simp: Let_def)
qed

text \<open>What the two tiers compute, once the index lookups are resolved.\<close>

definition heavy_scores ::
    "canonical_node list \<Rightarrow> nat list \<Rightarrow> scatter_report option list \<Rightarrow> nat \<Rightarrow> candidate_score list" where
  "heavy_scores candidates finalists reports m =
     map (\<lambda>slot. score_of (finalists ! slot) (candidates ! (finalists ! slot)) (report_at reports slot) m) [0..<length finalists]"

lemma enumerate_zip_scores:
  "map (\<lambda>(slot, i, node). score_of i node (report_at reports slot) m) (enumerate 0 (zip fs (map ((!) candidates) fs))) =
     heavy_scores candidates fs reports m"
  by (rule nth_equalityI) (simp_all add: heavy_scores_def nth_enumerate_eq)

lemma tiered_shortlist_eq:
  "tiered_shortlist su sweep trials binary candidates pf heavy limit =
     (let fs = select_finalists (cheap_sweep sweep candidates pf) (pf_finalists pf) in
      if candidates = [] \<or> fs = [] then Some []
      else map_option (\<lambda>reports. take limit (sort_ranked (heavy_scores candidates fs reports (sc_min_verified heavy))))
        (run_egress_trials su trials binary (map ((!) candidates) fs) heavy))"
proof -
  let ?fs = "select_finalists (cheap_sweep sweep candidates pf) (pf_finalists pf)"
  have "\<forall>i \<in> set ?fs. i < length candidates"
    using finalists_bound cheap_sweep_length by (meson order_less_le_trans)
  hence "all_some (map (vec_get candidates) ?fs) = Some (map ((!) candidates) ?fs)" by (rule all_some_vec_get)
  thus ?thesis by (simp add: tiered_shortlist_def Let_def enumerate_zip_scores)
qed

lemma tiered_score_cases:
  assumes "tiered_shortlist su sweep trials binary candidates pf heavy limit = Some ranked" "s \<in> set ranked"
  obtains slot reports fs where "fs = select_finalists (cheap_sweep sweep candidates pf) (pf_finalists pf)"
    "run_egress_trials su trials binary (map ((!) candidates) fs) heavy = Some reports" "slot < length fs"
    "fs ! slot < length candidates"
    "s = score_of (fs ! slot) (candidates ! (fs ! slot)) (report_at reports slot) (sc_min_verified heavy)"
proof -
  define fs where "fs = select_finalists (cheap_sweep sweep candidates pf) (pf_finalists pf)"
  obtain reports where r: "run_egress_trials su trials binary (map ((!) candidates) fs) heavy = Some reports"
    "s \<in> set (heavy_scores candidates fs reports (sc_min_verified heavy))"
    using assms unfolding tiered_shortlist_eq
    by (auto simp: Let_def fs_def sort_ranked_def split: if_splits dest!: in_set_takeD)
  then obtain slot where slot: "slot < length fs"
    "s = score_of (fs ! slot) (candidates ! (fs ! slot)) (report_at reports slot) (sc_min_verified heavy)"
    by (auto simp: heavy_scores_def)
  have "fs ! slot < length candidates"
    using slot(1) finalists_bound cheap_sweep_length unfolding fs_def by (meson nth_mem order_less_le_trans)
  thus ?thesis using that [OF fs_def r(1) slot(1) _ slot(2)] by blast
qed

lemma tiered_in_range:
  "tiered_shortlist su sweep trials binary candidates pf heavy limit = Some ranked \<Longrightarrow> s \<in> set ranked \<Longrightarrow>
     cs_node_index s < length candidates"
  by (erule tiered_score_cases) (auto simp: score_of_def)

text \<open>Every score of the two-tier shortlist is about a node of the candidate list, under its own index,
  label and subscription, and a score that passes rests on a trial of that very node that returned a report with
  the quorum; the list is in selection order and no longer than the limit and the number of finalists.\<close>

theorem shortlist_sound:
  assumes "tiered_shortlist su sweep trials binary candidates pf heavy limit = Some ranked"
  shows "length ranked \<le> min limit (pf_finalists pf) \<and> sorted_wrt (\<lambda>a b. score_cmp a b \<noteq> Greater) ranked \<and>
    (\<forall>s \<in> set ranked. \<exists>node. vec_get candidates (cs_node_index s) = Some node \<and> cs_label s = nm_label (cn_meta node) \<and>
       cs_sub_id s = nm_sub_id (cn_meta node) \<and>
       (cs_passes s \<longrightarrow> (\<exists>env report. test_egress_scatter su env binary node heavy = Some (Ok report) \<and>
          sc_min_verified heavy \<le> sr_quorum_verified report \<and> cs_median_latency s = fst (median_of_verified report))))"
proof (intro conjI ballI)
  show "length ranked \<le> min limit (pf_finalists pf)"
    using assms by (auto simp: tiered_shortlist_eq Let_def sort_ranked_def heavy_scores_def select_finalists_eq split: if_splits)
  have "sorted_wrt (\<lambda>a b. score_cmp a b \<noteq> Greater) (take limit (sort_ranked xs))" for xs
    unfolding sort_ranked_def by (intro sorted_wrt_take sr.sorted_sort_by)
  thus "sorted_wrt (\<lambda>a b. score_cmp a b \<noteq> Greater) ranked"
    using assms by (auto simp: tiered_shortlist_eq Let_def split: if_splits)
next
  fix s assume "s \<in> set ranked"
  with assms obtain slot reports fs where *: "run_egress_trials su trials binary (map ((!) candidates) fs) heavy = Some reports"
    "slot < length fs" "fs ! slot < length candidates"
    "s = score_of (fs ! slot) (candidates ! (fs ! slot)) (report_at reports slot) (sc_min_verified heavy)"
    by (rule tiered_score_cases)
  obtain r where r: "test_egress_scatter su (trials slot) binary (candidates ! (fs ! slot)) heavy = Some r" "reports ! slot = ok r"
    using run_egress_trials_nth [OF *(1), of slot] *(2) by auto
  have rep: "report_at reports slot = ok r"
    using *(2) run_egress_trials_length [OF *(1)] r(2) by (simp add: report_at_def vec_get_def)
  show "\<exists>node. vec_get candidates (cs_node_index s) = Some node \<and> cs_label s = nm_label (cn_meta node) \<and>
       cs_sub_id s = nm_sub_id (cn_meta node) \<and>
       (cs_passes s \<longrightarrow> (\<exists>env report. test_egress_scatter su env binary node heavy = Some (Ok report) \<and>
          sc_min_verified heavy \<le> sr_quorum_verified report \<and> cs_median_latency s = fst (median_of_verified report)))"
    using *(3,4) r(1) rep by (cases r) (auto simp: score_of_def vec_get_def)
qed

text \<open>Claim C18: the cheap tier only saves work.  When the sweep runs to its end, proves no candidate dead and there are no more
  candidates than finalists, the two-tier shortlist is the shortlist of a full trial of every candidate.\<close>

theorem tiered_equals_full:
  assumes "sw_runtime sweep" "\<forall>i. \<not> sw_panics sweep i" "\<forall>x \<in> set (cheap_sweep sweep candidates pf). \<not> co_dead x"
    and "length candidates \<le> pf_finalists pf"
  shows "tiered_shortlist su sweep trials binary candidates pf heavy limit =
    score_egress_candidates su trials binary candidates heavy limit"
proof -
  let ?out = "cheap_sweep sweep candidates pf"
  have len: "length ?out = length candidates"
    using assms(1,2) by (simp add: cheap_sweep_def probe_batch_length Let_def)
  have alive: "alive_slots ?out = [0..<length candidates]"
    using assms(3) by (simp add: alive_slots_def len)
  have "mset (by_key ?out) = mset [0..<length candidates]" by (simp add: by_key_def alive)
  hence "select_finalists ?out (pf_finalists pf) = [0..<length candidates]"
    using assms(4) alive by (simp add: select_finalists_eq properties_for_sort)
  moreover have "map ((!) candidates) [0..<length candidates] = candidates" by (rule map_nth)
  moreover have "heavy_scores candidates [0..<length candidates] reports m = rank_candidates candidates reports m" for reports m
    by (rule nth_equalityI) (simp_all add: heavy_scores_def rank_candidates_def nth_enumerate_eq)
  ultimately show ?thesis
    by (cases "candidates = []")
       (simp_all add: tiered_shortlist_eq score_egress_candidates_def run_egress_trials_def rank_candidates_def sort_ranked_def
         Let_def del: upt_Suc)
qed

text \<open>When no runtime can be built for the sweep, the shortlist is empty as if every node were dead.\<close>

lemma no_runtime_looks_dead:
  "\<not> sw_runtime sweep \<Longrightarrow> tiered_shortlist su sweep trials binary candidates pf heavy limit = Some []"
  by (simp add: tiered_shortlist_eq cheap_sweep_def select_finalists_def)

lemma run_egress_trials_ends:
  assumes "\<forall>i. trial_ok (trials i)" "0 < sc_max_concurrency cfg"
  shows "\<exists>rs. run_egress_trials su trials binary nodes cfg = Some rs"
proof -
  have "\<forall>p. \<exists>r. test_egress_scatter su (trials (fst p)) binary (snd p) cfg = Some r"
    using assms test_egress_scatter_ends by blast
  then obtain f where "\<forall>p. test_egress_scatter su (trials (fst p)) binary (snd p) cfg = Some (f p)" by metis
  hence "run_egress_trials su trials binary nodes cfg = Some (map (\<lambda>p. ok (f p)) (enumerate 0 nodes))"
    by (simp add: run_egress_trials_def all_some_Some_iff split_beta)
  thus ?thesis ..
qed

lemma tiered_shortlist_ends:
  assumes "\<forall>i. trial_ok (trials i)" "0 < sc_max_concurrency heavy"
  shows "\<exists>ranked. tiered_shortlist su sweep trials binary candidates pf heavy limit = Some ranked"
  using run_egress_trials_ends [OF assms] by (simp add: tiered_shortlist_eq Let_def)

text \<open>A sweep over one live node and a trial of it.\<close>

definition sample_sweep :: sweep_env where
  "sample_sweep = \<lparr>sw_runtime = True, sw_nets = (\<lambda>i. sample_net), sw_panics = (\<lambda>i. False)\<rparr>"

abbreviation sample_tiered :: "candidate_score list option" where
  "sample_tiered \<equiv> tiered_shortlist (\<lambda>u. ''u'') sample_sweep (\<lambda>i. sample_trial) ''sb'' [sample_node ''a'' ''a.example'' 443]
     PreflightConfig_default ScatterConfig_default 8"

lemma sample_swept: "cheap_sweep sample_sweep [sample_node ''a'' ''a.example'' 443] PreflightConfig_default =
    [\<lparr>co_latency = Some 3, co_dead = False\<rparr>]"
  by (simp add: cheap_sweep_def sample_sweep_def probe_batch_def probe_def build_outcome_def ping_def sample_node_def
      sample_vless_def sample_net_def probe_addr_def tcp_connect_def in_time_def ProbeEngine_new_def ProbeConfig_default_def
      PreflightConfig_default_def from_millis_def reachable_def unreachable_def is_dead_def Let_def ms_elapsed_def as_millis_def)

lemma sample_clock: "trial_ok sample_trial" "0 < sc_max_concurrency ScatterConfig_default"
  by (simp_all add: sample_trial_ok ScatterConfig_default_def)

theorem shortlist_sound_witness:
  "\<exists>ranked. sample_tiered = Some ranked \<and> length ranked = 1 \<and>
    (\<forall>s \<in> set ranked. vec_get [sample_node ''a'' ''a.example'' 443] (cs_node_index s) \<noteq> None)"
proof -
  obtain ranked where r: "sample_tiered = Some ranked"
    using tiered_shortlist_ends [of "\<lambda>i. sample_trial", OF _ sample_clock(2)] sample_clock(1) by blast
  have "select_finalists [\<lparr>co_latency = Some 3, co_dead = False\<rparr>] 8 = [0]"
    by (simp add: select_finalists_def Let_def)
  moreover have "pf_finalists PreflightConfig_default = 8" by (simp add: PreflightConfig_default_def)
  ultimately have "length ranked = 1" using r
    by (auto simp: tiered_shortlist_eq sample_swept heavy_scores_def sort_ranked_def)
  thus ?thesis using r shortlist_sound [OF r] by auto
qed

theorem tiered_equals_full_witness:
  "sample_tiered = score_egress_candidates (\<lambda>u. ''u'') (\<lambda>i. sample_trial) ''sb'' [sample_node ''a'' ''a.example'' 443] ScatterConfig_default 8"
  by (rule tiered_equals_full) (simp_all add: sample_swept, simp_all add: sample_sweep_def PreflightConfig_default_def)

end
