(* ===== verification/Supervisor.thy ===== *)
theory Supervisor
  imports Rust_Utf8
begin

text \<open>
  The supervisor of the core process, \<open>crates/adapter/src/supervisor.rs\<close>: \<open>validate_config\<close>, \<open>start\<close>,
  \<open>reload\<close>, \<open>stop\<close> and \<open>apply_config\<close> with its roll back.

  The world of the supervisor is the file at the configuration path and the process table of the
  children that were not waited for; \<open>cw_tick\<close> counts the calls that leave the program.  The sing-box binary and the
  results of the file system calls and of \<open>spawn\<close> are the parameters \<open>core_env\<close>; each takes the tick, so that
  two calls with the same arguments may end differently.

  A core runs beside the program.  Spawning it and sending it \<open>SIGHUP\<close> only mean that it will read its file, some
  time later: before each call the cores that have a read to do may do it, as \<open>ce_reads\<close> says, and find what
  the file holds at that moment, be it a file that is half written.  A process that exited stays in the table until it is
  waited for, and a signal to it succeeds, as \<open>kill(2)\<close> says of zombies.  A write truncates the file before it
  fills it: \<open>ce_torn\<close> is what the file holds in between, and after a write that fails.
\<close>

record core_proc =
  cp_alive :: bool
  cp_starting :: bool
  cp_hup :: bool
  cp_reads :: "string option list"

record core_world =
  cw_file :: "string option"
  cw_procs :: "nat \<rightharpoonup> core_proc"
  cw_tick :: nat

record core_env =
  ce_check :: "nat \<Rightarrow> string \<Rightarrow> string \<Rightarrow> string option \<Rightarrow> (bool \<times> string) res"
  ce_spawn :: "nat \<Rightarrow> string \<Rightarrow> nat res"
  ce_read_ok :: "nat \<Rightarrow> bool"
  ce_write :: "nat \<Rightarrow> unit res"
  ce_torn :: "nat \<Rightarrow> string option"
  ce_os_error :: "nat \<Rightarrow> string"
  ce_reads :: "nat \<Rightarrow> nat \<Rightarrow> nat"

section \<open>Cores\<close>

text \<open>A live core that was started, or was signalled, has yet to read its file.\<close>

definition due :: "core_proc \<Rightarrow> bool" where
  "due p \<longleftrightarrow> cp_alive p \<and> (cp_starting p \<or> cp_hup p)"

definition read_config :: "string option \<Rightarrow> core_proc \<Rightarrow> core_proc" where
  "read_config content p =
     (if \<not> due p then p
      else if cp_starting p then p\<lparr>cp_reads := content # cp_reads p, cp_starting := False\<rparr>
      else p\<lparr>cp_reads := content # cp_reads p, cp_hup := False\<rparr>)"

text \<open>The moment before a call leaves the program: each core makes some of the reads it has to do.\<close>

definition tick :: "core_env \<Rightarrow> core_world \<Rightarrow> core_world" where
  "tick env w = w\<lparr>cw_tick := cw_tick w + 1,
     cw_procs := (\<lambda>pid. map_option (read_config (cw_file w) ^^ ce_reads env (cw_tick w) pid) (cw_procs w pid))\<rparr>"

section \<open>Calls that leave the program\<close>

definition fs_read :: "core_env \<Rightarrow> core_world \<Rightarrow> string option \<times> core_world" where
  "fs_read env w = (if ce_read_ok env (cw_tick w) then cw_file w else None, tick env w)"

definition fs_write :: "core_env \<Rightarrow> string \<Rightarrow> core_world \<Rightarrow> unit res \<times> core_world" where
  "fs_write env bytes w =
     (let torn = tick env ((tick env w)\<lparr>cw_file := ce_torn env (cw_tick w)\<rparr>) in
      case ce_write env (cw_tick w) of
        Inr u \<Rightarrow> (Ok (), torn\<lparr>cw_file := Some bytes\<rparr>)
      | Inl e \<Rightarrow> (Err e, torn))"

text \<open>A signal reaches every child that was not waited for; \<open>SIGHUP\<close> asks a live core to read its file again.\<close>

definition kill_hup :: "core_env \<Rightarrow> nat \<Rightarrow> core_world \<Rightarrow> bool \<times> core_world" where
  "kill_hup env pid w =
     (let w = tick env w in
      case cw_procs w pid of
        None \<Rightarrow> (False, w)
      | Some p \<Rightarrow> (True, if cp_alive p then w\<lparr>cw_procs := (cw_procs w)(pid \<mapsto> p\<lparr>cp_hup := True\<rparr>)\<rparr> else w))"

definition kill_term_wait :: "core_env \<Rightarrow> nat \<Rightarrow> core_world \<Rightarrow> core_world" where
  "kill_term_wait env pid w = (let w = tick env w in w\<lparr>cw_procs := (cw_procs w)(pid := None)\<rparr>)"

section \<open>The supervisor\<close>

record supervisor =
  sv_binary :: string
  sv_config_path :: string
  sv_child :: "nat option"

definition Supervisor_new :: "string \<Rightarrow> string \<Rightarrow> supervisor" where
  "Supervisor_new binary config_path = \<lparr>sv_binary = binary, sv_config_path = config_path, sv_child = None\<rparr>"

definition is_running :: "supervisor \<Rightarrow> bool" where
  "is_running s = (sv_child s \<noteq> None)"

definition Supervisor_validate_config :: "core_env \<Rightarrow> supervisor \<Rightarrow> core_world \<Rightarrow> unit res \<times> core_world" where
  "Supervisor_validate_config env s w =
     (case ce_check env (cw_tick w) (sv_binary s) (sv_config_path s) (cw_file w) of
        Inl e \<Rightarrow> Err (''failed to run `'' @ sv_binary s @ '' check -c '' @ sv_config_path s @ ''`'')
      | Inr (success, stderr) \<Rightarrow>
          if success then Ok ()
          else Err (''sing-box rejected the config: '' @ trim (from_utf8_lossy stderr)), tick env w)"

definition Supervisor_start :: "core_env \<Rightarrow> supervisor \<Rightarrow> core_world \<Rightarrow> unit res \<times> supervisor \<times> core_world" where
  "Supervisor_start env s w =
     (case Supervisor_validate_config env s w of
        (Inl e, w) \<Rightarrow> (Err e, s, w)
      | (Inr u, w) \<Rightarrow>
          (case ce_spawn env (cw_tick w) (sv_binary s) of
             Inl e \<Rightarrow> (Err (''failed to spawn `'' @ sv_binary s @ ''`''), s, tick env w)
           | Inr pid \<Rightarrow> (Ok (), s\<lparr>sv_child := Some pid\<rparr>, (tick env w)\<lparr>cw_procs := (cw_procs (tick env w))(pid \<mapsto>
               \<lparr>cp_alive = True, cp_starting = True, cp_hup = False, cp_reads = []\<rparr>)\<rparr>)))"

definition reload :: "core_env \<Rightarrow> supervisor \<Rightarrow> core_world \<Rightarrow> unit res \<times> core_world" where
  "reload env s w =
     (case Supervisor_validate_config env s w of
        (Inl e, w) \<Rightarrow> (Err e, w)
      | (Inr u, w) \<Rightarrow>
          (case sv_child s of
             None \<Rightarrow> (Err ''core is not running'', w)
           | Some pid \<Rightarrow>
               (case kill_hup env pid w of
                  (True, w) \<Rightarrow> (Ok (), w)
                | (False, w) \<Rightarrow> (Err (''failed to signal SIGHUP to pid '' @ show_nat pid @ '': ''
                                  @ ce_os_error env (cw_tick w)), w))))"

definition Supervisor_stop :: "core_env \<Rightarrow> supervisor \<Rightarrow> core_world \<Rightarrow> unit res \<times> supervisor \<times> core_world" where
  "Supervisor_stop env s w =
     (case sv_child s of
        None \<Rightarrow> (Ok (), s, w)
      | Some pid \<Rightarrow> (Ok (), s\<lparr>sv_child := None\<rparr>, kill_term_wait env pid w))"

text \<open>The closure \<open>applying\<close> of \<open>apply_config\<close>.\<close>

definition applying :: "core_env \<Rightarrow> supervisor \<Rightarrow> core_world \<Rightarrow> unit res \<times> supervisor \<times> core_world" where
  "applying env s w =
     (case Supervisor_validate_config env s w of
        (Inl e, w) \<Rightarrow> (Err e, s, w)
      | (Inr u, w) \<Rightarrow>
          if is_running s then (case reload env s w of (r, w) \<Rightarrow> (r, s, w)) else Supervisor_start env s w)"

definition apply_config :: "core_env \<Rightarrow> string \<Rightarrow> supervisor \<Rightarrow> core_world \<Rightarrow> unit res \<times> supervisor \<times> core_world" where
  "apply_config env config_json s w =
     (case fs_read env w of (previous, w) \<Rightarrow>
      (case fs_write env config_json w of
         (Inl e, w) \<Rightarrow> (Err e, s, w)
       | (Inr u, w) \<Rightarrow>
          (case applying env s w of (r, s, w) \<Rightarrow>
             if is_ok r then (r, s, w)
             else (case previous of
                     None \<Rightarrow> (r, s, w)
                   | Some old \<Rightarrow>
                       (case fs_write env old w of (r2, w) \<Rightarrow>
                          if is_ok r2 \<and> is_running s then (r, s, snd (reload env s w)) else (r, s, w))))))"

section \<open>What a core may read\<close>

definition check_accepts :: "core_env \<Rightarrow> string \<Rightarrow> string \<Rightarrow> string option \<Rightarrow> bool" where
  "check_accepts env bin path content = (\<exists>t err. ce_check env t bin path content = Ok (True, err))"

text \<open>No core has a read to do: whatever happens to the file, the cores do not see it.\<close>

definition settled_cores :: "core_world \<Rightarrow> bool" where
  "settled_cores w \<longleftrightarrow> (\<forall>pid p. cw_procs w pid = Some p \<longrightarrow> \<not> due p)"

text \<open>What a core has read was accepted, and so is the file while a core has yet to read it.\<close>

definition proc_ok :: "(string option \<Rightarrow> bool) \<Rightarrow> string option \<Rightarrow> core_proc \<Rightarrow> bool" where
  "proc_ok acc content p \<longleftrightarrow> (\<forall>x \<in> set (cp_reads p). acc x) \<and> (due p \<longrightarrow> acc content)"

definition core_ok :: "core_env \<Rightarrow> supervisor \<Rightarrow> core_world \<Rightarrow> bool" where
  "core_ok env s w \<longleftrightarrow>
     (\<forall>pid p. cw_procs w pid = Some p \<longrightarrow> proc_ok (check_accepts env (sv_binary s) (sv_config_path s)) (cw_file w) p) \<and>
     (\<forall>pid. sv_child s = Some pid \<longrightarrow> cw_procs w pid \<noteq> None)"

text \<open>
  The runs of a supervisor: its operations in any order, time that passes, and cores that exit on their own.  In a
  patient run a configuration is applied only when every core has read the one before.
\<close>

inductive sv_reachable :: "bool \<Rightarrow> core_env \<Rightarrow> string \<Rightarrow> string \<Rightarrow> supervisor \<Rightarrow> core_world \<Rightarrow> bool"
  for patient env binary path where
  sv_new: "sv_reachable patient env binary path (Supervisor_new binary path) \<lparr>cw_file = f, cw_procs = Map.empty, cw_tick = n\<rparr>"
| sv_apply: "sv_reachable patient env binary path s w \<Longrightarrow> patient \<longrightarrow> settled_cores w \<Longrightarrow> apply_config env c s w = (r, s', w') \<Longrightarrow>
    sv_reachable patient env binary path s' w'"
| sv_start: "sv_reachable patient env binary path s w \<Longrightarrow> Supervisor_start env s w = (r, s', w') \<Longrightarrow> sv_reachable patient env binary path s' w'"
| sv_reload: "sv_reachable patient env binary path s w \<Longrightarrow> reload env s w = (r, w') \<Longrightarrow> sv_reachable patient env binary path s w'"
| sv_stop: "sv_reachable patient env binary path s w \<Longrightarrow> Supervisor_stop env s w = (r, s', w') \<Longrightarrow> sv_reachable patient env binary path s' w'"
| sv_wait: "sv_reachable patient env binary path s w \<Longrightarrow> sv_reachable patient env binary path s (tick env w)"
| sv_exit: "sv_reachable patient env binary path s w \<Longrightarrow> cw_procs w pid = Some p \<Longrightarrow>
    sv_reachable patient env binary path s (w\<lparr>cw_procs := (cw_procs w)(pid \<mapsto> p\<lparr>cp_alive := False\<rparr>)\<rparr>)"

lemma tick_fields [simp]:
  "cw_file (tick env w) = cw_file w" "cw_tick (tick env w) = cw_tick w + 1" "dom (cw_procs (tick env w)) = dom (cw_procs w)"
  by (auto simp: tick_def dom_def)

lemma read_config_ok: "proc_ok acc f p \<Longrightarrow> proc_ok acc f (read_config f p)"
  by (auto simp: proc_ok_def read_config_def due_def)

lemma read_configs_ok: "proc_ok acc f p \<Longrightarrow> proc_ok acc f ((read_config f ^^ n) p)"
  by (induction n) (simp_all add: read_config_ok)

lemma read_configs_settled: "\<not> due p \<Longrightarrow> (read_config f ^^ n) p = p"
  by (induction n) (simp_all add: read_config_def)

lemma tick_ok: "core_ok env s w \<Longrightarrow> core_ok env s (tick env w)"
  by (auto simp: core_ok_def tick_def intro: read_configs_ok)

lemma tick_settled:
  assumes "settled_cores w"
  shows "cw_procs (tick env w) = cw_procs w"
proof
  fix pid
  show "cw_procs (tick env w) pid = cw_procs w pid"
    using assms by (cases "cw_procs w pid") (auto simp: tick_def settled_cores_def read_configs_settled)
qed

lemma settled_same_procs: "settled_cores w \<Longrightarrow> cw_procs w' = cw_procs w \<Longrightarrow> settled_cores w'"
  by (simp add: settled_cores_def)

lemma fs_write_dom: "fs_write env c w = (r, w') \<Longrightarrow> dom (cw_procs w') = dom (cw_procs w)"
proof -
  assume wr: "fs_write env c w = (r, w')"
  let ?torn = "tick env ((tick env w)\<lparr>cw_file := ce_torn env (cw_tick w)\<rparr>)"
  have "cw_procs w' = cw_procs ?torn" using wr by (auto simp: fs_write_def Let_def split: sum.splits)
  moreover have "dom (cw_procs ?torn) = dom (cw_procs w)" by simp
  ultimately show ?thesis by simp
qed

lemma fs_write_settled:
  assumes "settled_cores w" "fs_write env c w = (r, w')"
  shows "cw_procs w' = cw_procs w"
proof -
  let ?w = "(tick env w)\<lparr>cw_file := ce_torn env (cw_tick w)\<rparr>"
  have "cw_procs ?w = cw_procs w" using tick_settled [OF assms(1)] by simp
  with tick_settled [OF settled_same_procs [OF assms(1) this]] have "cw_procs (tick env ?w) = cw_procs w" by metis
  thus ?thesis using assms(2) by (auto simp: fs_write_def Let_def split: sum.splits)
qed

lemma fs_write_Ok: "fs_write env c w = (Inr u, w') \<Longrightarrow> cw_file w' = Some c"
  by (auto simp: fs_write_def Let_def split: sum.splits)

lemma fs_write_runs:
  assumes "\<forall>t. is_ok (ce_write env t)" and "fs_write env c w = (r, w')"
  shows "r = Inr ()"
proof -
  obtain u where "ce_write env (cw_tick w) = Inr u" using assms(1) by (auto simp: is_ok_iff)
  thus ?thesis using assms(2) by (simp add: fs_write_def Let_def)
qed

text \<open>While no core has a read to do, the file may change.\<close>

lemma core_ok_settled: "core_ok env s w \<Longrightarrow> settled_cores w \<Longrightarrow> cw_procs w' = cw_procs w \<Longrightarrow> core_ok env s w'"
  by (auto simp: core_ok_def settled_cores_def proc_ok_def)

lemma Supervisor_validate_config_world: "Supervisor_validate_config env s w = (r, w') \<Longrightarrow> w' = tick env w"
  by (simp add: Supervisor_validate_config_def)

lemma Supervisor_validate_config_Ok:
  "Supervisor_validate_config env s w = (Inr u, w') \<Longrightarrow> check_accepts env (sv_binary s) (sv_config_path s) (cw_file w)"
  unfolding check_accepts_def
  by (rule exI [of _ "cw_tick w"]) (auto simp: Supervisor_validate_config_def split: sum.splits if_splits)

text \<open>The results of \<open>reload\<close> and \<open>start\<close>.\<close>

lemma reload_cases:
  assumes "reload env s w = (r, w')"
  obtains (rejected) e where "r = Inl e" "w' = tick env w"
  | (gone) e where "r = Inl e" "w' = tick env (tick env w)"
  | (signalled) pid p where "r = Inr ()" "sv_child s = Some pid" "check_accepts env (sv_binary s) (sv_config_path s) (cw_file w)"
      "cw_procs (tick env (tick env w)) pid = Some p"
      "w' = (tick env (tick env w))\<lparr>cw_procs := (cw_procs (tick env (tick env w)))(pid \<mapsto> (if cp_alive p then p\<lparr>cp_hup := True\<rparr> else p))\<rparr>"
proof (cases "Supervisor_validate_config env s w")
  case (Pair v w1)
  have w1: "w1 = tick env w" by (rule Supervisor_validate_config_world [OF Pair])
  show ?thesis
  proof (cases v)
    case (Inl e)
    thus ?thesis using assms Pair w1 rejected by (auto simp: reload_def)
  next
    case (Inr u)
    note acc = Supervisor_validate_config_Ok [OF Pair [unfolded Inr]]
    show ?thesis
    proof (cases "sv_child s")
      case None
      thus ?thesis using assms Pair Inr w1 rejected by (auto simp: reload_def)
    next
      case (Some pid)
      show ?thesis
      proof (cases "cw_procs (tick env (tick env w)) pid")
        case None
        thus ?thesis using assms Pair Inr w1 Some gone by (auto simp: reload_def kill_hup_def Let_def)
      next
        case p: (Some p)
        have "w' = (tick env (tick env w))\<lparr>cw_procs := (cw_procs (tick env (tick env w)))(pid \<mapsto> (if cp_alive p then p\<lparr>cp_hup := True\<rparr> else p))\<rparr>"
          "r = Inr ()" using assms Pair Inr w1 Some p by (auto simp: reload_def kill_hup_def Let_def fun_upd_idem)
        thus ?thesis using signalled Some acc p by blast
      qed
    qed
  qed
qed

lemma start_cases:
  assumes "Supervisor_start env s w = (r, s', w')"
  obtains (rejected) e where "r = Inl e" "s' = s" "w' = tick env w"
  | (not_spawned) e where "r = Inl e" "s' = s" "w' = tick env (tick env w)"
  | (spawned) pid where "r = Inr ()" "s' = s\<lparr>sv_child := Some pid\<rparr>" "check_accepts env (sv_binary s) (sv_config_path s) (cw_file w)"
      "w' = (tick env (tick env w))\<lparr>cw_procs := (cw_procs (tick env (tick env w)))(pid \<mapsto>
        \<lparr>cp_alive = True, cp_starting = True, cp_hup = False, cp_reads = []\<rparr>)\<rparr>"
proof (cases "Supervisor_validate_config env s w")
  case (Pair v w1)
  have w1: "w1 = tick env w" by (rule Supervisor_validate_config_world [OF Pair])
  show ?thesis
  proof (cases v)
    case (Inl e)
    thus ?thesis using assms Pair w1 rejected by (auto simp: Supervisor_start_def)
  next
    case (Inr u)
    note acc = Supervisor_validate_config_Ok [OF Pair [unfolded Inr]]
    show ?thesis using assms Pair Inr w1 acc not_spawned spawned
      by (cases "ce_spawn env (cw_tick (tick env w)) (sv_binary s)") (auto simp: Supervisor_start_def)
  qed
qed

lemma ticks_ok: "core_ok env s w \<Longrightarrow> core_ok env s (tick env (tick env w))"
  by (intro tick_ok)

lemma ticks_settled: "settled_cores w \<Longrightarrow> cw_procs (tick env (tick env w)) = cw_procs w"
  using tick_settled [of w env] tick_settled [of "tick env w" env] settled_same_procs [of w "tick env w"] by simp

lemma core_ok_upd:
  assumes "core_ok env s w" "proc_ok (check_accepts env (sv_binary s) (sv_config_path s)) (cw_file w) p"
  shows "core_ok env s (w\<lparr>cw_procs := (cw_procs w)(pid \<mapsto> p)\<rparr>)"
  using assms by (auto simp: core_ok_def)

lemma core_ok_proc: "core_ok env s w \<Longrightarrow> cw_procs w pid = Some p \<Longrightarrow>
    proc_ok (check_accepts env (sv_binary s) (sv_config_path s)) (cw_file w) p"
  by (simp add: core_ok_def)

lemma reload_ok:
  assumes "core_ok env s w" "reload env s w = (r, w')"
  shows "core_ok env s w' \<and> cw_file w' = cw_file w \<and> (is_err r \<longrightarrow> settled_cores w \<longrightarrow> cw_procs w' = cw_procs w)"
  using assms(2)
proof (cases rule: reload_cases)
  case (signalled pid p)
  have "proc_ok (check_accepts env (sv_binary s) (sv_config_path s)) (cw_file w) (if cp_alive p then p\<lparr>cp_hup := True\<rparr> else p)"
    using core_ok_proc [OF ticks_ok [OF assms(1)] signalled(4)] signalled(3) by (auto simp: proc_ok_def due_def)
  thus ?thesis using core_ok_upd [OF ticks_ok [OF assms(1)]] signalled by simp
next
  case gone
  thus ?thesis using ticks_ok [OF assms(1)] ticks_settled [of w env] by auto
qed (use tick_ok [OF assms(1)] tick_settled in auto)

lemma Supervisor_start_ok:
  assumes "core_ok env s w" "Supervisor_start env s w = (r, s', w')"
  shows "core_ok env s' w' \<and> cw_file w' = cw_file w \<and> sv_binary s' = sv_binary s \<and> sv_config_path s' = sv_config_path s \<and>
    (is_err r \<longrightarrow> s' = s \<and> (settled_cores w \<longrightarrow> cw_procs w' = cw_procs w))"
  using assms(2)
proof (cases rule: start_cases)
  case (spawned pid)
  have "proc_ok (check_accepts env (sv_binary s) (sv_config_path s)) (cw_file w)
      \<lparr>cp_alive = True, cp_starting = True, cp_hup = False, cp_reads = []\<rparr>" using spawned(3) by (simp add: proc_ok_def)
  thus ?thesis using core_ok_upd [OF ticks_ok [OF assms(1)]] spawned by (auto simp: core_ok_def)
next
  case not_spawned
  thus ?thesis using ticks_ok [OF assms(1)] ticks_settled [of w env] by auto
qed (use tick_ok [OF assms(1)] tick_settled in auto)

lemma Supervisor_stop_ok:
  "core_ok env s w \<Longrightarrow> Supervisor_stop env s w = (r, s', w') \<Longrightarrow>
     core_ok env s' w' \<and> sv_binary s' = sv_binary s \<and> sv_config_path s' = sv_config_path s"
  using tick_ok [of env s w]
  by (auto simp: Supervisor_stop_def core_ok_def kill_term_wait_def Let_def split: option.splits if_splits)

lemma applying_ok:
  assumes "core_ok env s w" "applying env s w = (r, s', w')"
  shows "core_ok env s' w' \<and> cw_file w' = cw_file w \<and> sv_binary s' = sv_binary s \<and> sv_config_path s' = sv_config_path s \<and>
    (is_err r \<longrightarrow> s' = s \<and> (settled_cores w \<longrightarrow> cw_procs w' = cw_procs w))"
proof (cases "Supervisor_validate_config env s w")
  case (Pair v w1)
  have "w1 = tick env w" by (rule Supervisor_validate_config_world [OF Pair])
  hence w1: "core_ok env s w1" "cw_file w1 = cw_file w" "settled_cores w \<Longrightarrow> cw_procs w1 = cw_procs w"
    "settled_cores w \<Longrightarrow> settled_cores w1"
    using tick_ok [OF assms(1)] tick_settled [of w env] settled_same_procs [of w w1] by simp_all
  show ?thesis
  proof (cases v)
    case (Inl e)
    thus ?thesis using assms(2) Pair w1 by (auto simp: applying_def)
  next
    case (Inr u)
    show ?thesis
    proof (cases "is_running s")
      case True
      obtain r1 w2 where rl: "reload env s w1 = (r1, w2)" by fastforce
      hence "s' = s" "w' = w2" "r = r1" using assms(2) Pair Inr True by (auto simp: applying_def)
      thus ?thesis using reload_ok [OF w1(1) rl] w1(2,3,4) by auto
    next
      case False
      hence "Supervisor_start env s w1 = (r, s', w')" using assms(2) Pair Inr by (simp add: applying_def)
      thus ?thesis using Supervisor_start_ok [OF w1(1)] w1(2,3,4) by auto
    qed
  qed
qed

lemma apply_config_ok:
  assumes ok: "core_ok env s w" and settled: "settled_cores w" and ap: "apply_config env c s w = (r, s', w')"
  shows "core_ok env s' w' \<and> sv_binary s' = sv_binary s \<and> sv_config_path s' = sv_config_path s"
proof -
  obtain previous w0 where rd: "fs_read env w = (previous, w0)" by fastforce
  obtain r1 w1 where wr: "fs_write env c w0 = (r1, w1)" by fastforce
  obtain ra sa wa where app: "applying env s w1 = (ra, sa, wa)" by (metis prod_cases3)
  have w0: "cw_procs w0 = cw_procs w" using rd tick_settled [OF settled] by (auto simp: fs_read_def)
  have w1: "cw_procs w1 = cw_procs w" using fs_write_settled [OF settled_same_procs [OF settled w0] wr] w0 by simp
  note s1 = settled_same_procs [OF settled w1] and ok1 = core_ok_settled [OF ok settled w1]
  note wa = applying_ok [OF ok1 app]
  have restored: "core_ok env sa w2 \<and> core_ok env sa (snd (reload env sa w2))" if "fs_write env old wa = (r2, w2)" "is_err ra" for old r2 w2
  proof -
    have sa: "sa = s" "cw_procs wa = cw_procs w1" using wa s1 that(2) by auto
    have "core_ok env sa w2" using core_ok_settled [OF _ _ fs_write_settled [OF _ that(1)]] wa settled_same_procs [OF s1 sa(2)] by blast
    thus ?thesis using reload_ok [of env sa w2] by (metis prod.collapse)
  qed
  show ?thesis using ap ok1 wa restored
    by (auto simp: apply_config_def rd wr app split: sum.splits if_splits option.splits prod.splits)
qed

lemma sv_reachable_ok: "sv_reachable True env binary path s w \<Longrightarrow> core_ok env s w \<and> sv_binary s = binary \<and> sv_config_path s = path"
proof (induction rule: sv_reachable.induct)
  case (sv_new f n)
  show ?case by (simp add: Supervisor_new_def core_ok_def)
next
  case (sv_apply s w c r s' w')
  thus ?case using apply_config_ok by metis
next
  case (sv_start s w r s' w')
  thus ?case using Supervisor_start_ok by metis
next
  case (sv_reload s w r w')
  thus ?case using reload_ok by metis
next
  case (sv_stop s w r s' w')
  thus ?case using Supervisor_stop_ok by metis
next
  case (sv_wait s w)
  thus ?case using tick_ok by blast
next
  case (sv_exit s w pid p)
  hence "proc_ok (check_accepts env (sv_binary s) (sv_config_path s)) (cw_file w) (p\<lparr>cp_alive := False\<rparr>)"
    using core_ok_proc by (fastforce simp: proc_ok_def due_def)
  thus ?case using sv_exit core_ok_upd by blast
qed

section \<open>One core at a time\<close>

text \<open>The only process of a supervisor that was not waited for is the child it remembers.\<close>

definition cores_owned :: "supervisor \<Rightarrow> core_world \<Rightarrow> bool" where
  "cores_owned s w \<longleftrightarrow> dom (cw_procs w) = set_option (sv_child s)"

lemma cores_owned_dom: "dom (cw_procs w') = dom (cw_procs w) \<Longrightarrow> cores_owned s w' = cores_owned s w"
  by (simp add: cores_owned_def)

lemma cores_owned_tick [simp]: "cores_owned s (tick env w) = cores_owned s w"
  by (rule cores_owned_dom) simp

lemma reload_dom:
  assumes "reload env s w = (r, w')"
  shows "dom (cw_procs w') = dom (cw_procs w)"
  using assms
proof (cases rule: reload_cases)
  case (signalled pid p)
  have "pid \<in> dom (cw_procs (tick env (tick env w)))" using signalled(4) by blast
  thus ?thesis using signalled(5) by (simp add: insert_absorb)
qed simp_all

lemma applying_owned:
  assumes "cores_owned s w" "applying env s w = (r, s', w')"
  shows "cores_owned s' w' \<and> (is_ok r \<longrightarrow> is_running s') \<and> (is_err r \<longrightarrow> s' = s)"
proof (cases "Supervisor_validate_config env s w")
  case (Pair v w1)
  have w1: "w1 = tick env w" by (rule Supervisor_validate_config_world [OF Pair])
  show ?thesis
  proof (cases "is_ok v \<and> \<not> is_running s")
    case True
    hence st: "Supervisor_start env s w1 = (r, s', w')" and none: "sv_child s = None"
      using assms(2) Pair by (auto simp: applying_def is_ok_iff is_running_def)
    from st show ?thesis
    proof (cases rule: start_cases)
      case (spawned pid)
      have "dom (cw_procs (tick env (tick env w1))) = {}" using assms(1) none w1 by (simp add: cores_owned_def)
      thus ?thesis using spawned(1,2,4) by (simp add: cores_owned_def is_running_def)
    qed (use assms(1) w1 in simp_all)
  next
    case False
    obtain r1 w2 where rl: "reload env s w1 = (r1, w2)" by fastforce
    have "cores_owned s w2" using cores_owned_dom [OF reload_dom [OF rl]] w1 assms(1) by simp
    moreover have "cores_owned s w1" using assms(1) w1 by simp
    ultimately show ?thesis using assms(2) False Pair rl
      by (cases v) (auto simp: applying_def)
  qed
qed

lemma apply_config_owned:
  assumes "cores_owned s w" "apply_config env c s w = (r, s', w')"
  shows "cores_owned s' w' \<and> (is_ok r \<longrightarrow> is_running s') \<and> (is_err r \<longrightarrow> s' = s)"
proof -
  obtain previous w0 where rd: "fs_read env w = (previous, w0)" by fastforce
  obtain r1 w1 where wr: "fs_write env c w0 = (r1, w1)" by fastforce
  obtain ra sa wa where app: "applying env s w1 = (ra, sa, wa)" by (metis prod_cases3)
  have "w0 = tick env w" using rd by (simp add: fs_read_def)
  hence w1: "cores_owned s w1" using cores_owned_dom [OF fs_write_dom [OF wr]] assms(1) by simp
  note wa = applying_owned [OF w1 app]
  have restored: "cores_owned sa w2 \<and> cores_owned sa (snd (reload env sa w2))" if "fs_write env old wa = (r2, w2)" for old r2 w2
    using wa cores_owned_dom [OF fs_write_dom [OF that]] cores_owned_dom [OF reload_dom [of env sa w2]]
    by (metis prod.collapse)
  show ?thesis using assms(2) w1 wa restored
    by (auto simp: apply_config_def rd wr app split: sum.splits if_splits option.splits prod.splits)
qed

lemma Supervisor_stop_owned:
  assumes "cores_owned s w" "Supervisor_stop env s w = (r, s', w')"
  shows "cores_owned s' w'"
proof (cases "sv_child s")
  case (Some pid)
  hence "dom (cw_procs (tick env w)) = {pid}" using assms(1) by (simp add: cores_owned_def)
  hence "dom ((cw_procs (tick env w))(pid := None)) = {}" by simp
  thus ?thesis using assms(2) Some by (auto simp: Supervisor_stop_def kill_term_wait_def Let_def cores_owned_def simp del: dom_fun_upd)
qed (use assms in \<open>simp add: Supervisor_stop_def\<close>)

section \<open>Properties\<close>

text \<open>Claim C12: in every patient run of a supervisor, one that applies a configuration only when every core has read the
  one before, whatever the operations, the core binary and the file system do and whenever the cores get to
  read, everything a core ever read is a configuration that \<open>sing-box check\<close> accepted, a file that a core has yet to
  read is one, and the child the supervisor remembers is a process that can be signalled.\<close>

theorem reachable_core_checked:
  assumes "sv_reachable True env binary path s w"
  shows "(\<forall>pid p. cw_procs w pid = Some p \<longrightarrow> (\<forall>x \<in> set (cp_reads p). check_accepts env binary path x) \<and>
      (due p \<longrightarrow> check_accepts env binary path (cw_file w))) \<and>
    (\<forall>pid. sv_child s = Some pid \<longrightarrow> cw_procs w pid \<noteq> None)"
  using sv_reachable_ok [OF assms] by (auto simp: core_ok_def proc_ok_def)

text \<open>A binary that accepts a configuration other than the empty one, on a file system that works; the cores read
  their file at the moments \<open>late\<close>.\<close>

definition late_env :: "nat set \<Rightarrow> core_env" where
  "late_env late = \<lparr>ce_check = (\<lambda>t b p c. Ok (c \<noteq> None \<and> c \<noteq> Some [], ''bad'')), ce_spawn = (\<lambda>t b. Ok (t + 7)),
     ce_read_ok = (\<lambda>t. True), ce_write = (\<lambda>t. Ok ()), ce_torn = (\<lambda>t. None), ce_os_error = (\<lambda>t. ''no such process''),
     ce_reads = (\<lambda>t pid. if t \<in> late then 1 else 0)\<rparr>"

definition sample_env :: core_env where
  "sample_env = late_env UNIV"

definition no_cores :: core_world where
  "no_cores = \<lparr>cw_file = None, cw_procs = Map.empty, cw_tick = 0\<rparr>"

definition idle_core :: "bool \<Rightarrow> core_proc" where
  "idle_core alive = \<lparr>cp_alive = alive, cp_starting = False, cp_hup = False, cp_reads = [Some ''a'']\<rparr>"

definition sample_running :: "bool \<Rightarrow> core_world" where
  "sample_running alive = \<lparr>cw_file = Some ''a'', cw_procs = [5 \<mapsto> idle_core alive], cw_tick = 0\<rparr>"

lemma sample_settled: "settled_cores (sample_running alive)" "settled_cores no_cores"
  by (simp_all add: settled_cores_def sample_running_def idle_core_def due_def no_cores_def)

lemmas sv_eval = late_env_def sample_env_def apply_config_def applying_def Supervisor_start_def reload_def is_running_def
  Supervisor_validate_config_def fs_read_def fs_write_def kill_hup_def tick_def Let_def

text \<open>The first configuration: a core is started that has yet to read it.\<close>

lemma first_apply:
  "apply_config (late_env late) (CHR ''a'' # c) (Supervisor_new ''sb'' ''c.json'') no_cores =
     (Inr (), \<lparr>sv_binary = ''sb'', sv_config_path = ''c.json'', sv_child = Some 12\<rparr>,
      \<lparr>cw_file = Some (CHR ''a'' # c), cw_procs = [12 \<mapsto> \<lparr>cp_alive = True, cp_starting = True, cp_hup = False, cp_reads = []\<rparr>],
       cw_tick = 6\<rparr>)"
  by (simp add: sv_eval no_cores_def Supervisor_new_def)

theorem reachable_core_checked_witness:
  "\<exists>s w p. sv_reachable True sample_env ''sb'' ''c.json'' s w \<and> cw_procs w 12 = Some p \<and> cp_reads p = [Some ''a''] \<and>
     (\<forall>x \<in> set (cp_reads p). check_accepts sample_env ''sb'' ''c.json'' x)"
proof -
  let ?s = "\<lparr>sv_binary = ''sb'', sv_config_path = ''c.json'', sv_child = Some 12\<rparr>"
  let ?w = "\<lparr>cw_file = Some ''a'', cw_procs = [12 \<mapsto> \<lparr>cp_alive = True, cp_starting = True, cp_hup = False, cp_reads = []\<rparr>],
       cw_tick = 6\<rparr> :: core_world"
  have "sv_reachable True sample_env ''sb'' ''c.json'' ?s ?w"
    using sv_apply [OF sv_new [of True sample_env "''sb''" "''c.json''" None 0], of "''a''"] first_apply [of UNIV "[]"] sample_settled(2)
    by (simp add: no_cores_def sample_env_def)
  hence r: "sv_reachable True sample_env ''sb'' ''c.json'' ?s (tick sample_env ?w)" by (rule sv_wait)
  have p: "cw_procs (tick sample_env ?w) 12 = Some \<lparr>cp_alive = True, cp_starting = False, cp_hup = False, cp_reads = [Some ''a'']\<rparr>"
    by (simp add: tick_def sample_env_def late_env_def read_config_def due_def)
  show ?thesis
    by (rule exI [of _ ?s], rule exI [of _ "tick sample_env ?w"], rule exI, intro conjI, rule r, rule p)
      (use reachable_core_checked [OF r] p in auto)
qed

text \<open>
  Patience is needed, and nothing in the program has it.  A core that has not read the first configuration when the
  second is applied reads the second one between the write and the check: the check rejects it, \<open>apply_config\<close> reports the
  failure and puts the old file back, and the core has loaded the configuration that was refused.
\<close>

lemma impatient_apply_feeds_unchecked:
  "\<exists>s w s' w' e p. apply_config (late_env {9}) ''a'' (Supervisor_new ''sb'' ''c.json'') no_cores = (Inr (), s, w) \<and>
     apply_config (late_env {9}) [] s w = (Inl e, s', w') \<and> cw_file w' = Some ''a'' \<and>
     cw_procs w' 12 = Some p \<and> Some [] \<in> set (cp_reads p) \<and> \<not> check_accepts (late_env {9}) ''sb'' ''c.json'' (Some [])"
proof -
  let ?s = "\<lparr>sv_binary = ''sb'', sv_config_path = ''c.json'', sv_child = Some 12\<rparr>"
  let ?w = "\<lparr>cw_file = Some ''a'', cw_procs = [12 \<mapsto> \<lparr>cp_alive = True, cp_starting = True, cp_hup = False, cp_reads = []\<rparr>],
       cw_tick = 6\<rparr> :: core_world"
  have "\<exists>s' w' e p. apply_config (late_env {9}) [] ?s ?w = (Inl e, s', w') \<and> cw_file w' = Some ''a'' \<and>
      cw_procs w' 12 = Some p \<and> Some [] \<in> set (cp_reads p)"
    by (simp add: sv_eval read_config_def due_def)
  moreover have "\<not> check_accepts (late_env {9}) ''sb'' ''c.json'' (Some [])" by (simp add: check_accepts_def late_env_def)
  ultimately show ?thesis using first_apply [of "{9}" "[]"] by blast
qed

text \<open>A configuration that is not applied does not end the session.  When the cores have read their file, which is on
  disk, and the two writes of the file succeed, an \<open>apply_config\<close> that returns an
  error leaves the old file, the same child and cores that have read nothing new.\<close>

theorem failed_apply_keeps_session:
  assumes "settled_cores w" "core_ok env s w" "cw_file w = Some old"
    and "\<forall>t. ce_read_ok env t" "\<forall>t. is_ok (ce_write env t)"
    and "apply_config env c s w = (Inl e, s', w')"
  shows "s' = s \<and> cw_file w' = Some old \<and> map_option cp_reads (cw_procs w' pid) = map_option cp_reads (cw_procs w pid)"
proof -
  obtain r1 w1 where wr: "fs_write env c (tick env w) = (r1, w1)" by fastforce
  obtain ra sa wa where app: "applying env s w1 = (ra, sa, wa)" by (metis prod_cases3)
  obtain r2 w2 where wr2: "fs_write env old wa = (r2, w2)" by fastforce
  obtain r3 w3 where rl: "reload env s w2 = (r3, w3)" by fastforce
  have rs: "r1 = Inr ()" "r2 = Inr ()" using fs_write_runs [OF assms(5)] wr wr2 by blast+
  have rd: "fs_read env w = (Some old, tick env w)" using assms(3,4) by (simp add: fs_read_def)
  note p0 = tick_settled [OF assms(1), of env] note s0 = settled_same_procs [OF assms(1) p0]
  have p1: "cw_procs w1 = cw_procs w" using fs_write_settled [OF s0 wr] p0 by simp
  note s1 = settled_same_procs [OF assms(1) p1] note ok1 = core_ok_settled [OF assms(2,1) p1]
  have eq: "apply_config env c s w =
      (if is_ok ra then (ra, sa, wa) else if is_running sa then (ra, sa, snd (reload env sa w2)) else (ra, sa, w2))"
    by (simp add: apply_config_def rd wr rs app wr2)
  have ra: "ra = Inl e" using assms(6) unfolding eq by (simp split: if_splits)
  have sa: "sa = s" "cw_procs wa = cw_procs w1" "core_ok env s wa" using applying_ok [OF ok1 app] s1 ra by auto
  have p2: "cw_procs w2 = cw_procs w" using fs_write_settled [OF settled_same_procs [OF s1 sa(2)] wr2] sa(2) p1 by simp
  note s2 = settled_same_procs [OF assms(1) p2]
  have f2: "cw_file w2 = Some old" using fs_write_Ok wr2 rs(2) by simp
  have out: "s' = s" "w' = (if is_running s then w3 else w2)"
    using assms(6) unfolding eq by (simp_all add: ra sa(1) rl split: if_splits)
  note two = ticks_settled [OF s2, of env]
  from rl have "cw_file w3 = Some old \<and> map_option cp_reads (cw_procs w3 pid) = map_option cp_reads (cw_procs w2 pid)"
    by (cases rule: reload_cases) (simp_all add: f2 tick_settled [OF s2] two)
  thus ?thesis using out p2 f2 by simp
qed

theorem failed_apply_keeps_session_witness:
  "let s = (Supervisor_new ''sb'' ''c.json'')\<lparr>sv_child := Some 5\<rparr> in
   case apply_config sample_env [] s (sample_running True) of (r, s', w') \<Rightarrow>
     is_err r \<and> s' = s \<and> cw_file w' = Some ''a'' \<and> map_option cp_reads (cw_procs w' 5) = Some [Some ''a'']"
proof -
  let ?s = "(Supervisor_new ''sb'' ''c.json'')\<lparr>sv_child := Some 5\<rparr>"
  obtain r s' w' where ap: "apply_config sample_env [] ?s (sample_running True) = (r, s', w')" by (metis prod_cases3)
  hence r: "r = Inl (''sing-box rejected the config: '' @ trim (from_utf8_lossy ''bad''))"
    by (auto simp: sv_eval sample_running_def Supervisor_new_def simp del: from_utf8_lossy.simps split: if_splits)
  have "core_ok sample_env ?s (sample_running True)"
    by (auto simp: core_ok_def proc_ok_def sample_running_def idle_core_def due_def Supervisor_new_def check_accepts_def sample_env_def late_env_def)
  from failed_apply_keeps_session [OF sample_settled(1) this _ _ _ ap [unfolded r], of "''a''" 5] ap r
  show ?thesis by (simp add: sample_running_def sample_env_def late_env_def idle_core_def)
qed

text \<open>An \<open>apply_config\<close> that returns \<open>Ok\<close> has written the new configuration, the checker has
  accepted it, and the supervisor has a child that was told to read it.\<close>

theorem applied_config_is_announced:
  assumes "apply_config env c s w = (Inr u, s', w')"
  shows "cw_file w' = Some c \<and> check_accepts env (sv_binary s) (sv_config_path s) (Some c) \<and>
    (\<exists>pid p. sv_child s' = Some pid \<and> cw_procs w' pid = Some p \<and> (cp_alive p \<longrightarrow> due p))"
proof -
  obtain previous w0 where rd: "fs_read env w = (previous, w0)" by fastforce
  obtain r1 w1 where wr: "fs_write env c w0 = (r1, w1)" by fastforce
  obtain ra sa wa where app: "applying env s w1 = (ra, sa, wa)" by (metis prod_cases3)
  have fin: "r1 = Inr ()" "ra = Inr ()" "sa = s'" "wa = w'"
    using assms by (auto simp: apply_config_def rd wr app split: sum.splits if_splits option.splits prod.splits)
  have onfile: "cw_file w1 = Some c" by (rule fs_write_Ok [OF wr [unfolded fin]])
  obtain v wv where va: "Supervisor_validate_config env s w1 = (v, wv)" by fastforce
  have wv: "wv = tick env w1" by (rule Supervisor_validate_config_world [OF va])
  have v: "v = Inr ()" using app fin va by (auto simp: applying_def split: sum.splits)
  show ?thesis
  proof (cases "is_running s")
    case True
    hence "reload env s wv = (Inr (), w')" "s' = s"
      using app fin va v by (auto simp: applying_def split: prod.splits)
    from this(1) show ?thesis by (cases rule: reload_cases) (use onfile wv \<open>s' = s\<close> in \<open>auto simp: due_def\<close>)
  next
    case False
    hence "Supervisor_start env s wv = (Inr (), s', w')" using app fin va v by (simp add: applying_def)
    thus ?thesis by (cases rule: start_cases) (use onfile wv in \<open>auto simp: due_def\<close>)
  qed
qed

theorem applied_config_is_announced_witness:
  "case apply_config sample_env ''b'' ((Supervisor_new ''sb'' ''c.json'')\<lparr>sv_child := Some 5\<rparr>) (sample_running True) of
     (r, s', w') \<Rightarrow> r = Inr () \<and> cw_file w' = Some ''b'' \<and> check_accepts sample_env ''sb'' ''c.json'' (Some ''b'') \<and>
       (\<exists>pid p. sv_child s' = Some pid \<and> cw_procs w' pid = Some p \<and> (cp_alive p \<longrightarrow> due p))"
proof -
  let ?s = "(Supervisor_new ''sb'' ''c.json'')\<lparr>sv_child := Some 5\<rparr>"
  obtain r s' w' where ap: "apply_config sample_env ''b'' ?s (sample_running True) = (r, s', w')" by (metis prod_cases3)
  have r: "r = Inr ()" using ap by (auto simp: sv_eval sample_running_def Supervisor_new_def)
  show ?thesis using ap applied_config_is_announced [OF ap [unfolded r]] by (simp add: r Supervisor_new_def)
qed

text \<open>\<open>is_running\<close> only says that a child was started.  When the core has exited on its own and the
  checker accepts the new configuration, \<open>apply_config\<close> returns \<open>Ok\<close> without starting a core: the
  process table is unchanged, and the child is still the dead process.\<close>

theorem apply_ok_on_dead_core:
  assumes "sv_child s = Some pid" "cw_procs w pid = Some p" "\<not> cp_alive p" "settled_cores w"
    and "\<forall>t. is_ok (ce_write env t)" "\<forall>t. \<exists>err. ce_check env t (sv_binary s) (sv_config_path s) (Some c) = Ok (True, err)"
  shows "\<exists>w'. apply_config env c s w = (Inr (), s, w') \<and> cw_procs w' = cw_procs w"
proof -
  obtain r1 w1 where wr: "fs_write env c (tick env w) = (r1, w1)" by fastforce
  have r1: "r1 = Inr ()" using fs_write_runs [OF assms(5) wr] .
  note p0 = tick_settled [OF assms(4), of env] note s0 = settled_same_procs [OF assms(4) p0]
  have p1: "cw_procs w1 = cw_procs w" "cw_file w1 = Some c" using fs_write_settled [OF s0 wr] p0 fs_write_Ok wr r1 by simp_all
  have tk: "cw_procs (tick env u) = cw_procs w" if "cw_procs u = cw_procs w" for u
    using tick_settled [OF settled_same_procs [OF assms(4) that]] that by simp
  have va: "Supervisor_validate_config env s u = (Inr (), tick env u)" if "cw_file u = Some c" for u
    using assms(6) that by (auto simp: Supervisor_validate_config_def dest!: spec [of _ "cw_tick u"])
  have "applying env s w1 = (Inr (), s, tick env (tick env (tick env w1)))"
    using assms(2,3) tk p1 by (simp add: applying_def va is_running_def assms(1) reload_def kill_hup_def Let_def)
  thus ?thesis using tk p1(1) by (simp add: apply_config_def fs_read_def wr r1)
qed

theorem apply_ok_on_dead_core_witness:
  "\<exists>w'. apply_config sample_env ''b'' ((Supervisor_new ''sb'' ''c.json'')\<lparr>sv_child := Some 5\<rparr>) (sample_running False) =
     (Inr (), (Supervisor_new ''sb'' ''c.json'')\<lparr>sv_child := Some 5\<rparr>, w') \<and> cw_procs w' = cw_procs (sample_running False)"
  by (rule apply_ok_on_dead_core [of _ 5 _ "idle_core False"])
     (simp_all add: sample_settled, simp_all add: sample_env_def late_env_def sample_running_def Supervisor_new_def idle_core_def)

text \<open>With no readable file before, nothing is restored: the configuration the checker rejected stays on disk.\<close>

lemma first_rejected_config_stays:
  assumes "cw_file w = None" "sv_child s = None" "\<forall>t. is_ok (ce_write env t)" "\<not> check_accepts env (sv_binary s) (sv_config_path s) (Some c)"
  shows "\<exists>e w'. apply_config env c s w = (Inl e, s, w') \<and> cw_file w' = Some c"
proof -
  obtain r1 w1 where wr: "fs_write env c (tick env w) = (r1, w1)" by fastforce
  have r1: "r1 = Inr ()" using fs_write_runs [OF assms(3) wr] .
  note f1 = fs_write_Ok [OF wr [unfolded r1]]
  obtain v where va: "Supervisor_validate_config env s w1 = (v, tick env w1)" by (simp add: Supervisor_validate_config_def)
  have "v \<noteq> Inr ()" using Supervisor_validate_config_Ok [of env s w1 "()" "tick env w1"] va assms(4) f1 by auto
  then obtain e where v: "v = Inl e" by (cases v) auto
  show ?thesis by (simp add: apply_config_def fs_read_def assms(1) wr r1 applying_def va v f1)
qed

end
