(* ===== verification/Netd_Client.thy ===== *)
theory Netd_Client
  imports Netd
begin

text \<open>
  The blocking client of the daemon, \<open>crates/controller/src/netd_client.rs\<close>: the framing, the
  handshake with its three attempts, the three requests and one round of the heartbeat thread.

  A stream is the bytes that arrived and were not read and the bytes that were written.  What a call
  meets outside the program is its \<open>call_env\<close>: the result of preparing the stream, how many bytes of the frame go
  out when the write fails, the bytes that arrive before the read times out.  \<open>bincode\<close> is a parameter.
\<close>

section \<open>Frames\<close>

record netd_stream =
  ns_in :: string
  ns_out :: string

record call_env =
  ca_ready :: "unit res"
  ca_cut :: "nat option"
  ca_arrive :: string

record bincode =
  bc_request :: "netd_request \<Rightarrow> string res"
  bc_response :: "string \<Rightarrow> netd_response res"

definition to_be_bytes :: "nat \<Rightarrow> string" where
  "to_be_bytes n = map (\<lambda>k. char_of (n div 256 ^ k mod 256)) [3, 2, 1, 0]"

definition from_be_bytes :: "string \<Rightarrow> nat" where
  "from_be_bytes s = foldl (\<lambda>n c. n * 256 + byte_of c) 0 s"

definition read_exact_stream :: "nat \<Rightarrow> netd_stream \<Rightarrow> string res \<times> netd_stream" where
  "read_exact_stream n st =
     (if length (ns_in st) < n then (Err ''Resource temporarily unavailable'', st\<lparr>ns_in := []\<rparr>)
      else (Ok (take n (ns_in st)), st\<lparr>ns_in := drop n (ns_in st)\<rparr>))"

definition write_frame :: "bincode \<Rightarrow> call_env \<Rightarrow> netd_request \<Rightarrow> netd_stream \<Rightarrow> unit res \<times> netd_stream" where
  "write_frame bc env request st =
     (case bc_request bc request of Inl e \<Rightarrow> (Err e, st)
      | Inr payload \<Rightarrow>
        if MAX_FRAME_BYTES < length payload
        then (Err (''request frame too large: '' @ show_nat (length payload) @ '' bytes''), st)
        else (let frame = to_be_bytes (length payload) @ payload
              in case ca_cut env of
                   None \<Rightarrow> (Ok (), st\<lparr>ns_out := ns_out st @ frame\<rparr>)
                 | Some n \<Rightarrow> (Err ''Broken pipe'', st\<lparr>ns_out := ns_out st @ take n frame\<rparr>)))"

definition read_netd_response :: "bincode \<Rightarrow> netd_stream \<Rightarrow> netd_response res \<times> netd_stream" where
  "read_netd_response bc st =
     (case read_exact_stream 4 st of (Inl e, st) \<Rightarrow> (Err e, st)
      | (Inr header, st) \<Rightarrow>
        (let len = from_be_bytes header
         in if len = 0 \<or> MAX_FRAME_BYTES < len then (Err (''invalid netd frame length '' @ show_nat len), st)
            else (case read_exact_stream len st of (Inl e, st) \<Rightarrow> (Err e, st)
                  | (Inr payload, st) \<Rightarrow>
                    (map_err (\<lambda>_. ''invalid netd response payload'') (bc_response bc payload), st))))"

section \<open>The client\<close>

record netd_client =
  nc_socket_path :: string
  nc_version :: u32
  nc_stream :: "netd_stream option"
  nc_session_id :: u64
  nc_sequence :: u64

record routing_spec =
  rs_tproxy_port :: u16
  rs_fwmark :: u32
  rs_table_id :: u32
  rs_dns_ipv4 :: "ipv4 option"
  rs_bypass_subnets :: "string list"
  rs_bypass_subnets_v6 :: "string list"
  rs_core_uid :: "u32 option"

fun debug_response :: "netd_response \<Rightarrow> string" where
  "debug_response (HandshakeOk v sid) = ''HandshakeOk { daemon_version: '' @ show_nat (unat v) @ '', session_id: ''
     @ show_nat (unat sid) @ '' }''"
| "debug_response RoutingEnabled = ''RoutingEnabled''"
| "debug_response RoutingDisabled = ''RoutingDisabled''"
| "debug_response (HeartbeatAck n) = ''HeartbeatAck { sequence: '' @ show_nat (unat n) @ '' }''"
| "debug_response (State b) = ''State { routing_active: '' @ (if b then ''true'' else ''false'') @ '' }''"
| "debug_response (ErrorReply m) = ''Error('' @ m @ '')''"

text \<open>What arrives is appended to the unread bytes of the stream before the reply is read.\<close>

definition arrive :: "call_env \<Rightarrow> netd_stream \<Rightarrow> netd_stream" where
  "arrive env st = st\<lparr>ns_in := ns_in st @ ca_arrive env\<rparr>"

definition send_locked :: "bincode \<Rightarrow> call_env \<Rightarrow> netd_request \<Rightarrow> netd_client \<Rightarrow> netd_response res \<times> netd_client" where
  "send_locked bc env request c =
     (case nc_stream c of None \<Rightarrow> (Err ''netd connection is closed'', c)
      | Some st \<Rightarrow>
        (case ca_ready env of Inl e \<Rightarrow> (Err e, c)
         | Inr _ \<Rightarrow>
           (case write_frame bc env request st of
              (Inl e, st) \<Rightarrow> (Err ''send request'', c\<lparr>nc_stream := Some st\<rparr>)
            | (Inr _, st) \<Rightarrow>
                (case read_netd_response bc (arrive env st) of
                   (r, st) \<Rightarrow> (map_err (\<lambda>_. ''read response'') r, c\<lparr>nc_stream := Some st\<rparr>)))))"

definition handshake :: "bincode \<Rightarrow> netd_stream res \<Rightarrow> call_env \<Rightarrow> u32 \<Rightarrow> (netd_stream \<times> u64) res" where
  "handshake bc conn env version =
     try_then conn (\<lambda>st. try_then (ca_ready env) (\<lambda>_.
     (case write_frame bc env (Handshake version) st of
        (Inl e, st) \<Rightarrow> Err e
      | (Inr _, st) \<Rightarrow>
          (case read_netd_response bc (arrive env st) of
             (Inl e, st) \<Rightarrow> Err e
           | (Inr (HandshakeOk v session_id), st) \<Rightarrow> Ok (st, session_id)
           | (Inr (ErrorReply message), st) \<Rightarrow> Err (''netd rejected handshake: '' @ message)
           | (Inr other, st) \<Rightarrow> Err (''unexpected handshake reply: '' @ debug_response other)))))"

text \<open>The loop of \<open>reconnect\<close>; \<open>conns path n\<close> is what the attempt \<open>n\<close> meets.\<close>

fun handshake_loop :: "bincode \<Rightarrow> (nat \<Rightarrow> netd_stream res \<times> call_env) \<Rightarrow> u32 \<Rightarrow> nat \<Rightarrow> nat \<Rightarrow> (netd_stream \<times> u64) res" where
  "handshake_loop bc conns version attempt 0 = Err ''reconnect + handshake failed''"
| "handshake_loop bc conns version attempt (Suc left) =
     (case handshake bc (fst (conns attempt)) (snd (conns attempt)) version of
        Inr h \<Rightarrow> Ok h
      | Inl e \<Rightarrow> handshake_loop bc conns version (attempt + 1) left)"

definition reconnect :: "bincode \<Rightarrow> (string \<Rightarrow> nat \<Rightarrow> netd_stream res \<times> call_env) \<Rightarrow> netd_client \<Rightarrow> unit res \<times> netd_client" where
  "reconnect bc conns c =
     (case handshake_loop bc (conns (nc_socket_path c)) (nc_version c) 0 3 of
        Inl e \<Rightarrow> (Err e, c)
      | Inr (st, session_id) \<Rightarrow> (Ok (), c\<lparr>nc_stream := Some st, nc_session_id := session_id\<rparr>))"

definition NetdClient_new :: "bincode \<Rightarrow> (string \<Rightarrow> nat \<Rightarrow> netd_stream res \<times> call_env) \<Rightarrow> string \<Rightarrow> u32 \<Rightarrow> netd_client res" where
  "NetdClient_new bc conns socket_path version =
     (case reconnect bc conns \<lparr>nc_socket_path = socket_path, nc_version = version, nc_stream = None, nc_session_id = 0, nc_sequence = 0\<rparr> of
        (Inl e, c) \<Rightarrow> Err e | (Inr _, c) \<Rightarrow> Ok c)"

definition request_of :: "routing_spec \<Rightarrow> enable_request" where
  "request_of spec = \<lparr>rq_tproxy_port = rs_tproxy_port spec, rq_proxy_fwmark = rs_fwmark spec,
     rq_table_id = rs_table_id spec, rq_dns_ipv4 = rs_dns_ipv4 spec, rq_bypass_subnets = rs_bypass_subnets spec,
     rq_bypass_subnets_v6 = rs_bypass_subnets_v6 spec, rq_core_uid = rs_core_uid spec\<rparr>"

definition enable_routing :: "bincode \<Rightarrow> call_env \<Rightarrow> routing_spec \<Rightarrow> netd_client \<Rightarrow> unit res \<times> netd_client" where
  "enable_routing bc env spec c =
     (case send_locked bc env (EnableRouting (nc_session_id c) (request_of spec)) c of
        (Inr RoutingEnabled, c) \<Rightarrow> (Ok (), c)
      | (Inr (ErrorReply message), c) \<Rightarrow> (Err (''netd: '' @ message), c)
      | (Inr other, c) \<Rightarrow> (Err (''unexpected netd reply to EnableRouting: '' @ debug_response other), c)
      | (Inl e, c) \<Rightarrow> (Err ''netd enable_routing'', c))"

definition disable_routing :: "bincode \<Rightarrow> call_env \<Rightarrow> netd_client \<Rightarrow> unit res \<times> netd_client" where
  "disable_routing bc env c =
     (case send_locked bc env (DisableRouting (nc_session_id c)) c of
        (Inr RoutingDisabled, c) \<Rightarrow> (Ok (), c)
      | (Inr (ErrorReply message), c) \<Rightarrow> (Err (''netd: '' @ message), c)
      | (Inr other, c) \<Rightarrow> (Err (''unexpected netd reply to DisableRouting: '' @ debug_response other), c)
      | (Inl e, c) \<Rightarrow> (Err ''netd disable_routing'', c))"

definition heartbeat :: "bincode \<Rightarrow> call_env \<Rightarrow> netd_client \<Rightarrow> u64 res \<times> netd_client" where
  "heartbeat bc env c =
     (case send_locked bc env (Heartbeat (nc_session_id c) (nc_sequence c)) c of
        (Inr reply, c) \<Rightarrow>
          (let c = c\<lparr>nc_sequence := nc_sequence c + 1\<rparr> in
           case reply of
             HeartbeatAck acked \<Rightarrow> (Ok acked, c)
           | ErrorReply message \<Rightarrow> (Err (''netd: '' @ message), c)
           | other \<Rightarrow> (Err (''unexpected netd reply to Heartbeat: '' @ debug_response other), c))
      | (Inl e, c) \<Rightarrow> (Err ''netd heartbeat'', c))"

text \<open>One round of the thread of \<open>start_heartbeat\<close>.\<close>

definition heartbeat_round :: "bincode \<Rightarrow> call_env \<Rightarrow> (string \<Rightarrow> nat \<Rightarrow> netd_stream res \<times> call_env) \<Rightarrow> netd_client \<Rightarrow> netd_client" where
  "heartbeat_round bc env conns c =
     (case heartbeat bc env c of
        (Inr _, c) \<Rightarrow> c
      | (Inl _, c) \<Rightarrow> snd (reconnect bc conns c))"

section \<open>Frames are read back\<close>

lemma length_to_be_bytes [simp]: "length (to_be_bytes n) = 4"
  by (simp add: to_be_bytes_def)

lemma digit_split: "(n::nat) div (k * 256) * 256 + n div k mod 256 = n div k"
  by (simp add: div_mult2_eq)

lemma from_to_be_bytes:
  assumes "n < 2 ^ 32"
  shows "from_be_bytes (to_be_bytes n) = n"
proof -
  have "n div 16777216 mod 256 = n div 16777216" using assms by simp
  hence "from_be_bytes (to_be_bytes n) =
      ((n div 16777216 * 256 + n div 65536 mod 256) * 256 + n div 256 mod 256) * 256 + n mod 256"
    by (simp add: from_be_bytes_def to_be_bytes_def numeral_3_eq_3 numeral_2_eq_2)
  moreover have "n div 16777216 * 256 + n div 65536 mod 256 = n div 65536" "n div 65536 * 256 + n div 256 mod 256 = n div 256"
    using digit_split [of n 65536] digit_split [of n 256] by simp_all
  ultimately show ?thesis by (simp only: div_mult_mod_eq)
qed

definition frame :: "string \<Rightarrow> string" where
  "frame payload = to_be_bytes (length payload) @ payload"

definition frameable :: "string \<Rightarrow> bool" where
  "frameable payload = (payload \<noteq> [] \<and> length payload \<le> MAX_FRAME_BYTES)"

lemma read_frame:
  assumes "frameable p" "ns_in st = frame p @ rest"
  shows "read_netd_response bc st =
    (map_err (\<lambda>_. ''invalid netd response payload'') (bc_response bc p), st\<lparr>ns_in := rest\<rparr>)"
proof -
  have "length p < 2 ^ 32" using assms(1) by (simp add: frameable_def MAX_FRAME_BYTES_def)
  thus ?thesis using assms
    by (auto simp: read_netd_response_def read_exact_stream_def frame_def frameable_def from_to_be_bytes Let_def)
qed

lemma read_nothing: "ns_in st = [] \<Longrightarrow> read_netd_response bc st = (Err ''Resource temporarily unavailable'', st)"
  by (cases st) (simp add: read_netd_response_def read_exact_stream_def)

lemma write_frame_Ok:
  assumes "bc_request bc rq = Ok p" "length p \<le> MAX_FRAME_BYTES" "ca_cut env = None"
  shows "write_frame bc env rq st = (Ok (), st\<lparr>ns_out := ns_out st @ frame p\<rparr>)"
  using assms by (simp add: write_frame_def frame_def)

text \<open>A call whose frame goes out and in which \<open>arriving\<close> comes in.\<close>

definition answered :: "string \<Rightarrow> call_env" where
  "answered arriving = \<lparr>ca_ready = Ok (), ca_cut = None, ca_arrive = arriving\<rparr>"

text \<open>The payload of a request, when it serializes to a frame that may be sent.\<close>

definition sendable :: "bincode \<Rightarrow> netd_request \<Rightarrow> string option" where
  "sendable bc rq = (case bc_request bc rq of Inl e \<Rightarrow> None | Inr q \<Rightarrow> if MAX_FRAME_BYTES < length q then None else Some q)"

lemma sendable_Some: "sendable bc rq = Some q \<longleftrightarrow> bc_request bc rq = Ok q \<and> length q \<le> MAX_FRAME_BYTES"
  by (auto simp: sendable_def split: sum.splits)

lemma sendable_None: "sendable bc rq = None \<longleftrightarrow> (\<forall>q. bc_request bc rq = Ok q \<longrightarrow> MAX_FRAME_BYTES < length q)"
  by (auto simp: sendable_def split: sum.splits)

lemma send_locked_answered:
  assumes "sendable bc rq = Some q" "nc_stream c = Some st" "frameable p" "ns_in st @ arriving = frame p @ rest"
  shows "send_locked bc (answered arriving) rq c =
    (map_err (\<lambda>_. ''read response'') (bc_response bc p), c\<lparr>nc_stream := Some \<lparr>ns_in = rest, ns_out = ns_out st @ frame q\<rparr>\<rparr>)"
proof -
  have q: "bc_request bc rq = Ok q" "length q \<le> MAX_FRAME_BYTES" using assms(1) by (simp_all add: sendable_Some)
  let ?st = "arrive (answered arriving) (st\<lparr>ns_out := ns_out st @ frame q\<rparr>)"
  have "ns_in ?st = frame p @ rest" using assms(4) by (simp add: arrive_def answered_def)
  note rd = read_frame [OF assms(3) this, of bc]
  have "write_frame bc (answered arriving) rq st = (Ok (), st\<lparr>ns_out := ns_out st @ frame q\<rparr>)"
    by (rule write_frame_Ok [OF q]) (simp add: answered_def)
  thus ?thesis
    using assms(2) rd by (cases st; cases "bc_response bc p") (simp_all add: send_locked_def answered_def arrive_def)
qed

lemma send_locked_unsendable:
  assumes "sendable bc rq = None" "nc_stream c = Some st"
  shows "send_locked bc (answered arriving) rq c = (Err ''send request'', c)"
proof (cases "bc_request bc rq")
  case (Inl e)
  thus ?thesis using assms(2) by (simp add: send_locked_def answered_def write_frame_def)
next
  case (Inr q)
  hence "MAX_FRAME_BYTES < length q" using assms(1) by (simp add: sendable_None)
  thus ?thesis using assms(2) Inr by (simp add: send_locked_def answered_def write_frame_def)
qed

lemma send_locked_silent:
  assumes "sendable bc rq = Some q" "nc_stream c = Some st" "ns_in st = []"
  shows "send_locked bc (answered []) rq c =
    (Err ''read response'', c\<lparr>nc_stream := Some \<lparr>ns_in = [], ns_out = ns_out st @ frame q\<rparr>\<rparr>)"
proof -
  have q: "bc_request bc rq = Ok q" "length q \<le> MAX_FRAME_BYTES" using assms(1) by (simp_all add: sendable_Some)
  have "write_frame bc (answered []) rq st = (Ok (), st\<lparr>ns_out := ns_out st @ frame q\<rparr>)"
    by (rule write_frame_Ok [OF q]) (simp add: answered_def)
  thus ?thesis
    using assms(2,3) by (cases st) (simp add: send_locked_def answered_def arrive_def read_nothing)
qed

text \<open>
  What one call did with its request: a request that cannot be sent leaves the client as it was; one that can is written as one
  frame behind what was written before, and the reply is all that was read.
\<close>

definition one_exchange :: "bincode \<Rightarrow> netd_request \<Rightarrow> netd_stream \<Rightarrow> netd_client \<Rightarrow> netd_client \<Rightarrow> bool" where
  "one_exchange bc rq st c c' =
     (case sendable bc rq of
        None \<Rightarrow> c' = c
      | Some q \<Rightarrow> nc_stream c' = Some \<lparr>ns_in = [], ns_out = ns_out st @ frame q\<rparr> \<and> nc_session_id c' = nc_session_id c)"

text \<open>Claim C14: the client reads exactly one reply per request.  On a connection with no unread bytes, when
  the frame of the daemon's reply arrives in time, each of the three requests succeeds exactly when its frame could be sent and
  the reply is the one it asks for; it writes exactly its own frame and leaves nothing unread, or, when the request does not
  serialize or is too large for a frame, fails without touching the connection; and the sequence number of a heartbeat
  advances exactly when it was sent, whatever the reply was.\<close>

theorem one_reply_per_request:
  assumes "nc_stream c = Some st" "ns_in st = []" "frameable p" "bc_response bc p = Ok reply"
    and "enable_routing bc (answered (frame p)) spec c = (r1, c1)" "disable_routing bc (answered (frame p)) c = (r2, c2)"
    and "heartbeat bc (answered (frame p)) c = (r3, c3)"
  shows "(r1 = Ok () \<longleftrightarrow> sendable bc (EnableRouting (nc_session_id c) (request_of spec)) \<noteq> None \<and> reply = RoutingEnabled) \<and>
    (r2 = Ok () \<longleftrightarrow> sendable bc (DisableRouting (nc_session_id c)) \<noteq> None \<and> reply = RoutingDisabled) \<and>
    (r3 = Ok n \<longleftrightarrow> sendable bc (Heartbeat (nc_session_id c) (nc_sequence c)) \<noteq> None \<and> reply = HeartbeatAck n) \<and>
    one_exchange bc (EnableRouting (nc_session_id c) (request_of spec)) st c c1 \<and>
    one_exchange bc (DisableRouting (nc_session_id c)) st c c2 \<and>
    one_exchange bc (Heartbeat (nc_session_id c) (nc_sequence c)) st c c3 \<and>
    nc_sequence c1 = nc_sequence c \<and> nc_sequence c2 = nc_sequence c \<and>
    nc_sequence c3 = (if sendable bc (Heartbeat (nc_session_id c) (nc_sequence c)) = None then nc_sequence c else nc_sequence c + 1)"
proof -
  have snt: "send_locked bc (answered (frame p)) rq c =
      (case sendable bc rq of None \<Rightarrow> (Err ''send request'', c)
       | Some q \<Rightarrow> (Ok reply, c\<lparr>nc_stream := Some \<lparr>ns_in = [], ns_out = ns_out st @ frame q\<rparr>\<rparr>))" for rq
    using send_locked_answered [OF _ assms(1,3), of bc rq _ "frame p" "[]"] send_locked_unsendable [OF _ assms(1), of bc rq "frame p"]
      assms(2,4) by (auto split: option.splits)
  show ?thesis using assms(5,6,7)
    by (cases reply) (auto simp: enable_routing_def disable_routing_def heartbeat_def snt one_exchange_def split: option.splits)
qed

text \<open>A codec with one byte for each reply, whose requests are as long as the subnets they list.\<close>

definition sample_bincode :: bincode where
  "sample_bincode = \<lparr>bc_request = (\<lambda>rq. case rq of
       EnableRouting sid r \<Rightarrow> Ok (CHR ''q'' # concat (rq_bypass_subnets r) @ concat (rq_bypass_subnets_v6 r)) | _ \<Rightarrow> Ok ''q''),
     bc_response = (\<lambda>s. if s = ''e'' then Ok RoutingEnabled else if s = ''h'' then Ok (HeartbeatAck 9)
       else Ok (ErrorReply s))\<rparr>"

definition sample_client :: netd_client where
  "sample_client = \<lparr>nc_socket_path = ''s'', nc_version = 1, nc_stream = Some \<lparr>ns_in = [], ns_out = []\<rparr>, nc_session_id = 3, nc_sequence = 9\<rparr>"

definition sample_spec :: routing_spec where
  "sample_spec = \<lparr>rs_tproxy_port = 12345, rs_fwmark = 1, rs_table_id = 100, rs_dns_ipv4 = None,
     rs_bypass_subnets = [], rs_bypass_subnets_v6 = [], rs_core_uid = None\<rparr>"

definition large_spec :: routing_spec where
  "large_spec = sample_spec\<lparr>rs_bypass_subnets := [replicate MAX_FRAME_BYTES CHR ''0'']\<rparr>"

lemma sample_sendable:
  "sendable sample_bincode (EnableRouting sid (request_of sample_spec)) = Some ''q''"
  "sendable sample_bincode (EnableRouting sid (request_of large_spec)) = None"
  "sendable sample_bincode (Heartbeat sid n) = Some ''q''"
  by (simp_all add: sendable_def sample_bincode_def request_of_def sample_spec_def large_spec_def MAX_FRAME_BYTES_def)

lemma sample_frameable: "frameable ''e''" "frameable ''x''" "frameable ''h''"
  by (simp_all add: frameable_def MAX_FRAME_BYTES_def)

theorem one_reply_per_request_witness:
  "fst (enable_routing sample_bincode (answered (frame ''e'')) sample_spec sample_client) = Ok () \<and>
   snd (enable_routing sample_bincode (answered (frame ''e'')) large_spec sample_client) = sample_client \<and>
   fst (heartbeat sample_bincode (answered (frame ''h'')) sample_client) = Ok 9 \<and>
   nc_sequence (snd (heartbeat sample_bincode (answered (frame ''h'')) sample_client)) = 10"
proof -
  have st: "nc_stream sample_client = Some \<lparr>ns_in = [], ns_out = []\<rparr>" "nc_sequence sample_client = 9" by (simp_all add: sample_client_def)
  have de: "bc_response sample_bincode ''e'' = Ok RoutingEnabled" "bc_response sample_bincode ''h'' = Ok (HeartbeatAck 9)"
    by (simp_all add: sample_bincode_def)
  let ?e = "answered (frame ''e'')" and ?h = "answered (frame ''h'')"
  note one = one_reply_per_request [OF st(1) _ _ _ prod.collapse [symmetric] prod.collapse [symmetric] prod.collapse [symmetric], simplified]
  show ?thesis
    using one [OF sample_frameable(1) de(1), of sample_spec] one [OF sample_frameable(1) de(1), of large_spec]
      one [OF sample_frameable(3) de(2), of sample_spec] st(2)
    by (simp add: sample_sendable one_exchange_def)
qed

text \<open>A reply that comes too late is taken for the answer to the next request.  The client keeps the
  stream after a read that timed out; when the reply to the first \<open>EnableRouting\<close> arrives during the second,
  the second returns \<open>Ok\<close> although the daemon refuses it, and the refusal is left unread.\<close>

theorem late_reply_answers_next_request:
  assumes "sendable bc (EnableRouting (nc_session_id c) (request_of spec)) \<noteq> None"
    and "sendable bc (EnableRouting (nc_session_id c) (request_of spec2)) \<noteq> None"
    and "nc_stream c = Some st" "ns_in st = []"
    and "frameable p" "bc_response bc p = Ok RoutingEnabled" "frameable q" "bc_response bc q = Ok (ErrorReply m)"
  shows "\<exists>c1 c2. enable_routing bc (answered []) spec c = (Err ''netd enable_routing'', c1) \<and>
    enable_routing bc (answered (frame p @ frame q)) spec2 c1 = (Ok (), c2) \<and>
    map_option ns_in (nc_stream c2) = Some (frame q)"
proof -
  obtain x y where xy: "sendable bc (EnableRouting (nc_session_id c) (request_of spec)) = Some x"
    "sendable bc (EnableRouting (nc_session_id c) (request_of spec2)) = Some y" using assms(1,2) by blast
  note s1 = send_locked_silent [OF xy(1) assms(3,4)]
  let ?c1 = "c\<lparr>nc_stream := Some \<lparr>ns_in = [], ns_out = ns_out st @ frame x\<rparr>\<rparr>"
  have "sendable bc (EnableRouting (nc_session_id ?c1) (request_of spec2)) = Some y" using xy(2) by simp
  note s2 = send_locked_answered [where c = ?c1 and st = "\<lparr>ns_in = [], ns_out = ns_out st @ frame x\<rparr>" and p = p
      and arriving = "frame p @ frame q" and rest = "frame q", OF this _ assms(5), simplified]
  have "enable_routing bc (answered []) spec c = (Err ''netd enable_routing'', ?c1)"
    by (simp add: enable_routing_def s1)
  moreover have "\<exists>c2. enable_routing bc (answered (frame p @ frame q)) spec2 ?c1 = (Ok (), c2) \<and>
      map_option ns_in (nc_stream c2) = Some (frame q)"
    using s2 assms(6) by (simp add: enable_routing_def)
  ultimately show ?thesis by blast
qed

theorem late_reply_answers_next_request_witness:
  "\<exists>c1 c2. enable_routing sample_bincode (answered []) sample_spec sample_client = (Err ''netd enable_routing'', c1) \<and>
    enable_routing sample_bincode (answered (frame ''e'' @ frame ''x'')) sample_spec c1 = (Ok (), c2) \<and>
    map_option ns_in (nc_stream c2) = Some (frame ''x'')"
  by (rule late_reply_answers_next_request [of _ _ _ _ "\<lparr>ns_in = [], ns_out = []\<rparr>" _ "''x''"])
     (simp_all add: sample_sendable sample_frameable, simp_all add: sample_client_def sample_bincode_def)

section \<open>Reconnecting\<close>

lemma reconnect_Err: "reconnect bc conns c = (Err e, c') \<Longrightarrow> c' = c"
  by (auto simp: reconnect_def split: sum.splits)

lemma reconnect_sequence: "nc_sequence (snd (reconnect bc conns c)) = nc_sequence c"
  by (auto simp: reconnect_def split: sum.splits)

end
