(* ===== verification/Controller.thy ===== *)
theory Controller
  imports Failover Shortlist Supervisor Netd_Client
begin

text \<open>
  The session orchestrator, \<open>ProxyController\<close> of \<open>crates/controller/src/proxy_controller.rs\<close>, lines 32 to 420, and the
  production wiring of the failover engine, \<open>FailoverHooks::real\<close>.  The state of a controller holds the states of its
  parts: the supervisor with the world it acts on, the client of the daemon, the settings, the
  fields behind mutexes, the rows of the node table, and a tick that counts the calls that leave the
  program.  \<open>ctl_env\<close> is everything outside, each part as in the theory of its component; it may
  answer differently at every tick.
\<close>

section \<open>Settings\<close>

record proxy_settings =
  ps_tproxy_port :: u16
  ps_fwmark :: u32
  ps_table_id :: u32
  ps_dns_provider :: dns_provider
  ps_dns_ipv4 :: "ipv4 option"
  ps_core_uid :: "u32 option"
  ps_bypass_subnets :: "string list"
  ps_bypass_subnets_v6 :: "string list"
  ps_local_dns :: "local_dns option"
  ps_egress_real_count :: nat
  ps_egress_timeout :: duration
  ps_egress_min_verified :: nat

definition SINGLE_FW_MARK :: u32 where "SINGLE_FW_MARK = 1"

text \<open>The argument is the contents of \<open>/proc/net/route\<close>, when it can be read.\<close>

definition default_gateway_v4 :: "string option \<Rightarrow> ipv4 option" where
  "default_gateway_v4 route = Option.bind route parse_route_table"

definition ProxySettings_default :: "string option \<Rightarrow> proxy_settings" where
  "ProxySettings_default route = \<lparr>ps_tproxy_port = 12345, ps_fwmark = SINGLE_FW_MARK, ps_table_id = 100,
     ps_dns_provider = Cloudflare, ps_dns_ipv4 = Some 0x01010101, ps_core_uid = None,
     ps_bypass_subnets = [''10.0.0.0/8'', ''172.16.0.0/12'', ''192.168.0.0/16''],
     ps_bypass_subnets_v6 = [''fc00::/7''],
     ps_local_dns = map_option (\<lambda>ip. \<lparr>ld_ipv4 = ip, ld_port = 53\<rparr>) (default_gateway_v4 route),
     ps_egress_real_count = 2, ps_egress_timeout = from_secs 10, ps_egress_min_verified = 2\<rparr>"

definition settings_scatter_config :: "proxy_settings \<Rightarrow> scatter_config" where
  "settings_scatter_config ps = ScatterConfig_default\<lparr>sc_real_count := ps_egress_real_count ps,
     sc_min_verified := ps_egress_min_verified ps, sc_timeout := ps_egress_timeout ps\<rparr>"

definition settings_spec :: "proxy_settings \<Rightarrow> routing_spec" where
  "settings_spec ps = \<lparr>rs_tproxy_port = ps_tproxy_port ps, rs_fwmark = ps_fwmark ps, rs_table_id = ps_table_id ps,
     rs_dns_ipv4 = ps_dns_ipv4 ps, rs_bypass_subnets = ps_bypass_subnets ps,
     rs_bypass_subnets_v6 = ps_bypass_subnets_v6 ps, rs_core_uid = ps_core_uid ps\<rparr>"

section \<open>The controller\<close>

record proxy_controller =
  pr_supervisor :: supervisor
  pr_core :: core_world
  pr_netd :: "netd_client option"
  pr_settings :: proxy_settings
  pr_active_node :: "canonical_node option"
  pr_last_auto_switch :: "instant option"
  pr_last_manual_switch :: "instant option"
  pr_degraded :: bool
  pr_rows :: "(int \<times> string) list res"
  pr_tick :: nat

record ctl_env =
  ev_core :: core_env
  ev_bincode :: bincode
  ev_call :: "nat \<Rightarrow> call_env"
  ev_show_uuid :: "uuid \<Rightarrow> string"
  ev_render :: "json \<Rightarrow> string res"
  ev_decode :: "string \<Rightarrow> canonical_node res"
  ev_now :: "nat \<Rightarrow> instant"
  ev_utc_secs :: "nat \<Rightarrow> nat"
  ev_trial :: "nat \<Rightarrow> nat \<Rightarrow> trial_env"
  ev_sweep :: "nat \<Rightarrow> sweep_env"
  ev_lookup :: "string \<Rightarrow> u16 \<Rightarrow> socket_addr list res"
  ev_tcp_info :: "nat \<Rightarrow> socket_addr \<Rightarrow> tcp_stats list res"

definition step_tick :: "proxy_controller \<Rightarrow> proxy_controller" where
  "step_tick c = c\<lparr>pr_tick := pr_tick c + 1\<rparr>"

definition controller_open ::
    "ctl_env \<Rightarrow> (string \<Rightarrow> nat \<Rightarrow> netd_stream res \<times> call_env) \<Rightarrow> (int \<times> string) list res \<Rightarrow> core_world \<Rightarrow> string \<Rightarrow> string \<Rightarrow>
      proxy_settings \<Rightarrow> proxy_controller" where
  "controller_open env conns rows core binary config_path settings =
     \<lparr>pr_supervisor = Supervisor_new binary config_path, pr_core = core,
      pr_netd = ok (NetdClient_new (ev_bincode env) conns ''/run/myproxy/netd.sock'' PROTOCOL_VERSION),
      pr_settings = settings, pr_active_node = None, pr_last_auto_switch = None, pr_last_manual_switch = None,
      pr_degraded = False, pr_rows = rows, pr_tick = 0\<rparr>"

definition set_settings :: "proxy_settings \<Rightarrow> proxy_controller \<Rightarrow> proxy_controller" where
  "set_settings ps c = c\<lparr>pr_settings := ps\<rparr>"

definition decode_row :: "ctl_env \<Rightarrow> int \<times> string \<Rightarrow> (u32 \<times> canonical_node) res" where
  "decode_row env row =
     (case ev_decode env (snd row) of
        Inl e \<Rightarrow> Err (''corrupt node payload for id '' @ show_nat (unat (word_of_int (fst row) :: u32)))
      | Inr node \<Rightarrow> Ok (word_of_int (fst row), node))"

definition load_probe_targets :: "ctl_env \<Rightarrow> proxy_controller \<Rightarrow> (u32 \<times> canonical_node) list res" where
  "load_probe_targets env c = try_then (pr_rows c) (try_map (decode_row env))"

definition switch_node :: "ctl_env \<Rightarrow> canonical_node \<Rightarrow> bool \<Rightarrow> proxy_controller \<Rightarrow> string res \<times> proxy_controller" where
  "switch_node env node automatic c =
     (let settings = pr_settings c in
      case try_then (compile_full_config (ev_show_uuid env) node (ps_tproxy_port settings) (ps_fwmark settings)
             (ps_dns_provider settings) (ps_local_dns settings)) (ev_render env) of
        Inl e \<Rightarrow> (Err e, c)
      | Inr rendered \<Rightarrow>
          (case apply_config (ev_core env) rendered (pr_supervisor c) (pr_core c) of
             (Inl e, sv, w) \<Rightarrow> (Err ''apply core config'', c\<lparr>pr_supervisor := sv, pr_core := w\<rparr>)
           | (Inr _, sv, w) \<Rightarrow>
               (let c = c\<lparr>pr_supervisor := sv, pr_core := w\<rparr> in
                case (case pr_netd c of
                        None \<Rightarrow> (Ok (), c)
                      | Some netd \<Rightarrow>
                          (case enable_routing (ev_bincode env) (ev_call env (pr_tick c)) (settings_spec settings) netd of
                             (r, netd) \<Rightarrow> (r, step_tick (c\<lparr>pr_netd := Some netd\<rparr>)))) of
                  (Inl e, c) \<Rightarrow> (Err ''netd enable routing'', c)
                | (Inr _, c) \<Rightarrow>
                    (let now = ev_now env (pr_tick c);
                         c = c\<lparr>pr_active_node := Some node\<rparr>;
                         c = (if automatic then c\<lparr>pr_last_auto_switch := Some now\<rparr> else c\<lparr>pr_last_manual_switch := Some now\<rparr>)
                     in (Ok (''switched to '' @ nm_label (cn_meta node)), step_tick (c\<lparr>pr_degraded := False\<rparr>))))))"

text \<open>The steps \<open>stop\<close> and \<open>degrade_to_direct\<close> share.\<close>

definition tear_down :: "ctl_env \<Rightarrow> proxy_controller \<Rightarrow> unit res \<times> proxy_controller" where
  "tear_down env c =
     (let c = (case pr_netd c of
                 None \<Rightarrow> c
               | Some netd \<Rightarrow>
                   step_tick (c\<lparr>pr_netd := Some (snd (disable_routing (ev_bincode env) (ev_call env (pr_tick c)) netd))\<rparr>))
      in case Supervisor_stop (ev_core env) (pr_supervisor c) (pr_core c) of
           (r, sv, w) \<Rightarrow> (r, c\<lparr>pr_supervisor := sv, pr_core := w, pr_active_node := None\<rparr>))"

definition controller_stop :: "ctl_env \<Rightarrow> proxy_controller \<Rightarrow> unit res \<times> proxy_controller" where
  "controller_stop env c = tear_down env c"

definition degrade_to_direct :: "ctl_env \<Rightarrow> proxy_controller \<Rightarrow> proxy_controller" where
  "degrade_to_direct env c = (snd (tear_down env c))\<lparr>pr_degraded := True\<rparr>"

definition last_switch :: "proxy_controller \<Rightarrow> instant option" where
  "last_switch c = or_opt (pr_last_manual_switch c) (pr_last_auto_switch c)"

definition note_manual_switch :: "ctl_env \<Rightarrow> proxy_controller \<Rightarrow> proxy_controller" where
  "note_manual_switch env c = step_tick (c\<lparr>pr_last_manual_switch := Some (ev_now env (pr_tick c))\<rparr>)"

definition note_auto_switch :: "ctl_env \<Rightarrow> proxy_controller \<Rightarrow> proxy_controller" where
  "note_auto_switch env c = step_tick (c\<lparr>pr_last_auto_switch := Some (ev_now env (pr_tick c))\<rparr>)"

section \<open>The production hooks\<close>

text \<open>A trial that panics or does not end has no result; the hooks show it as an error.\<close>

definition returned :: "'a res option \<Rightarrow> 'a res" where
  "returned r = unwrap_or (Err ''no result'') r"

definition verify_node_egress :: "ctl_env \<Rightarrow> canonical_node \<Rightarrow> scatter_config \<Rightarrow> proxy_controller \<Rightarrow> scatter_report res \<times> proxy_controller" where
  "verify_node_egress env node cfg c =
     (returned (test_egress_scatter (ev_show_uuid env) (ev_trial env (pr_tick c) 0) (sv_binary (pr_supervisor c)) node cfg),
      step_tick c)"

definition verify_local_egress :: "ctl_env \<Rightarrow> scatter_config \<Rightarrow> proxy_controller \<Rightarrow> scatter_report res \<times> proxy_controller" where
  "verify_local_egress env cfg c =
     (returned (test_local_egress_scatter (ev_trial env (pr_tick c) 0) (sv_binary (pr_supervisor c)) cfg), step_tick c)"

definition real_rescore ::
    "ctl_env \<Rightarrow> canonical_node list \<Rightarrow> scatter_config \<Rightarrow> nat \<Rightarrow> proxy_controller \<Rightarrow> candidate_score list res \<times> proxy_controller" where
  "real_rescore env candidates cfg limit c =
     (returned (map_option Ok (tiered_shortlist (ev_show_uuid env) (ev_sweep env (pr_tick c)) (ev_trial env (pr_tick c))
        (sv_binary (pr_supervisor c)) candidates PreflightConfig_default cfg limit)), step_tick c)"

definition real_hooks :: "ctl_env \<Rightarrow> proxy_controller hooks" where
  "real_hooks env = \<lparr>hk_probe = verify_node_egress env, hk_rescore = real_rescore env,
     hk_switch_node = switch_node env, hk_degrade = degrade_to_direct env,
     hk_tunnel_health = Some (\<lambda>node c.
       (tunnel_health_of (ev_lookup env) (ev_tcp_info env (pr_tick c)) node HealthThresholds_default, step_tick c))\<rparr>"

definition real_controller :: "ctl_env \<Rightarrow> proxy_controller controller" where
  "real_controller env = \<lparr>ct_scatter_config = (\<lambda>c. settings_scatter_config (pr_settings c)),
     ct_active_node = pr_active_node, ct_is_degraded = pr_degraded,
     ct_last_manual_switch = pr_last_manual_switch, ct_last_auto_switch = pr_last_auto_switch,
     ct_load_probe_targets = load_probe_targets env,
     ct_now = (\<lambda>c. ev_now env (pr_tick c)), ct_utc_secs = (\<lambda>c. ev_utc_secs env (pr_tick c))\<rparr>"

section \<open>The hooks keep their contracts\<close>

text \<open>Everything of a controller but its tick.\<close>

definition session_of :: "proxy_controller \<Rightarrow> proxy_controller" where
  "session_of c = c\<lparr>pr_tick := 0\<rparr>"

lemma step_tick_fields [simp]:
  "pr_supervisor (step_tick c) = pr_supervisor c" "pr_core (step_tick c) = pr_core c" "pr_netd (step_tick c) = pr_netd c"
  "pr_settings (step_tick c) = pr_settings c" "pr_active_node (step_tick c) = pr_active_node c"
  "pr_last_auto_switch (step_tick c) = pr_last_auto_switch c" "pr_last_manual_switch (step_tick c) = pr_last_manual_switch c"
  "pr_degraded (step_tick c) = pr_degraded c" "pr_rows (step_tick c) = pr_rows c" "session_of (step_tick c) = session_of c"
  by (simp_all add: step_tick_def session_of_def)

interpretation looking: observing_hooks "real_hooks env" "\<lambda>c. session_of c = x" for env x
  by unfold_locales (auto simp: real_hooks_def verify_node_egress_def real_rescore_def)

lemma returned_Ok_iff: "returned r = Inr x \<longleftrightarrow> r = Some (Inr x)"
  by (cases r) (simp_all add: returned_def)

interpretation scoring: catalog_hooks "real_hooks env" for env
  by unfold_locales (auto simp: real_hooks_def real_rescore_def returned_Ok_iff dest: tiered_in_range)

text \<open>The invariant of a controller: the only core is the child of its supervisor, a degraded controller has no active node,
  and a controller with an active node has a core.\<close>

definition controller_ok :: "ctl_env \<Rightarrow> proxy_controller \<Rightarrow> bool" where
  "controller_ok env c \<longleftrightarrow> cores_owned (pr_supervisor c) (pr_core c) \<and>
     (pr_degraded c \<longrightarrow> pr_active_node c = None) \<and>
     (pr_active_node c \<noteq> None \<longrightarrow> is_running (pr_supervisor c))"

lemma apply_config_Ok_running:
  assumes "apply_config env c s w = (Inr u, s', w')"
  shows "is_running s'"
proof -
  obtain previous w0 where rd: "fs_read env w = (previous, w0)" by fastforce
  obtain r1 w1 where wr: "fs_write env c w0 = (r1, w1)" by fastforce
  obtain ra sa wa where app: "applying env s w1 = (ra, sa, wa)" by (metis prod_cases3)
  have "applying env s w1 = (Inr (), s', w')"
    using assms app by (auto simp: apply_config_def rd wr split: sum.splits if_splits option.splits prod.splits)
  then show ?thesis
    by (auto simp: applying_def Supervisor_start_def is_running_def split: prod.splits sum.splits if_splits)
qed

lemma applying_Err_child: "applying env s w = (Inl e, s', w') \<Longrightarrow> s' = s"
  by (auto simp: applying_def Supervisor_start_def split: prod.splits sum.splits if_splits)

lemma apply_config_Err_child: "apply_config env c s w = (Inl e, s', w') \<Longrightarrow> s' = s"
  by (auto simp: apply_config_def is_ok_iff dest: applying_Err_child split: prod.splits sum.splits if_splits option.splits)

lemma compile_full_config_server: "compile_full_config su node port mark dp local = Inr cfg \<Longrightarrow> server_ok node"
  by (rule compile_outbound_cases [of su node]) (simp_all add: compile_full_config_cases)

text \<open>A switch on every branch: what it changes, and what it leaves.\<close>

lemma switch_node_cases:
  assumes "switch_node env node automatic c = (r, c')"
  obtains (refused) e where "r = Inl e" "c' = c"
  | (not_applied) cfg e sv w where "apply_config (ev_core env) cfg (pr_supervisor c) (pr_core c) = (Inl e, sv, w)"
      "r = Inl ''apply core config''" "c' = c\<lparr>pr_supervisor := sv, pr_core := w\<rparr>"
  | (not_routed) cfg u sv w nd nd' e where "apply_config (ev_core env) cfg (pr_supervisor c) (pr_core c) = (Inr u, sv, w)"
      "pr_netd c = Some nd"
      "enable_routing (ev_bincode env) (ev_call env (pr_tick c)) (settings_spec (pr_settings c)) nd = (Inl e, nd')"
      "r = Inl ''netd enable routing''" "c' = step_tick (c\<lparr>pr_supervisor := sv, pr_core := w, pr_netd := Some nd'\<rparr>)"
  | (switched) cfg u sv w nd t where "apply_config (ev_core env) cfg (pr_supervisor c) (pr_core c) = (Inr u, sv, w)"
      "r = Inr (''switched to '' @ nm_label (cn_meta node))" "c' = step_tick (c\<lparr>pr_supervisor := sv, pr_core := w, pr_netd := nd,
        pr_tick := t, pr_active_node := Some node, pr_degraded := False,
        pr_last_auto_switch := (if automatic then Some (ev_now env t) else pr_last_auto_switch c),
        pr_last_manual_switch := (if automatic then pr_last_manual_switch c else Some (ev_now env t))\<rparr>)"
      "server_ok node" "(pr_netd c = None) = (nd = None)"
proof -
  let ?s = "pr_settings c"
  let ?cfg = "compile_full_config (ev_show_uuid env) node (ps_tproxy_port ?s) (ps_fwmark ?s) (ps_dns_provider ?s) (ps_local_dns ?s)"
  show ?thesis
  proof (cases "try_then ?cfg (ev_render env)")
    case (Inl e)
    hence "r = Inl e" "c' = c" using assms by (simp_all add: switch_node_def Let_def)
    thus ?thesis by (rule refused)
  next
    case (Inr rendered)
    have server: "server_ok node"
      using Inr compile_full_config_server by (cases ?cfg) auto
    obtain ra sv w where ap: "apply_config (ev_core env) rendered (pr_supervisor c) (pr_core c) = (ra, sv, w)"
      by (metis prod_cases3)
    show ?thesis
    proof (cases ra)
      case (Inl e)
      thus ?thesis using assms not_applied Inr ap by (auto simp: switch_node_def Let_def)
    next
      case ra: (Inr u)
      show ?thesis
      proof (cases "pr_netd c")
        case None
        show ?thesis
          by (rule switched [OF ap [unfolded ra], of "pr_tick c" None])
             (use assms Inr ap ra None server in \<open>auto simp: switch_node_def Let_def step_tick_def\<close>)
      next
        case (Some nd)
        obtain rn nd' where en: "enable_routing (ev_bincode env) (ev_call env (pr_tick c)) (settings_spec ?s) nd = (rn, nd')"
          by fastforce
        show ?thesis
        proof (cases rn)
          case (Inl e)
          thus ?thesis using not_routed [OF ap [unfolded ra] Some en [unfolded Inl]] assms \<open>try_then ?cfg (ev_render env) = Inr rendered\<close> ap ra Some en
            by (simp add: switch_node_def Let_def)
        next
          case (Inr v)
          show ?thesis
            by (rule switched [OF ap [unfolded ra], of "pr_tick c + 1" "Some nd'"])
               (use assms \<open>try_then ?cfg (ev_render env) = Inr rendered\<close> ap ra Some en Inr server in
                 \<open>auto simp: switch_node_def Let_def step_tick_def\<close>)
        qed
      qed
    qed
  qed
qed

lemma tear_down_fields:
  assumes "tear_down env c = (r, c')"
  shows "pr_active_node c' = None" "pr_degraded c' = pr_degraded c" "sv_child (pr_supervisor c') = None"
    "cores_owned (pr_supervisor c) (pr_core c) \<Longrightarrow> cores_owned (pr_supervisor c') (pr_core c')"
proof -
  obtain r2 sv w where st: "Supervisor_stop (ev_core env) (pr_supervisor c) (pr_core c) = (r2, sv, w)" by (metis prod_cases3)
  have c': "pr_active_node c' = None" "pr_degraded c' = pr_degraded c" "pr_supervisor c' = sv" "pr_core c' = w"
    using assms st by (auto simp: tear_down_def Let_def split: option.splits)
  thus "pr_active_node c' = None" "pr_degraded c' = pr_degraded c" by simp_all
  have "sv_child sv = None" using st by (auto simp: Supervisor_stop_def split: option.splits)
  thus "sv_child (pr_supervisor c') = None" by (simp add: c')
  show "cores_owned (pr_supervisor c) (pr_core c) \<Longrightarrow> cores_owned (pr_supervisor c') (pr_core c')"
    using Supervisor_stop_owned [OF _ st] c' by simp
qed

lemma switch_node_keeps_ok:
  assumes "controller_ok env c"
  shows "controller_ok env (snd (switch_node env node automatic c))"
proof -
  obtain r c' where sw: "switch_node env node automatic c = (r, c')" by fastforce
  have core: "cores_owned (pr_supervisor c) (pr_core c)" using assms by (simp add: controller_ok_def)
  from sw have "controller_ok env c'"
  proof (cases rule: switch_node_cases)
    case refused
    thus ?thesis using assms by simp
  next
    case not_applied
    thus ?thesis using assms apply_config_owned [OF core not_applied(1)] apply_config_Err_child [OF not_applied(1)]
      by (simp add: controller_ok_def)
  next
    case not_routed
    thus ?thesis using assms apply_config_owned [OF core not_routed(1)] apply_config_Ok_running [OF not_routed(1)]
      by (simp add: controller_ok_def)
  next
    case switched
    thus ?thesis using apply_config_owned [OF core switched(1)] apply_config_Ok_running [OF switched(1)]
      by (simp add: controller_ok_def)
  qed
  thus ?thesis by (simp add: sw)
qed

lemma tear_down_keeps_ok: "controller_ok env c \<Longrightarrow> controller_ok env (snd (tear_down env c))"
  using tear_down_fields [of env c "fst (tear_down env c)" "snd (tear_down env c)"] by (simp add: controller_ok_def)

lemma degrade_keeps_ok: "controller_ok env c \<Longrightarrow> controller_ok env (degrade_to_direct env c)"
  using tear_down_fields [of env c "fst (tear_down env c)" "snd (tear_down env c)"]
  by (simp add: controller_ok_def degrade_to_direct_def)

lemma step_tick_ok [simp]: "controller_ok env (step_tick c) = controller_ok env c"
  by (simp add: controller_ok_def)

interpretation safe: preserving_hooks "real_hooks env" "controller_ok env" for env
  by unfold_locales
     (auto simp: real_hooks_def verify_node_egress_def real_rescore_def switch_node_keeps_ok degrade_keeps_ok)

section \<open>Properties\<close>

text \<open>A quiet cycle leaves the session alone.  Whatever a cycle of the watchdog with the production hooks
  measures, when it reports neither an intervention nor an error, everything of the controller but the
  count of its outside calls is what it was: the core and its file, the connection to the daemon, the active node,
  the degraded flag and the times of the switches.\<close>

theorem quiet_cycle_changes_nothing:
  assumes "run_failover_cycle (real_controller env) config (real_hooks env) status c = (Ok a, status', c')"
    and "\<not> is_intervention a" "\<nexists>e. a = ErrorAction e"
  shows "session_of c' = session_of c"
  using looking.cycle_P [OF assms(1) refl assms(2,3)] .

text \<open>No cycle of the watchdog panics with the production hooks: every index it follows into the catalog
  it loaded is within the catalog.\<close>

theorem cycle_never_panics:
  "\<exists>a status' c'. run_failover_cycle ct config (real_hooks env) status c = (Ok a, status', c')"
proof -
  obtain r status' c' where run: "run_failover_cycle ct config (real_hooks env) status c = (r, status', c')"
    by (metis prod_cases3)
  hence "is_ok r" using scoring.cycle_no_panic [of ct config env status c] by simp
  thus ?thesis using run by (auto simp: is_ok_iff)
qed

text \<open>Every sequence of calls to a controller and of watchdog cycles, with cores that exit at any time.\<close>

inductive ctl_reachable :: "ctl_env \<Rightarrow> proxy_controller \<Rightarrow> bool" for env where
  opened: "cw_procs core = Map.empty \<Longrightarrow> ctl_reachable env (controller_open env conns rows core binary path settings)"
| switching: "ctl_reachable env c \<Longrightarrow> switch_node env node automatic c = (r, c') \<Longrightarrow> ctl_reachable env c'"
| stopping: "ctl_reachable env c \<Longrightarrow> controller_stop env c = (r', c') \<Longrightarrow> ctl_reachable env c'"
| degrading: "ctl_reachable env c \<Longrightarrow> ctl_reachable env (degrade_to_direct env c)"
| settling: "ctl_reachable env c \<Longrightarrow> ctl_reachable env (set_settings ps c)"
| noting: "ctl_reachable env c \<Longrightarrow> ctl_reachable env (note_manual_switch env c)"
| noting_auto: "ctl_reachable env c \<Longrightarrow> ctl_reachable env (note_auto_switch env c)"
| cycling: "ctl_reachable env c \<Longrightarrow>
    run_failover_cycle (real_controller env) config (real_hooks env) status c = (a, status', c') \<Longrightarrow> ctl_reachable env c'"
| importing: "ctl_reachable env c \<Longrightarrow> ctl_reachable env (c\<lparr>pr_rows := new_rows\<rparr>)"
| cores_read: "ctl_reachable env c \<Longrightarrow> ctl_reachable env (c\<lparr>pr_core := tick (ev_core env) (pr_core c)\<rparr>)"
| core_exits: "ctl_reachable env c \<Longrightarrow> cw_procs (pr_core c) pid = Some p \<Longrightarrow>
    ctl_reachable env (c\<lparr>pr_core := (pr_core c)\<lparr>cw_procs := (cw_procs (pr_core c))(pid \<mapsto> p\<lparr>cp_alive := False\<rparr>)\<rparr>\<rparr>)"

lemma ctl_reachable_ok: "ctl_reachable env c \<Longrightarrow> controller_ok env c"
proof (induction rule: ctl_reachable.induct)
  case (switching c node automatic r c')
  thus ?case using switch_node_keeps_ok [of env c node automatic] by simp
next
  case (stopping c r' c')
  thus ?case using tear_down_keeps_ok [of env c] by (simp add: controller_stop_def)
next
  case (cycling c config status a status' c')
  thus ?case using safe.cycle_keeps by blast
next
  case (core_exits c pid p)
  have "pid \<in> dom (cw_procs (pr_core c))" using core_exits.hyps(2) by blast
  thus ?case using core_exits.IH by (simp add: controller_ok_def cores_owned_def insert_absorb)
qed (simp_all add: controller_ok_def cores_owned_def controller_open_def Supervisor_new_def set_settings_def note_manual_switch_def
      note_auto_switch_def degrade_keeps_ok [unfolded controller_ok_def cores_owned_def])

text \<open>Claim C16: in every reachable state of the controller there is no core but the one its supervisor can signal and stop,
  whatever failed on the way; a degraded controller has no active node; and whenever a node is active the supervisor has
  started a core that was not waited for.\<close>

theorem reachable_controller_ok:
  assumes "ctl_reachable env c"
  shows "(\<forall>pid. cw_procs (pr_core c) pid \<noteq> None \<longrightarrow> sv_child (pr_supervisor c) = Some pid) \<and>
    (pr_degraded c \<longrightarrow> pr_active_node c = None) \<and>
    (pr_active_node c \<noteq> None \<longrightarrow> (\<exists>pid. sv_child (pr_supervisor c) = Some pid \<and> cw_procs (pr_core c) pid \<noteq> None))"
proof -
  have ok: "dom (cw_procs (pr_core c)) = set_option (sv_child (pr_supervisor c))" "pr_degraded c \<longrightarrow> pr_active_node c = None"
    "pr_active_node c \<noteq> None \<longrightarrow> is_running (pr_supervisor c)"
    using ctl_reachable_ok [OF assms] by (auto simp: controller_ok_def cores_owned_def)
  have "sv_child (pr_supervisor c) = Some pid \<longleftrightarrow> cw_procs (pr_core c) pid \<noteq> None" for pid
    using ok(1) by (simp add: set_eq_iff domIff)
  thus ?thesis using ok(2,3) by (auto simp: is_running_def)
qed

text \<open>A switch is all or nothing for what the controller remembers.  When it succeeds, the node is active, the
  degraded flag is cleared, the time is noted for the kind of switch it was and a core is running; when it
  fails, the active node, the flag and the times are as before and a core that was there still is.\<close>

theorem switch_node_outcome:
  "case switch_node env node automatic c of
     (Inr msg, c') \<Rightarrow> msg = ''switched to '' @ nm_label (cn_meta node) \<and> server_ok node \<and>
       pr_active_node c' = Some node \<and> \<not> pr_degraded c' \<and> is_running (pr_supervisor c') \<and>
       (if automatic then pr_last_manual_switch c' = pr_last_manual_switch c \<and> pr_last_auto_switch c' \<noteq> None
        else pr_last_auto_switch c' = pr_last_auto_switch c \<and> pr_last_manual_switch c' \<noteq> None)
   | (Inl e, c') \<Rightarrow> pr_active_node c' = pr_active_node c \<and> pr_degraded c' = pr_degraded c \<and>
       pr_last_auto_switch c' = pr_last_auto_switch c \<and> pr_last_manual_switch c' = pr_last_manual_switch c \<and>
       (if is_running (pr_supervisor c) then is_running (pr_supervisor c') else True)"
proof -
  obtain r c' where sw: "switch_node env node automatic c = (r, c')" by fastforce
  from sw show ?thesis
  proof (cases rule: switch_node_cases)
    case not_applied
    thus ?thesis using sw apply_config_Err_child [OF not_applied(1)] by simp
  next
    case not_routed
    thus ?thesis using sw apply_config_Ok_running [OF not_routed(1)] by simp
  next
    case switched
    thus ?thesis using sw apply_config_Ok_running [OF switched(1)] by simp
  qed (use sw in simp)
qed

lemma applying_file: "applying env s w = (r, s', w') \<Longrightarrow> cw_file w' = cw_file w"
  by (auto simp: applying_def reload_def Supervisor_start_def kill_hup_def Supervisor_validate_config_def Let_def
      split: sum.splits if_splits option.splits)

lemma apply_config_Ok_file:
  assumes "apply_config env c s w = (Inr u, s', w')"
  shows "cw_file w' = Some c"
proof -
  obtain previous w0 where rd: "fs_read env w = (previous, w0)" by fastforce
  obtain r1 w1 where wr: "fs_write env c w0 = (r1, w1)" by fastforce
  obtain ra sa wa where app: "applying env s w1 = (ra, sa, wa)" by (metis prod_cases3)
  have "r1 = Inr ()" "wa = w'"
    using assms by (auto simp: apply_config_def rd wr app split: sum.splits if_splits option.splits prod.splits)
  thus ?thesis using fs_write_Ok wr applying_file [OF app] by metis
qed

text \<open>A switch is not atomic across its two steps.  When the daemon refuses the routing, the switch returns an
  error and the old node stays the active one, but the new configuration is already on disk and a core was told to run it.\<close>

theorem refused_routing_keeps_new_core:
  assumes "compile_full_config (ev_show_uuid env) node (ps_tproxy_port (pr_settings c)) (ps_fwmark (pr_settings c))
      (ps_dns_provider (pr_settings c)) (ps_local_dns (pr_settings c)) = Ok cfg" "ev_render env cfg = Ok bytes"
    and "apply_config (ev_core env) bytes (pr_supervisor c) (pr_core c) = (Ok u, sv, w)" "pr_netd c = Some nd"
    and "enable_routing (ev_bincode env) (ev_call env (pr_tick c)) (settings_spec (pr_settings c)) nd = (Err e, nd')"
  shows "\<exists>c'. switch_node env node automatic c = (Err ''netd enable routing'', c') \<and> pr_active_node c' = pr_active_node c \<and>
    pr_supervisor c' = sv \<and> pr_core c' = w \<and> cw_file (pr_core c') = Some bytes"
  using assms apply_config_Ok_file [OF assms(3)] by (simp add: switch_node_def Let_def)

section \<open>A sample session\<close>

text \<open>A core that accepts everything, and a daemon whose connection is closed.\<close>

definition sample_ctl_env :: ctl_env where
  "sample_ctl_env = \<lparr>ev_core = sample_env, ev_bincode = sample_bincode, ev_call = (\<lambda>t. answered []), ev_show_uuid = (\<lambda>u. ''u''),
     ev_render = (\<lambda>j. Ok ''cfg''), ev_decode = (\<lambda>s. Err ''none''), ev_now = (\<lambda>t. 100 + t), ev_utc_secs = (\<lambda>t. 0),
     ev_trial = (\<lambda>t i. sample_trial), ev_sweep = (\<lambda>t. sample_sweep), ev_lookup = (\<lambda>h p. Err ''none''),
     ev_tcp_info = (\<lambda>t a. Err ''none'')\<rparr>"

definition sample_controller :: "netd_client option \<Rightarrow> proxy_controller" where
  "sample_controller nd = \<lparr>pr_supervisor = Supervisor_new ''sb'' ''c.json'', pr_core = no_cores,
     pr_netd = nd, pr_settings = ProxySettings_default None, pr_active_node = None, pr_last_auto_switch = None,
     pr_last_manual_switch = None, pr_degraded = False, pr_rows = Ok [], pr_tick = 0\<rparr>"

lemma sample_compiles: "\<exists>cfg. compile_full_config su (sample_node ''a'' ''a.example'' 443) port mark dp local = Inr cfg"
  by (rule compile_outbound_cases [of su "sample_node ''a'' ''a.example'' 443"])
     (simp_all add: compile_full_config_cases server_ok_def endpoint_parts_def sample_node_def Let_def ws1_def ws2_def)

lemma sample_applies:
  "apply_config sample_env ''cfg'' (Supervisor_new ''sb'' ''c.json'') no_cores =
     (Inr (), \<lparr>sv_binary = ''sb'', sv_config_path = ''c.json'', sv_child = Some 12\<rparr>,
      \<lparr>cw_file = Some ''cfg'', cw_procs = [12 \<mapsto> \<lparr>cp_alive = True, cp_starting = True, cp_hup = False, cp_reads = []\<rparr>], cw_tick = 6\<rparr>)"
  by (simp add: sv_eval no_cores_def Supervisor_new_def)

theorem refused_routing_keeps_new_core_witness:
  "\<exists>c'. switch_node sample_ctl_env (sample_node ''a'' ''a.example'' 443) True
       (sample_controller (Some (sample_client\<lparr>nc_stream := None\<rparr>))) = (Err ''netd enable routing'', c') \<and>
     pr_active_node c' = None \<and> cw_file (pr_core c') = Some ''cfg''"
proof -
  let ?c = "sample_controller (Some (sample_client\<lparr>nc_stream := None\<rparr>))" and ?n = "sample_node ''a'' ''a.example'' 443"
  obtain cfg where cfg: "compile_full_config (ev_show_uuid sample_ctl_env) ?n (ps_tproxy_port (pr_settings ?c)) (ps_fwmark (pr_settings ?c))
      (ps_dns_provider (pr_settings ?c)) (ps_local_dns (pr_settings ?c)) = Ok cfg" using sample_compiles by blast
  have ap: "apply_config (ev_core sample_ctl_env) ''cfg'' (pr_supervisor ?c) (pr_core ?c) =
     (Inr (), \<lparr>sv_binary = ''sb'', sv_config_path = ''c.json'', sv_child = Some 12\<rparr>,
      \<lparr>cw_file = Some ''cfg'', cw_procs = [12 \<mapsto> \<lparr>cp_alive = True, cp_starting = True, cp_hup = False, cp_reads = []\<rparr>], cw_tick = 6\<rparr>)"
    using sample_applies by (simp add: sample_ctl_env_def sample_controller_def)
  have "enable_routing (ev_bincode sample_ctl_env) (ev_call sample_ctl_env (pr_tick ?c)) (settings_spec (pr_settings ?c))
      (sample_client\<lparr>nc_stream := None\<rparr>) = (Err ''netd enable_routing'', sample_client\<lparr>nc_stream := None\<rparr>)"
    by (simp add: enable_routing_def send_locked_def)
  from refused_routing_keeps_new_core [OF cfg _ ap _ this, of True] show ?thesis
    by (auto simp: sample_ctl_env_def sample_controller_def)
qed

lemma sample_ctl_switches:
  "\<exists>c'. switch_node sample_ctl_env (sample_node ''a'' ''a.example'' 443) False (sample_controller None) =
     (Ok ''switched to a'', c') \<and> pr_active_node c' = Some (sample_node ''a'' ''a.example'' 443)"
  using sample_compiles [of "\<lambda>u. ''u''" 12345 SINGLE_FW_MARK Cloudflare None]
  by (auto simp: switch_node_def Let_def sample_ctl_env_def sample_controller_def ProxySettings_default_def default_gateway_v4_def
      sample_applies step_tick_def sample_node_def sample_meta_def)

theorem reachable_controller_ok_witness:
  "\<exists>c. pr_active_node c = Some (sample_node ''a'' ''a.example'' 443) \<and> ctl_reachable sample_ctl_env c \<and>
    (\<exists>pid. sv_child (pr_supervisor c) = Some pid \<and> cw_procs (pr_core c) pid \<noteq> None)"
proof -
  have "controller_open sample_ctl_env (\<lambda>p n. (Err ''down'', answered [])) (Ok []) no_cores
      ''sb'' ''c.json'' (ProxySettings_default None) = sample_controller None"
    by (simp add: controller_open_def sample_controller_def NetdClient_new_def reconnect_def handshake_def numeral_3_eq_3)
  hence "ctl_reachable sample_ctl_env (sample_controller None)"
    using opened [of no_cores sample_ctl_env "\<lambda>p n. (Err ''down'', answered [])" "Ok []"
        "''sb''" "''c.json''" "ProxySettings_default None"] by (simp add: no_cores_def)
  moreover obtain c where c: "switch_node sample_ctl_env (sample_node ''a'' ''a.example'' 443) False (sample_controller None) = (Ok ''switched to a'', c)"
    "pr_active_node c = Some (sample_node ''a'' ''a.example'' 443)" using sample_ctl_switches by blast
  ultimately have r: "ctl_reachable sample_ctl_env c" using switching by blast
  show ?thesis using reachable_controller_ok [OF r] c(2) r by auto
qed

theorem quiet_cycle_changes_nothing_witness:
  "\<exists>a status' c'. run_failover_cycle (real_controller sample_ctl_env) FailoverConfig_default (real_hooks sample_ctl_env)
      FailoverStatus_default (sample_controller None) = (Ok a, status', c') \<and> session_of c' = session_of (sample_controller None)"
proof -
  have "run_failover_cycle (real_controller sample_ctl_env) FailoverConfig_default (real_hooks sample_ctl_env)
      FailoverStatus_default (sample_controller None) =
    (Ok IdleAction, FailoverStatus_default\<lparr>fs_active_node := None, fs_degraded := False\<rparr>, sample_controller None)"
    by (simp add: run_failover_cycle_def Let_def real_controller_def sample_controller_def FailoverConfig_default_def auto_adopt_def
        candidate_pairs_def load_probe_targets_def)
  from this quiet_cycle_changes_nothing [OF this] show ?thesis by auto
qed

text \<open>\<open>last_switch\<close> returns the manual switch even when an automatic one came later.\<close>

lemma last_switch_prefers_manual:
  "pr_last_manual_switch c = Some m \<Longrightarrow> pr_last_auto_switch c = Some a \<Longrightarrow> m < a \<Longrightarrow> last_switch c = Some m"
  by (simp add: last_switch_def)

end
