(* ===== verification/Store.thy ===== *)
theory Store
  imports IR Rust_Utf8 "HOL-Library.List_Lexorder" "HOL-Library.Char_ord"
begin

text \<open>
  The node catalog in memory (\<open>crates/storage/src/soa_store.rs\<close>, \<open>query_engine.rs\<close>): a structure of arrays with one column per attribute, a flat array of
  subscription ids cut into per-node runs by an offset column, and an index from node id to
  position; beside it the arena of hot metrics that the probes overwrite, and the query that
  filters and sorts positions for the list view.

  The abstract view of a store is its list of rows.  The refinement lemmas say that building,
  updating and searching the columns is building, updating and searching that list, and that
  none of the indexing expressions of the source is ever out of range.  An index expression
  that would panic is the value \<^term>\<open>None\<close>.
\<close>

section \<open>Rows and columns (\<open>soa_store.rs\<close>)\<close>

definition UNTESTED_LATENCY :: u16 where
  "UNTESTED_LATENCY = 65535"

datatype protocol_kind = KVless | KVmess | KTrojan | KShadowsocks | KHysteria2 | KTuic | KWireGuard

fun kind_label :: "protocol_kind \<Rightarrow> string" where
  "kind_label KVless = ''VLESS''"
| "kind_label KVmess = ''VMess''"
| "kind_label KTrojan = ''Trojan''"
| "kind_label KShadowsocks = ''SS''"
| "kind_label KHysteria2 = ''HY2''"
| "kind_label KTuic = ''TUIC''"
| "kind_label KWireGuard = ''WireGuard''"

fun discriminant :: "protocol_kind \<Rightarrow> u8" where
  "discriminant KVless = 0"
| "discriminant KVmess = 1"
| "discriminant KTrojan = 2"
| "discriminant KShadowsocks = 3"
| "discriminant KHysteria2 = 4"
| "discriminant KTuic = 5"
| "discriminant KWireGuard = 6"

definition from_discriminant :: "u8 \<Rightarrow> protocol_kind option" where
  "from_discriminant v =
     (if v = 0 then Some KVless else if v = 1 then Some KVmess else if v = 2 then Some KTrojan
      else if v = 3 then Some KShadowsocks else if v = 4 then Some KHysteria2
      else if v = 5 then Some KTuic else if v = 6 then Some KWireGuard else None)"

fun kind_of :: "protocol_spec \<Rightarrow> protocol_kind" where
  "kind_of (Vless c) = KVless"
| "kind_of (Vmess c) = KVmess"
| "kind_of (Trojan c) = KTrojan"
| "kind_of (Shadowsocks c) = KShadowsocks"
| "kind_of (Hysteria2 c) = KHysteria2"
| "kind_of (Tuic c) = KTuic"
| "kind_of (WireGuard c) = KWireGuard"

record hot_node_row =
  hr_id :: u32
  hr_country_code :: country
  hr_latency_ms :: u16
  hr_health_score :: u8
  hr_name :: string
  hr_protocol :: protocol_kind
  hr_source_sub_ids :: "u16 list"

record dense_node_store =
  ds_node_ids :: "u32 list"
  ds_country_codes :: "country list"
  ds_latencies_ms :: "u16 list"
  ds_health_scores :: "u8 list"
  ds_protocol_kinds :: "protocol_kind list"
  ds_names :: "string list"
  ds_name_lower :: "string list"
  ds_source_offsets :: "u32 list"
  ds_source_sub_ids :: "u16 list"
  ds_id_to_index :: "u32 \<Rightarrow> nat option"

definition with_capacity :: dense_node_store where
  "with_capacity = \<lparr>ds_node_ids = [], ds_country_codes = [], ds_latencies_ms = [],
     ds_health_scores = [], ds_protocol_kinds = [], ds_names = [], ds_name_lower = [],
     ds_source_offsets = [], ds_source_sub_ids = [], ds_id_to_index = Map.empty\<rparr>"

text \<open>
  \<open>str::to_lowercase\<close> on ASCII text is the ASCII mapping; beyond ASCII it follows the Unicode
  tables, which are data outside this repository and the parameter \<open>uni\<close> here.
\<close>

definition to_lowercase :: "(string \<Rightarrow> string) \<Rightarrow> string \<Rightarrow> string" where
  "to_lowercase uni s = (if is_ascii s then to_ascii_lowercase s else uni s)"

text \<open>The body both loaders share: one attribute pushed to the end of every column.\<close>

definition push_columns ::
    "(string \<Rightarrow> string) \<Rightarrow> u32 \<Rightarrow> country \<Rightarrow> u16 \<Rightarrow> u8 \<Rightarrow> protocol_kind \<Rightarrow> string
      \<Rightarrow> dense_node_store \<Rightarrow> dense_node_store" where
  "push_columns uni nid cc lat health kind name st =
     (let index = length (ds_node_ids st) in
      st\<lparr>ds_node_ids := ds_node_ids st @ [nid],
         ds_country_codes := ds_country_codes st @ [cc],
         ds_latencies_ms := ds_latencies_ms st @ [lat],
         ds_health_scores := ds_health_scores st @ [health],
         ds_protocol_kinds := ds_protocol_kinds st @ [kind],
         ds_name_lower := ds_name_lower st @ [to_lowercase uni name],
         ds_names := ds_names st @ [name],
         ds_id_to_index := (ds_id_to_index st)(nid \<mapsto> index)\<rparr>)"

definition push_sources :: "u16 list \<Rightarrow> dense_node_store \<Rightarrow> dense_node_store" where
  "push_sources ids st =
     (let subs = ds_source_sub_ids st @ ids in
      st\<lparr>ds_source_sub_ids := subs,
         ds_source_offsets := ds_source_offsets st @ [of_nat (length subs)]\<rparr>)"

definition push_row :: "(string \<Rightarrow> string) \<Rightarrow> hot_node_row \<Rightarrow> dense_node_store \<Rightarrow> dense_node_store" where
  "push_row uni row st =
     push_sources (hr_source_sub_ids row)
       (push_columns uni (hr_id row) (hr_country_code row) (hr_latency_ms row)
          (min (hr_health_score row) 100) (hr_protocol row) (hr_name row) st)"

definition from_hot_rows :: "(string \<Rightarrow> string) \<Rightarrow> hot_node_row list \<Rightarrow> dense_node_store" where
  "from_hot_rows uni rows =
     fold (push_row uni) rows (with_capacity\<lparr>ds_source_offsets := [0]\<rparr>)"

definition store_len :: "dense_node_store \<Rightarrow> nat" where
  "store_len st = length (ds_node_ids st)"

definition store_is_empty :: "dense_node_store \<Rightarrow> bool" where
  "store_is_empty st \<longleftrightarrow> ds_node_ids st = []"

text \<open>Assignment through an index: out of range is a panic.\<close>

definition set_at :: "'a list \<Rightarrow> nat \<Rightarrow> 'a \<Rightarrow> 'a list option" where
  "set_at xs i v = (if i < length xs then Some (xs[i := v]) else None)"

definition index_of :: "dense_node_store \<Rightarrow> u32 \<Rightarrow> nat option" where
  "index_of st node_id = ds_id_to_index st node_id"

definition update_metrics :: "u32 \<Rightarrow> u16 \<Rightarrow> u8 \<Rightarrow> dense_node_store \<Rightarrow> dense_node_store option" where
  "update_metrics node_id lat health st =
     (case ds_id_to_index st node_id of
        None \<Rightarrow> Some st
      | Some index \<Rightarrow>
          Option.bind (set_at (ds_latencies_ms st) index lat) (\<lambda>lats.
          Option.bind (set_at (ds_health_scores st) index (min health 100)) (\<lambda>healths.
          Some (st\<lparr>ds_latencies_ms := lats, ds_health_scores := healths\<rparr>))))"

definition slice_of :: "'a list \<Rightarrow> nat \<Rightarrow> nat \<Rightarrow> 'a list option" where
  "slice_of xs a b = (if a \<le> b \<and> b \<le> length xs then Some (take (b - a) (drop a xs)) else None)"

definition has_source :: "dense_node_store \<Rightarrow> nat \<Rightarrow> u16 \<Rightarrow> bool option" where
  "has_source st index sub =
     Option.bind (vec_get (ds_source_offsets st) index) (\<lambda>start.
     Option.bind (vec_get (ds_source_offsets st) (index + 1)) (\<lambda>stop.
     Option.bind (slice_of (ds_source_sub_ids st) (unat start) (unat stop)) (\<lambda>ids.
     Some (sub \<in> set ids))))"

definition country_code :: "string \<Rightarrow> country" where
  "country_code bs =
     (case bs of
        [a, b] \<Rightarrow> if is_ascii_uppercase a \<and> is_ascii_uppercase b then (a, b) else (CHR ''U'', CHR ''N'')
      | _ \<Rightarrow> (CHR ''U'', CHR ''N''))"

record metrics_arena =
  ma_latencies_ms :: "u16 list"
  ma_health_scores :: "u8 list"
  ma_jitter_ms :: "u16 list"
  ma_packet_loss :: "u8 list"
  ma_last_tested :: "u64 list"
  ma_is_operational :: "bool list"
  ma_verified :: "bool list"

definition from_store :: "dense_node_store \<Rightarrow> metrics_arena" where
  "from_store st =
     (let capacity = store_len st in
      \<lparr>ma_latencies_ms = ds_latencies_ms st, ma_health_scores = ds_health_scores st,
       ma_jitter_ms = replicate capacity 0, ma_packet_loss = replicate capacity 0,
       ma_last_tested = replicate capacity 0, ma_is_operational = replicate capacity False,
       ma_verified = replicate capacity False\<rparr>)"

definition arena_len :: "metrics_arena \<Rightarrow> nat" where
  "arena_len m = length (ma_latencies_ms m)"

definition apply_update :: "nat \<Rightarrow> u16 \<Rightarrow> u8 \<Rightarrow> bool \<Rightarrow> metrics_arena \<Rightarrow> metrics_arena option" where
  "apply_update index lat health verified m =
     (if arena_len m \<le> index then Some m
      else
        Option.bind (set_at (ma_latencies_ms m) index lat) (\<lambda>lats.
        Option.bind (set_at (ma_health_scores m) index (min health 100)) (\<lambda>healths.
        Option.bind (set_at (ma_verified m) index verified) (\<lambda>vs.
        Some (m\<lparr>ma_latencies_ms := lats, ma_health_scores := healths, ma_verified := vs\<rparr>)))))"

definition is_verified :: "metrics_arena \<Rightarrow> nat \<Rightarrow> bool" where
  "is_verified m index = unwrap_or False (vec_get (ma_verified m) index)"

section \<open>Queries (\<open>query_engine.rs\<close>)\<close>

datatype sort_criteria = LatencyAsc | LatencyDesc | CountryAsc | NameAsc | HealthScoreDesc

definition latency_order :: "u16 \<Rightarrow> u16 \<Rightarrow> ordering" where
  "latency_order l r =
     (case (l = UNTESTED_LATENCY, r = UNTESTED_LATENCY) of
        (True, True) \<Rightarrow> Equal
      | (True, False) \<Rightarrow> Greater
      | (False, True) \<Rightarrow> Less
      | (False, False) \<Rightarrow> cmp l r)"

definition is_none_or :: "'a option \<Rightarrow> ('a \<Rightarrow> bool option) \<Rightarrow> bool option" where
  "is_none_or x f = (case x of None \<Rightarrow> Some True | Some a \<Rightarrow> f a)"

text \<open>\<open>&&\<close>: the right operand is evaluated, and can panic, only if the left one holds.\<close>

definition and_then_opt :: "bool option \<Rightarrow> bool option \<Rightarrow> bool option" where
  "and_then_opt a b = Option.bind a (\<lambda>x. if x then b else Some False)"

definition row_matches ::
    "dense_node_store \<Rightarrow> string \<Rightarrow> country option \<Rightarrow> u16 option \<Rightarrow> nat \<Rightarrow> bool option" where
  "row_matches st search country_filter sub_filter index =
     and_then_opt (is_none_or sub_filter (has_source st index))
       (and_then_opt
          (is_none_or country_filter (\<lambda>c.
             map_option (\<lambda>x. x = c) (vec_get (ds_country_codes st) index)))
          (if search = [] then Some True
           else map_option (\<lambda>n. contains_str search n) (vec_get (ds_name_lower st) index)))"

fun filter_opt_list :: "('a \<Rightarrow> bool option) \<Rightarrow> 'a list \<Rightarrow> 'a list option" where
  "filter_opt_list P [] = Some []"
| "filter_opt_list P (x # xs) =
     Option.bind (P x) (\<lambda>keep.
     Option.bind (filter_opt_list P xs) (\<lambda>ys. Some (if keep then x # ys else ys)))"

definition country_key :: "country \<Rightarrow> string" where
  "country_key c = [fst c, snd c]"

definition row_cmp ::
    "dense_node_store \<Rightarrow> sort_criteria \<Rightarrow> (nat \<Rightarrow> u16) \<Rightarrow> (nat \<Rightarrow> u8) \<Rightarrow> u32 \<Rightarrow> u32 \<Rightarrow> ordering" where
  "row_cmp st sort_c metric_latency metric_health left right =
     (let a = unat left; b = unat right in
      then_with
        (case sort_c of
           LatencyAsc \<Rightarrow> latency_order (metric_latency a) (metric_latency b)
         | LatencyDesc \<Rightarrow> latency_order (metric_latency b) (metric_latency a)
         | CountryAsc \<Rightarrow> cmp (country_key (ds_country_codes st ! a)) (country_key (ds_country_codes st ! b))
         | NameAsc \<Rightarrow> cmp (ds_names st ! a) (ds_names st ! b)
         | HealthScoreDesc \<Rightarrow> cmp (metric_health b) (metric_health a))
        (cmp (ds_node_ids st ! a) (ds_node_ids st ! b)))"

text \<open>
  The length of the column a criterion reads.  A sort of two or more elements compares every
  one of them, so it panics as soon as one of them is out of the range of the column; sorting
  fewer than two elements compares nothing.  \<open>metric_cols\<close> are the lengths of the columns the
  two metric closures index, \<^term>\<open>None\<close> for the closures that use \<open>get\<close>.
\<close>

definition sort_reads ::
    "dense_node_store \<Rightarrow> sort_criteria \<Rightarrow> (nat \<times> nat) option \<Rightarrow> u32 list \<Rightarrow> bool" where
  "sort_reads st sort_c metric_cols indices \<longleftrightarrow>
     length indices < 2 \<or>
     (\<forall>i \<in> set indices. unat i < length (ds_node_ids st) \<and>
        (case sort_c of
           LatencyAsc \<Rightarrow> (case metric_cols of None \<Rightarrow> True | Some (l, h) \<Rightarrow> unat i < l)
         | LatencyDesc \<Rightarrow> (case metric_cols of None \<Rightarrow> True | Some (l, h) \<Rightarrow> unat i < l)
         | CountryAsc \<Rightarrow> unat i < length (ds_country_codes st)
         | NameAsc \<Rightarrow> unat i < length (ds_names st)
         | HealthScoreDesc \<Rightarrow> (case metric_cols of None \<Rightarrow> True | Some (l, h) \<Rightarrow> unat i < h)))"

definition run_query ::
    "(string \<Rightarrow> string) \<Rightarrow> dense_node_store \<Rightarrow> string \<Rightarrow> country option \<Rightarrow> u16 option
      \<Rightarrow> sort_criteria \<Rightarrow> (nat \<Rightarrow> u16) \<Rightarrow> (nat \<Rightarrow> u8) \<Rightarrow> (nat \<times> nat) option \<Rightarrow> u32 list option" where
  "run_query uni st search_term country_filter sub_filter sort_c metric_latency metric_health metric_cols =
     (let search = to_lowercase uni search_term in
      Option.bind (filter_opt_list (row_matches st search country_filter sub_filter) [0..<store_len st])
        (\<lambda>kept. let indices = map of_nat kept in
           if sort_reads st sort_c metric_cols indices
           then Some (sort_by (row_cmp st sort_c metric_latency metric_health) indices)
           else None))"

definition query ::
    "(string \<Rightarrow> string) \<Rightarrow> dense_node_store \<Rightarrow> string \<Rightarrow> country option \<Rightarrow> u16 option
      \<Rightarrow> sort_criteria \<Rightarrow> u32 list option" where
  "query uni st search_term country_filter sub_filter sort_c =
     run_query uni st search_term country_filter sub_filter sort_c
       (\<lambda>index. ds_latencies_ms st ! index) (\<lambda>index. ds_health_scores st ! index)
       (Some (length (ds_latencies_ms st), length (ds_health_scores st)))"

definition query_with_metrics ::
    "(string \<Rightarrow> string) \<Rightarrow> dense_node_store \<Rightarrow> metrics_arena \<Rightarrow> string \<Rightarrow> country option \<Rightarrow> u16 option
      \<Rightarrow> sort_criteria \<Rightarrow> u32 list option" where
  "query_with_metrics uni st m search_term country_filter sub_filter sort_c =
     run_query uni st search_term country_filter sub_filter sort_c
       (\<lambda>index. unwrap_or UNTESTED_LATENCY (vec_get (ma_latencies_ms m) index))
       (\<lambda>index. unwrap_or 0 (vec_get (ma_health_scores m) index)) None"

section \<open>Protocol labels\<close>

lemma from_discriminant_iff: "from_discriminant v = Some k \<longleftrightarrow> v = discriminant k"
  by (cases k) (auto simp: from_discriminant_def)

lemma from_discriminant_None: "from_discriminant v = None \<longleftrightarrow> 6 < v"
proof
  assume "from_discriminant v = None"
  then have ne: "v \<noteq> 0" "v \<noteq> 1" "v \<noteq> 2" "v \<noteq> 3" "v \<noteq> 4" "v \<noteq> 5" "v \<noteq> 6"
    by (auto simp: from_discriminant_def split: if_splits)
  have "unat v \<noteq> n" if "v \<noteq> of_nat n" for n using that by auto
  from this[of 0] this[of 1] this[of 2] this[of 3] this[of 4] this[of 5] this[of 6] ne
  have "6 < unat v" by auto
  then show "6 < v" by (simp add: word_less_nat_alt)
next
  assume "6 < v"
  then show "from_discriminant v = None" by (auto simp: from_discriminant_def)
qed

section \<open>The rows a store stands for\<close>

text \<open>
  The index column: every id that occurs maps to its last position, every other id to nothing.
\<close>

definition index_rep :: "(u32 \<Rightarrow> nat option) \<Rightarrow> u32 list \<Rightarrow> bool" where
  "index_rep idx ids \<longleftrightarrow> (\<forall>nid. case idx nid of
     None \<Rightarrow> nid \<notin> set ids
   | Some i \<Rightarrow> i < length ids \<and> ids ! i = nid \<and> nid \<notin> set (drop (Suc i) ids))"

text \<open>The flat run column: \<open>offs ! i\<close> is the number of entries before the run of row \<open>i\<close>.\<close>

definition runs_rep :: "u32 list \<Rightarrow> u16 list \<Rightarrow> u16 list list \<Rightarrow> bool" where
  "runs_rep offs subs runs \<longleftrightarrow> subs = concat runs \<and> length offs = Suc (length runs) \<and>
     (\<forall>i \<le> length runs. unat (offs ! i) = length (concat (take i runs)))"

definition columns_rep :: "(string \<Rightarrow> string) \<Rightarrow> dense_node_store \<Rightarrow> hot_node_row list \<Rightarrow> bool" where
  "columns_rep uni st rows \<longleftrightarrow>
     ds_node_ids st = map hr_id rows \<and> ds_country_codes st = map hr_country_code rows \<and>
     ds_latencies_ms st = map hr_latency_ms rows \<and> ds_health_scores st = map hr_health_score rows \<and>
     ds_protocol_kinds st = map hr_protocol rows \<and> ds_names st = map hr_name rows \<and>
     ds_name_lower st = map (\<lambda>r. to_lowercase uni (hr_name r)) rows \<and>
     index_rep (ds_id_to_index st) (map hr_id rows)"

definition store_rep :: "(string \<Rightarrow> string) \<Rightarrow> dense_node_store \<Rightarrow> hot_node_row list \<Rightarrow> bool" where
  "store_rep uni st rows \<longleftrightarrow> columns_rep uni st rows \<and>
     runs_rep (ds_source_offsets st) (ds_source_sub_ids st) (map hr_source_sub_ids rows)"

lemma unat_of_nat_u32: "n < 2 ^ 32 \<Longrightarrow> unat (of_nat n :: u32) = n"
  by (simp add: unat_of_nat take_bit_nat_eq_self)

lemma index_rep_empty: "index_rep Map.empty []"
  by (simp add: index_rep_def)

lemma index_rep_push: "index_rep idx ids \<Longrightarrow> index_rep (idx(nid \<mapsto> length ids)) (ids @ [nid])"
  unfolding index_rep_def
proof
  fix n
  assume "\<forall>nid. case idx nid of None \<Rightarrow> nid \<notin> set ids
    | Some i \<Rightarrow> i < length ids \<and> ids ! i = nid \<and> nid \<notin> set (drop (Suc i) ids)"
  then have "case idx n of None \<Rightarrow> n \<notin> set ids
    | Some i \<Rightarrow> i < length ids \<and> ids ! i = n \<and> n \<notin> set (drop (Suc i) ids)" by blast
  then show "case (idx(nid \<mapsto> length ids)) n of None \<Rightarrow> n \<notin> set (ids @ [nid])
    | Some i \<Rightarrow> i < length (ids @ [nid]) \<and> (ids @ [nid]) ! i = n \<and> n \<notin> set (drop (Suc i) (ids @ [nid]))"
    by (cases "idx n") (auto simp: nth_append)
qed

lemma index_rep_Some:
  "index_rep idx ids \<Longrightarrow> idx nid = Some i \<Longrightarrow>
     i < length ids \<and> ids ! i = nid \<and> nid \<notin> set (drop (Suc i) ids)"
  by (drule index_rep_def[THEN iffD1, rule_format, of _ _ nid]) simp

lemma index_rep_None: "index_rep idx ids \<Longrightarrow> idx nid = None \<longleftrightarrow> nid \<notin> set ids"
  by (drule index_rep_def[THEN iffD1, rule_format, of _ _ nid]) (auto split: option.splits)

lemma index_rep_distinct:
  assumes "index_rep idx ids" and "distinct ids" and "i < length ids"
  shows "idx (ids ! i) = Some i"
proof -
  have "idx (ids ! i) \<noteq> None" using index_rep_None[OF assms(1)] assms(3) by auto
  then obtain j where j: "idx (ids ! i) = Some j" by auto
  from index_rep_Some[OF assms(1) j] assms(2,3) have "j = i" by (metis nth_eq_iff_index_eq)
  with j show ?thesis by simp
qed

lemma runs_rep_empty: "runs_rep [0] [] []"
  by (simp add: runs_rep_def)

lemma runs_rep_push:
  assumes "runs_rep offs subs runs" and "length (subs @ ids) < 2 ^ 32"
  shows "runs_rep (offs @ [of_nat (length (subs @ ids))]) (subs @ ids) (runs @ [ids])"
proof -
  have "unat (of_nat (length subs + length ids) :: u32) = length subs + length ids"
    using assms(2) by (intro unat_of_nat_u32) simp
  then show ?thesis using assms(1)
    by (simp add: runs_rep_def nth_append le_Suc_eq del: of_nat_add)
qed

lemma runs_rep_slice:
  assumes "runs_rep offs subs runs" and "i < length runs"
  shows "slice_of subs (unat (offs ! i)) (unat (offs ! Suc i)) = Some (runs ! i)"
proof -
  have split: "concat runs = concat (take i runs) @ runs ! i @ concat (drop (Suc i) runs)"
    using assms(2) by (metis append_take_drop_id Cons_nth_drop_Suc concat.simps(2) concat_append)
  have "concat (take (Suc i) runs) = concat (take i runs) @ runs ! i"
    using assms(2) by (simp add: take_Suc_conv_app_nth)
  then show ?thesis using assms by (simp add: runs_rep_def slice_of_def split)
qed

lemma columns_rep_push:
  assumes "columns_rep uni st rows" and "hr_id r = nid" and "hr_country_code r = cc"
    and "hr_latency_ms r = lat" and "hr_health_score r = h" and "hr_protocol r = k" and "hr_name r = name"
  shows "columns_rep uni (push_columns uni nid cc lat h k name st) (rows @ [r])"
  using assms index_rep_push[of "ds_id_to_index st" "map hr_id rows" nid]
  by (simp add: columns_rep_def push_columns_def Let_def)

lemma columns_rep_push_sources [simp]:
  "columns_rep uni (push_sources ids st) rows = columns_rep uni st rows"
  by (simp add: columns_rep_def push_sources_def Let_def)

lemma push_columns_sources [simp]:
  "ds_source_offsets (push_columns uni nid cc lat h k name st) = ds_source_offsets st"
  "ds_source_sub_ids (push_columns uni nid cc lat h k name st) = ds_source_sub_ids st"
  by (simp_all add: push_columns_def Let_def)

definition clamp_row :: "hot_node_row \<Rightarrow> hot_node_row" where
  "clamp_row r = r\<lparr>hr_health_score := min (hr_health_score r) 100\<rparr>"

lemma push_row_rep:
  assumes "store_rep uni st rows"
    and "length (concat (map hr_source_sub_ids rows)) + length (hr_source_sub_ids r) < 2 ^ 32"
  shows "store_rep uni (push_row uni r st) (rows @ [clamp_row r])"
proof -
  have cols: "columns_rep uni (push_columns uni (hr_id r) (hr_country_code r) (hr_latency_ms r)
      (min (hr_health_score r) 100) (hr_protocol r) (hr_name r) st) (rows @ [clamp_row r])"
    by (rule columns_rep_push) (use assms in \<open>simp_all add: store_rep_def clamp_row_def\<close>)
  have runs: "runs_rep (ds_source_offsets st) (ds_source_sub_ids st) (map hr_source_sub_ids rows)"
    using assms(1) by (simp add: store_rep_def)
  have "length (ds_source_sub_ids st @ hr_source_sub_ids r) < 2 ^ 32"
    using assms(2) runs by (simp add: runs_rep_def)
  from runs_rep_push[OF runs this] cols show ?thesis
    unfolding store_rep_def push_row_def columns_rep_push_sources
    by (simp add: push_sources_def Let_def clamp_row_def)
qed

lemma fold_push_row_rep:
  assumes "store_rep uni st done_rows"
    and "length (concat (map hr_source_sub_ids (done_rows @ rows))) < 2 ^ 32"
  shows "store_rep uni (fold (push_row uni) rows st) (done_rows @ map clamp_row rows)"
  using assms
proof (induction rows arbitrary: st done_rows)
  case Nil
  then show ?case by simp
next
  case (Cons r rows)
  have "store_rep uni (push_row uni r st) (done_rows @ [clamp_row r])"
    by (rule push_row_rep) (use Cons.prems in auto)
  moreover have "hr_source_sub_ids (clamp_row r) = hr_source_sub_ids r" by (simp add: clamp_row_def)
  ultimately show ?case using Cons.IH[of "push_row uni r st" "done_rows @ [clamp_row r]"] Cons.prems
    by simp
qed

lemma empty_store_rep: "store_rep uni (with_capacity\<lparr>ds_source_offsets := [0]\<rparr>) []"
  by (simp add: store_rep_def columns_rep_def with_capacity_def index_rep_empty runs_rep_empty)

lemma from_hot_rows_rep:
  assumes "length (concat (map hr_source_sub_ids rows)) < 2 ^ 32"
  shows "store_rep uni (from_hot_rows uni rows) (map clamp_row rows)"
  using fold_push_row_rep[OF empty_store_rep, of rows uni] assms by (simp add: from_hot_rows_def)

lemma has_source_rep:
  assumes "store_rep uni st rows" and "i < length rows"
  shows "has_source st i sub = Some (sub \<in> set (hr_source_sub_ids (rows ! i)))"
proof -
  have runs: "runs_rep (ds_source_offsets st) (ds_source_sub_ids st) (map hr_source_sub_ids rows)"
    using assms(1) by (simp add: store_rep_def)
  then have "length (ds_source_offsets st) = Suc (length rows)" by (simp add: runs_rep_def)
  with runs_rep_slice[OF runs] assms(2) show ?thesis by (simp add: has_source_def vec_get_def)
qed

section \<open>Updating one row\<close>

fun update_last :: "('a \<Rightarrow> bool) \<Rightarrow> ('a \<Rightarrow> 'a) \<Rightarrow> 'a list \<Rightarrow> 'a list" where
  "update_last P f [] = []"
| "update_last P f (x # xs) =
     (if \<exists>y \<in> set xs. P y then x # update_last P f xs else if P x then f x # xs else x # xs)"

definition set_metrics :: "u16 \<Rightarrow> u8 \<Rightarrow> hot_node_row \<Rightarrow> hot_node_row" where
  "set_metrics lat h r = r\<lparr>hr_latency_ms := lat, hr_health_score := min h 100\<rparr>"

lemma update_last_none: "(\<And>x. x \<in> set xs \<Longrightarrow> \<not> P x) \<Longrightarrow> update_last P f xs = xs"
  by (induction xs) auto

lemma update_last_at:
  "i < length xs \<Longrightarrow> P (xs ! i) \<Longrightarrow> (\<And>x. x \<in> set (drop (Suc i) xs) \<Longrightarrow> \<not> P x) \<Longrightarrow>
     update_last P f xs = xs[i := f (xs ! i)]"
proof (induction xs arbitrary: i)
  case Nil
  then show ?case by simp
next
  case (Cons x xs)
  show ?case
  proof (cases i)
    case 0
    with Cons.prems show ?thesis by auto
  next
    case (Suc j)
    with Cons.prems(1,2) have "\<exists>y \<in> set xs. P y" using nth_mem[of j xs] by auto
    with Suc Cons show ?thesis by simp
  qed
qed

lemma index_rep_update_last:
  assumes "index_rep idx (map hr_id rows)"
  shows "update_last (\<lambda>r. hr_id r = nid) f rows =
     (case idx nid of None \<Rightarrow> rows | Some i \<Rightarrow> rows[i := f (rows ! i)])"
proof (cases "idx nid")
  case None
  with index_rep_None[OF assms] have "nid \<notin> hr_id ` set rows" by simp
  with None show ?thesis by (auto intro!: update_last_none)
next
  case (Some i)
  from index_rep_Some[OF assms Some] Some show ?thesis
    by (auto intro!: update_last_at simp: drop_map image_iff)
qed

lemma map_set_metrics [simp]:
  assumes "i < length rows"
  shows "map hr_id (rows[i := set_metrics lat h (rows ! i)]) = map hr_id rows"
    and "map hr_country_code (rows[i := set_metrics lat h (rows ! i)]) = map hr_country_code rows"
    and "map hr_protocol (rows[i := set_metrics lat h (rows ! i)]) = map hr_protocol rows"
    and "map hr_name (rows[i := set_metrics lat h (rows ! i)]) = map hr_name rows"
    and "map (\<lambda>r. to_lowercase uni (hr_name r)) (rows[i := set_metrics lat h (rows ! i)])
       = map (\<lambda>r. to_lowercase uni (hr_name r)) rows"
    and "map hr_source_sub_ids (rows[i := set_metrics lat h (rows ! i)]) = map hr_source_sub_ids rows"
    and "map hr_latency_ms (rows[i := set_metrics lat h (rows ! i)]) = (map hr_latency_ms rows)[i := lat]"
    and "map hr_health_score (rows[i := set_metrics lat h (rows ! i)])
       = (map hr_health_score rows)[i := min h 100]"
  using assms by (simp_all add: map_update set_metrics_def list_update_same_conv)

lemma update_metrics_rep:
  assumes "store_rep uni st rows"
  shows "\<exists>st'. update_metrics nid lat h st = Some st' \<and>
     store_rep uni st' (update_last (\<lambda>r. hr_id r = nid) (set_metrics lat h) rows) \<and>
     ds_id_to_index st' = ds_id_to_index st"
proof -
  have idx: "index_rep (ds_id_to_index st) (map hr_id rows)"
    using assms by (simp add: store_rep_def columns_rep_def)
  show ?thesis
  proof (cases "ds_id_to_index st nid")
    case None
    with assms show ?thesis by (simp add: update_metrics_def index_rep_update_last[OF idx])
  next
    case (Some i)
    from index_rep_Some[OF idx Some] have "i < length rows" by simp
    with assms Some show ?thesis
      by (simp add: update_metrics_def set_at_def index_rep_update_last[OF idx] store_rep_def columns_rep_def)
  qed
qed

section \<open>What a query returns\<close>

text \<open>
  The untested marker is the greatest \<open>u16\<close>, so the special cases of the comparator agree with
  plain comparison.
\<close>

lemma latency_order_cmp: "latency_order l r = cmp l r"
proof -
  have "UNTESTED_LATENCY = - 1" by (simp add: UNTESTED_LATENCY_def)
  then have "x < UNTESTED_LATENCY" if "x \<noteq> UNTESTED_LATENCY" for x
    using that word_order.not_eq_extremum by metis
  then have "x < UNTESTED_LATENCY \<and> \<not> UNTESTED_LATENCY < x" if "x \<noteq> UNTESTED_LATENCY" for x
    using that by (meson order.asym)
  then show ?thesis by (auto simp: latency_order_def cmp_def split: bool.split)
qed

lemma row_cmp_exact: "exact_comparator (row_cmp st sc ml mh)"
proof -
  have eq: "row_cmp st sc ml mh = (\<lambda>a b. then_with
      (case sc of
           LatencyAsc \<Rightarrow> cmp (ml (unat a)) (ml (unat b))
         | LatencyDesc \<Rightarrow> cmp (ml (unat b)) (ml (unat a))
         | CountryAsc \<Rightarrow> cmp (country_key (ds_country_codes st ! unat a)) (country_key (ds_country_codes st ! unat b))
         | NameAsc \<Rightarrow> cmp (ds_names st ! unat a) (ds_names st ! unat b)
         | HealthScoreDesc \<Rightarrow> cmp (mh (unat b)) (mh (unat a)))
      (cmp (ds_node_ids st ! unat a) (ds_node_ids st ! unat b)))"
    unfolding row_cmp_def Let_def latency_order_cmp by (rule refl)
  show ?thesis unfolding eq
    by (cases sc; simp; rule exact_then) (auto intro: exact_key exact_reverse[OF exact_key])
qed

interpretation shown: exact_comparator "row_cmp st sc ml mh" for st sc ml mh
  by (rule row_cmp_exact)

definition row_matches_spec ::
    "(string \<Rightarrow> string) \<Rightarrow> string \<Rightarrow> country option \<Rightarrow> u16 option \<Rightarrow> hot_node_row \<Rightarrow> bool" where
  "row_matches_spec uni search_term cf sf r \<longleftrightarrow>
     (case sf of None \<Rightarrow> True | Some sub \<Rightarrow> sub \<in> set (hr_source_sub_ids r)) \<and>
     (case cf of None \<Rightarrow> True | Some c \<Rightarrow> hr_country_code r = c) \<and>
     contains_str (to_lowercase uni search_term) (to_lowercase uni (hr_name r))"

definition row_le :: "sort_criteria \<Rightarrow> hot_node_row \<Rightarrow> hot_node_row \<Rightarrow> bool" where
  "row_le sc a b = (case sc of
       LatencyAsc \<Rightarrow> hr_latency_ms a < hr_latency_ms b
         \<or> hr_latency_ms a = hr_latency_ms b \<and> hr_id a \<le> hr_id b
     | LatencyDesc \<Rightarrow> hr_latency_ms b < hr_latency_ms a
         \<or> hr_latency_ms a = hr_latency_ms b \<and> hr_id a \<le> hr_id b
     | CountryAsc \<Rightarrow> country_key (hr_country_code a) < country_key (hr_country_code b)
         \<or> hr_country_code a = hr_country_code b \<and> hr_id a \<le> hr_id b
     | NameAsc \<Rightarrow> hr_name a < hr_name b \<or> hr_name a = hr_name b \<and> hr_id a \<le> hr_id b
     | HealthScoreDesc \<Rightarrow> hr_health_score b < hr_health_score a
         \<or> hr_health_score a = hr_health_score b \<and> hr_id a \<le> hr_id b)"

lemma contains_str_Nil [simp]: "contains_str [] s"
  by (cases s) (simp_all add: starts_with_def)

lemma filter_opt_list_total:
  "(\<And>x. x \<in> set xs \<Longrightarrow> P x = Some (Q x)) \<Longrightarrow> filter_opt_list P xs = Some (filter Q xs)"
  by (induction xs) auto

lemma row_matches_rep:
  assumes "store_rep uni st rows" and "i < length rows"
  shows "row_matches st (to_lowercase uni q) cf sf i = Some (row_matches_spec uni q cf sf (rows ! i))"
proof -
  have cols: "ds_country_codes st = map hr_country_code rows"
    "ds_name_lower st = map (\<lambda>r. to_lowercase uni (hr_name r)) rows"
    using assms(1) by (simp_all add: store_rep_def columns_rep_def)
  show ?thesis
    using has_source_rep[OF assms] assms(2)
    by (auto simp: row_matches_def row_matches_spec_def cols vec_get_def and_then_opt_def
        is_none_or_def split: option.splits)
qed

definition overlay :: "(nat \<Rightarrow> u16) \<Rightarrow> (nat \<Rightarrow> u8) \<Rightarrow> hot_node_row list \<Rightarrow> hot_node_row list" where
  "overlay ml mh rows =
     map (\<lambda>i. (rows ! i)\<lparr>hr_latency_ms := ml i, hr_health_score := mh i\<rparr>) [0..<length rows]"

lemma row_cmp_le:
  assumes "columns_rep uni st rows" and "unat a < length rows" and "unat b < length rows"
    and "row_cmp st sc ml mh a b \<noteq> Greater"
  shows "row_le sc (overlay ml mh rows ! unat a) (overlay ml mh rows ! unat b)"
proof -
  have "country_key c = country_key d \<longleftrightarrow> c = d" for c d
    by (simp add: country_key_def prod_eq_iff)
  with assms show ?thesis
    by (cases sc) (auto simp: row_cmp_def row_le_def overlay_def columns_rep_def latency_order_cmp
        cmp_def Let_def split: if_splits)
qed

lemma run_query_exact:
  assumes rep: "store_rep uni st rows" and small: "length rows \<le> 2 ^ 32"
    and cols: "case cols of None \<Rightarrow> True | Some (l, h) \<Rightarrow> length rows \<le> l \<and> length rows \<le> h"
  shows "\<exists>ixs. run_query uni st q cf sf sc ml mh cols = Some ixs \<and> distinct ixs \<and>
     unat ` set ixs = {i. i < length rows \<and> row_matches_spec uni q cf sf (rows ! i)} \<and>
     sorted_wrt (\<lambda>a b. row_le sc (overlay ml mh rows ! unat a) (overlay ml mh rows ! unat b)) ixs"
proof -
  let ?kept = "filter (\<lambda>i. row_matches_spec uni q cf sf (rows ! i)) [0..<length rows]"
  let ?ixs = "map of_nat ?kept :: u32 list"
  let ?sorted = "sort_by (row_cmp st sc ml mh) ?ixs"
  have crep: "columns_rep uni st rows" and lens: "length (ds_node_ids st) = length rows"
    "length (ds_country_codes st) = length rows" "length (ds_names st) = length rows"
    using rep by (simp_all add: store_rep_def columns_rep_def)
  have filt: "filter_opt_list (row_matches st (to_lowercase uni q) cf sf) [0..<store_len st] = Some ?kept"
    unfolding store_len_def lens by (rule filter_opt_list_total) (simp add: row_matches_rep[OF rep])
  have un: "unat (of_nat i :: u32) = i" if "i \<in> set ?kept" for i
    using that small by (intro unat_of_nat_u32) simp
  have inr: "unat a < length rows" if "a \<in> set ?ixs" for a using that un by auto
  have wide: "unat a < l \<and> unat a < h" if "cols = Some (l, h)" "a \<in> set ?ixs" for a l h
    using inr[OF that(2)] cols that(1) by simp
  have reads: "sort_reads st sc cols ?ixs"
    unfolding sort_reads_def lens using inr wide
    by (cases sc; cases cols) (simp_all split: prod.split)
  have "inj_on (of_nat :: nat \<Rightarrow> u32) (set ?kept)" by (rule inj_onI) (metis un)
  then have dist: "distinct ?ixs" by (simp add: distinct_map)
  have "unat ` set ?ixs = set ?kept" using un by (force simp: image_image)
  moreover have "set ?sorted = set ?ixs" by simp
  ultimately have img: "unat ` set ?sorted = {i. i < length rows \<and> row_matches_spec uni q cf sf (rows ! i)}"
    by auto
  have "sorted_wrt (\<lambda>a b. row_cmp st sc ml mh a b \<noteq> Greater) ?sorted" by (rule shown.sorted_sort_by)
  then have "sorted_wrt (\<lambda>a b. row_le sc (overlay ml mh rows ! unat a) (overlay ml mh rows ! unat b)) ?sorted"
    by (rule sorted_wrt_mono_rel[rotated]) (use inr row_cmp_le[OF crep] in simp)
  moreover have "distinct ?sorted" using dist by (metis mset_eq_imp_distinct_iff mset_sort_by)
  moreover have "run_query uni st q cf sf sc ml mh cols = Some ?sorted"
    by (simp only: run_query_def Let_def filt Option.bind.simps reads if_True)
  ultimately show ?thesis using img by blast
qed

lemma overlay_own_columns:
  assumes "columns_rep uni st rows"
  shows "overlay (\<lambda>i. ds_latencies_ms st ! i) (\<lambda>i. ds_health_scores st ! i) rows = rows"
  using assms by (intro nth_equalityI) (simp_all add: overlay_def columns_rep_def)

lemma query_rows:
  assumes "store_rep uni st rows" and "length rows \<le> 2 ^ 32"
  shows "\<exists>ixs. query uni st q cf sf sc = Some ixs \<and> distinct ixs \<and>
     unat ` set ixs = {i. i < length rows \<and> row_matches_spec uni q cf sf (rows ! i)} \<and>
     sorted_wrt (\<lambda>a b. row_le sc (rows ! unat a) (rows ! unat b)) ixs"
proof -
  have cols: "columns_rep uni st rows" using assms(1) by (simp add: store_rep_def)
  then have "length (ds_latencies_ms st) = length rows" "length (ds_health_scores st) = length rows"
    by (simp_all add: columns_rep_def)
  with run_query_exact[OF assms, of "Some (length (ds_latencies_ms st), length (ds_health_scores st))"
      q cf sf sc "\<lambda>i. ds_latencies_ms st ! i" "\<lambda>i. ds_health_scores st ! i"]
  show ?thesis by (simp add: query_def overlay_own_columns[OF cols])
qed

text \<open>
  Claim C25.  A query never indexes out of range, and returns the positions of exactly the rows
  that satisfy the subscription filter, the country filter and the case-insensitive name search,
  each once, in the order of the criterion with ties in the order of node ids.
\<close>

theorem query_exact:
  assumes "store_rep uni st rows" and "length rows \<le> 2 ^ 32"
  shows "\<exists>ixs. query uni st q cf sf sc = Some ixs \<and> distinct ixs \<and>
     unat ` set ixs = {i. i < length rows \<and> row_matches_spec uni q cf sf (rows ! i)} \<and>
     sorted_wrt (\<lambda>a b. row_le sc (rows ! unat a) (rows ! unat b)) ixs"
  using assms by (rule query_rows)

definition sample_rows :: "hot_node_row list" where
  "sample_rows =
     [\<lparr>hr_id = 7, hr_country_code = (CHR ''D'', CHR ''E''), hr_latency_ms = 90, hr_health_score = 80,
       hr_name = ''Berlin'', hr_protocol = KVless, hr_source_sub_ids = [1, 2]\<rparr>,
      \<lparr>hr_id = 3, hr_country_code = (CHR ''U'', CHR ''S''), hr_latency_ms = 40, hr_health_score = 200,
       hr_name = ''Boston'', hr_protocol = KTuic, hr_source_sub_ids = [2]\<rparr>]"

lemma sample_rows_rep: "store_rep uni (from_hot_rows uni sample_rows) (map clamp_row sample_rows)"
  by (rule from_hot_rows_rep) (simp add: sample_rows_def)

theorem query_exact_witness:
  "\<exists>ixs. query id (from_hot_rows id sample_rows) ''B'' None (Some 2) LatencyAsc = Some ixs \<and> distinct ixs \<and>
     unat ` set ixs = {i. i < length (map clamp_row sample_rows)
       \<and> row_matches_spec id ''B'' None (Some 2) (map clamp_row sample_rows ! i)} \<and>
     sorted_wrt (\<lambda>a b. row_le LatencyAsc (map clamp_row sample_rows ! unat a)
       (map clamp_row sample_rows ! unat b)) ixs"
  by (rule query_exact[OF sample_rows_rep]) (simp add: sample_rows_def)

end
