(* ===== verification/Database.thy ===== *)
theory Database
  imports Store
begin

text \<open>
  The SQLite database (\<open>crates/storage/src/db.rs\<close>): its tables with the constraints of the schema,
  the statements of \<open>db.rs\<close> and \<open>repository.rs\<close> as the table changes their SQL text states, and
  transactions.  SQLite itself is the parameter \<open>sqlite\<close>: when a call fails for a reason of its own
  (I/O, a busy or full database), and which row id it gives a new row.  A statement that violates a
  constraint fails and leaves the tables as they were; a transaction that is not committed leaves
  them as they were at its start.
\<close>

section \<open>Tables\<close>

record subscription_row =
  sr_id :: int
  sr_uuid :: string
  sr_name :: string
  sr_url :: string
  sr_last_updated :: int
  sr_auto_update_interval :: int
  sr_etag :: "string option"

record node_row =
  nr_id :: int
  nr_hash :: bytes
  nr_name :: string
  nr_country_code :: string
  nr_protocol_kind :: int
  nr_raw_payload :: bytes

record diagnostics_row =
  dr_node_id :: int
  dr_last_tested :: int
  dr_latency_ms :: int
  dr_jitter_ms :: int
  dr_packet_loss :: real
  dr_health_score :: int
  dr_is_operational :: int

text \<open>
  \<open>db_has_kind\<close> is whether the table of nodes has its \<open>protocol_kind\<close> column; in a database from
  before that column the values of \<^term>\<open>nr_protocol_kind\<close> are not there yet.
\<close>

record database =
  db_subscriptions :: "subscription_row list"
  db_nodes :: "node_row list"
  db_node_sources :: "(int \<times> int) list"
  db_diagnostics :: "diagnostics_row list"
  db_has_kind :: bool

definition empty_database :: database where
  "empty_database = \<lparr>db_subscriptions = [], db_nodes = [], db_node_sources = [], db_diagnostics = [],
     db_has_kind = True\<rparr>"

section \<open>Connections\<close>

record sqlite =
  sq_fault :: "nat \<Rightarrow> string option"
  sq_rowid :: "int list \<Rightarrow> int"

record connection =
  co_db :: database
  co_calls :: nat

type_synonym 'a sql = "connection \<Rightarrow> 'a res \<times> connection"

definition sql_return :: "'a \<Rightarrow> 'a sql" where
  "sql_return a c = (Ok a, c)"

definition sql_raise :: "string \<Rightarrow> 'a sql" where
  "sql_raise e c = (Err e, c)"

definition sql_bind :: "'a sql \<Rightarrow> ('a \<Rightarrow> 'b sql) \<Rightarrow> 'b sql" where
  "sql_bind m f c = (case m c of (Inl e, c1) \<Rightarrow> (Err e, c1) | (Inr a, c1) \<Rightarrow> f a c1)"

definition sql_lift :: "'a res \<Rightarrow> 'a sql" where
  "sql_lift r c = (r, c)"

definition sql_call :: "sqlite \<Rightarrow> (database \<Rightarrow> ('a \<times> database) res) \<Rightarrow> 'a sql" where
  "sql_call sq stmt c =
     (let c1 = c\<lparr>co_calls := co_calls c + 1\<rparr> in
      case sq_fault sq (co_calls c) of
        Some e \<Rightarrow> (Err e, c1)
      | None \<Rightarrow>
          (case stmt (co_db c) of
             Inl e \<Rightarrow> (Err e, c1)
           | Inr (a, db) \<Rightarrow> (Ok a, c1\<lparr>co_db := db\<rparr>)))"

text \<open>A call that compiles a statement, begins or commits: it can fail and changes no table.\<close>

definition sql_tick :: "sqlite \<Rightarrow> unit sql" where
  "sql_tick sq = sql_call sq (\<lambda>db. Ok ((), db))"

text \<open>
  \<open>unchecked_transaction\<close>, the body, \<open>commit\<close>; when the body or the commit fails, dropping the
  transaction rolls it back.
\<close>

definition transaction :: "sqlite \<Rightarrow> 'a sql \<Rightarrow> 'a sql" where
  "transaction sq body c =
     (case sql_tick sq c of
        (Inl e, c1) \<Rightarrow> (Err e, c1)
      | (Inr u, c1) \<Rightarrow>
          (case sql_bind body (\<lambda>a. sql_bind (sql_tick sq) (\<lambda>v. sql_return a)) c1 of
             (Inl e, c2) \<Rightarrow> (Err e, c2\<lparr>co_db := co_db c1\<rparr>)
           | (Inr a, c2) \<Rightarrow> (Ok a, c2)))"

section \<open>Statements\<close>

text \<open>\<open>length\<close> of a text: the characters before the first NUL.\<close>

definition sql_length :: "string \<Rightarrow> nat" where
  "sql_length s = length (filter (\<lambda>c. \<not> cont_byte (byte_of c)) (takeWhile (\<lambda>c. byte_of c \<noteq> 0) s))"

text \<open>A \<open>u64\<close> parameter has to fit the signed 64-bit integers of SQLite.\<close>

definition to_sql_u64 :: "u64 \<Rightarrow> int res" where
  "to_sql_u64 v = (if uint v < 2 ^ 63 then Ok (uint v) else Err ''out of range integral type conversion attempted'')"

definition put_subscription :: "subscription_row \<Rightarrow> database \<Rightarrow> (unit \<times> database) res" where
  "put_subscription row db =
     (if list_ex (\<lambda>r. sr_id r \<noteq> sr_id row \<and> sr_uuid r = sr_uuid row) (db_subscriptions db)
      then Err ''UNIQUE constraint failed: subscriptions.uuid''
      else Ok ((), db\<lparr>db_subscriptions :=
        (if list_ex (\<lambda>r. sr_id r = sr_id row) (db_subscriptions db)
         then map (\<lambda>r. if sr_id r = sr_id row then row else r) (db_subscriptions db)
         else db_subscriptions db @ [row])\<rparr>))"

definition insert_node ::
    "sqlite \<Rightarrow> bytes \<Rightarrow> string \<Rightarrow> string \<Rightarrow> int \<Rightarrow> bytes \<Rightarrow> database \<Rightarrow> (nat \<times> database) res" where
  "insert_node sq hash name country kind payload db =
     (if length hash \<noteq> 32 then Err ''CHECK constraint failed: length(hash) = 32''
      else if sql_length country \<noteq> 2 then Err ''CHECK constraint failed: length(country_code) = 2''
      else if list_ex (\<lambda>r. nr_hash r = hash) (db_nodes db) then Ok (0, db)
      else Ok (1, db\<lparr>db_nodes := db_nodes db @ [\<lparr>nr_id = sq_rowid sq (map nr_id (db_nodes db)),
        nr_hash = hash, nr_name = name, nr_country_code = country, nr_protocol_kind = kind,
        nr_raw_payload = payload\<rparr>]\<rparr>))"

definition find_node :: "bytes \<Rightarrow> database \<Rightarrow> (int \<times> database) res" where
  "find_node hash db =
     (case find (\<lambda>r. nr_hash r = hash) (db_nodes db) of
        Some r \<Rightarrow> Ok (nr_id r, db)
      | None \<Rightarrow> Err ''Query returned no rows'')"

definition insert_source :: "int \<Rightarrow> int \<Rightarrow> database \<Rightarrow> (unit \<times> database) res" where
  "insert_source node_id sub db =
     (if (node_id, sub) \<in> set (db_node_sources db) then Ok ((), db)
      else if node_id \<notin> nr_id ` set (db_nodes db) \<or> sub \<notin> sr_id ` set (db_subscriptions db)
      then Err ''FOREIGN KEY constraint failed''
      else Ok ((), db\<lparr>db_node_sources := db_node_sources db @ [(node_id, sub)]\<rparr>))"

definition insert_diagnostics :: "int \<Rightarrow> database \<Rightarrow> (unit \<times> database) res" where
  "insert_diagnostics node_id db =
     (if list_ex (\<lambda>d. dr_node_id d = node_id) (db_diagnostics db) then Ok ((), db)
      else if node_id \<notin> nr_id ` set (db_nodes db) then Err ''FOREIGN KEY constraint failed''
      else Ok ((), db\<lparr>db_diagnostics := db_diagnostics db @ [\<lparr>dr_node_id = node_id, dr_last_tested = 0,
        dr_latency_ms = 65535, dr_jitter_ms = 0, dr_packet_loss = 0, dr_health_score = 0,
        dr_is_operational = 0\<rparr>]\<rparr>))"

definition delete_sources :: "int \<Rightarrow> database \<Rightarrow> (unit \<times> database) res" where
  "delete_sources sub db =
     Ok ((), db\<lparr>db_node_sources := filter (\<lambda>p. snd p \<noteq> sub) (db_node_sources db)\<rparr>)"

definition has_link :: "database \<Rightarrow> int \<Rightarrow> bool" where
  "has_link db node_id = list_ex (\<lambda>p. fst p = node_id) (db_node_sources db)"

text \<open>Deleting nodes takes their diagnostics along; the deleted ones have no source rows.\<close>

definition delete_orphans :: "database \<Rightarrow> (nat \<times> database) res" where
  "delete_orphans db =
     Ok (length (filter (\<lambda>r. \<not> has_link db (nr_id r)) (db_nodes db)),
       db\<lparr>db_nodes := filter (\<lambda>r. has_link db (nr_id r)) (db_nodes db),
          db_diagnostics := filter (\<lambda>d. has_link db (dr_node_id d)) (db_diagnostics db)\<rparr>)"

section \<open>Opening and upgrading (\<open>db.rs\<close>)\<close>

text \<open>
  \<open>ensure_protocol_kind_column\<close>: the column is added with the value 0, then every row whose
  payload decodes is set to the kind of its node.  The calls are not in a transaction.  Compiling
  a statement and starting it count as one call.
\<close>

definition add_kind_column :: "database \<Rightarrow> (unit \<times> database) res" where
  "add_kind_column db = Ok ((), db\<lparr>db_has_kind := True,
     db_nodes := map (\<lambda>r. r\<lparr>nr_protocol_kind := 0\<rparr>) (db_nodes db)\<rparr>)"

definition set_kind :: "int \<Rightarrow> int \<Rightarrow> database \<Rightarrow> (unit \<times> database) res" where
  "set_kind node_id kind db = Ok ((), db\<lparr>db_nodes :=
     map (\<lambda>r. if nr_id r = node_id then r\<lparr>nr_protocol_kind := kind\<rparr> else r) (db_nodes db)\<rparr>)"

fun backfill :: "sqlite \<Rightarrow> codec \<Rightarrow> (int \<times> bytes) list \<Rightarrow> unit sql" where
  "backfill sq cd [] = sql_tick sq"
| "backfill sq cd ((node_id, payload) # rows) =
     sql_bind (sql_tick sq) (\<lambda>u.
       case de_node cd payload of
         Inl e \<Rightarrow> backfill sq cd rows
       | Inr node \<Rightarrow>
           sql_bind (sql_call sq (set_kind node_id (uint (discriminant (kind_of (cn_protocol node))))))
             (\<lambda>v. backfill sq cd rows))"

definition ensure_protocol_kind_column :: "sqlite \<Rightarrow> codec \<Rightarrow> unit sql" where
  "ensure_protocol_kind_column sq cd =
     sql_bind (sql_call sq (\<lambda>db. Ok (db_has_kind db, db))) (\<lambda>found.
       if found then sql_return ()
       else sql_bind (sql_call sq add_kind_column) (\<lambda>u.
         sql_bind (sql_call sq (\<lambda>db. Ok (map (\<lambda>r. (nr_id r, nr_raw_payload r)) (db_nodes db), db)))
           (\<lambda>rows. backfill sq cd rows)))"

text \<open>An error that gets a context is the context followed by the error.\<close>

definition sql_context :: "string \<Rightarrow> 'a sql \<Rightarrow> 'a sql" where
  "sql_context what m = (\<lambda>c. case m c of (Inl e, c') \<Rightarrow> (Inl (what @ '': '' @ e), c') | (Inr a, c') \<Rightarrow> (Inr a, c'))"

section \<open>Opening\<close>

text \<open>
  A file that is not there yet, or has no tables, is opened as the empty database with the
  column: the schema creates what is missing and leaves the rest.  The six settings of the connection change no table.
\<close>

definition pragmas :: "string list" where
  "pragmas = [''foreign_keys'', ''journal_mode'', ''synchronous'', ''mmap_size'', ''temp_store'', ''cache_size'']"

fun configure_connection :: "sqlite \<Rightarrow> string list \<Rightarrow> unit sql" where
  "configure_connection sq [] = sql_return ()"
| "configure_connection sq (p # ps) = sql_bind (sql_tick sq) (\<lambda>u. configure_connection sq ps)"

definition initialize_schema :: "sqlite \<Rightarrow> codec \<Rightarrow> unit sql" where
  "initialize_schema sq cd = sql_bind (sql_tick sq) (\<lambda>u. ensure_protocol_kind_column sq cd)"

definition open_database :: "sqlite \<Rightarrow> codec \<Rightarrow> database option \<Rightarrow> unit res \<times> connection" where
  "open_database sq cd stored =
     sql_bind (sql_context ''failed to open SQLite database'' (sql_tick sq)) (\<lambda>u.
     sql_bind (configure_connection sq pragmas) (\<lambda>u. initialize_schema sq cd))
       \<lparr>co_db = unwrap_or empty_database stored, co_calls = 0\<rparr>"

definition open_memory_database :: "sqlite \<Rightarrow> codec \<Rightarrow> unit res \<times> connection" where
  "open_memory_database sq cd =
     sql_bind (sql_context ''failed to open in-memory database'' (sql_tick sq)) (\<lambda>u.
     sql_bind (configure_connection sq pragmas) (\<lambda>u. initialize_schema sq cd))
       \<lparr>co_db = empty_database, co_calls = 0\<rparr>"

section \<open>Running statements\<close>

lemma sql_return_Ok [simp]: "sql_return a c = (Inr b, c') \<longleftrightarrow> a = b \<and> c = c'"
  by (simp add: sql_return_def)

lemma sql_bind_Ok [simp]:
  "sql_bind m f c = (Inr b, c') \<longleftrightarrow> (\<exists>a c1. m c = (Inr a, c1) \<and> f a c1 = (Inr b, c'))"
  by (auto simp: sql_bind_def split: prod.splits sum.splits)

lemma sql_lift_Ok [simp]: "sql_lift r c = (Inr a, c') \<longleftrightarrow> r = Inr a \<and> c = c'"
  by (auto simp: sql_lift_def)

lemma sql_raise_Ok [simp]: "sql_raise e c \<noteq> (Inr a, c')"
  by (simp add: sql_raise_def)

lemma sql_call_Ok:
  "sql_call sq stmt c = (Inr a, c') \<longleftrightarrow> sq_fault sq (co_calls c) = None
     \<and> stmt (co_db c) = Inr (a, co_db c') \<and> co_calls c' = Suc (co_calls c)"
  by (cases c; cases c') (auto simp: sql_call_def Let_def split: option.splits sum.splits)

lemma sql_call_db: "sql_call sq stmt c = (Inr a, c') \<Longrightarrow> stmt (co_db c) = Inr (a, co_db c')"
  by (simp add: sql_call_Ok)

lemma sql_tick_Ok: "sql_tick sq c = (Inr u, c') \<Longrightarrow> co_db c' = co_db c"
  by (auto simp: sql_tick_def sql_call_Ok)

lemma sql_tick_Err: "sql_tick sq c = (Inl e, c') \<Longrightarrow> co_db c' = co_db c"
  by (auto simp: sql_tick_def sql_call_def Let_def split: option.splits)

lemma transaction_Ok:
  assumes "transaction sq body c = (Inr a, c')"
  shows "\<exists>c1 c2. co_db c1 = co_db c \<and> body c1 = (Inr a, c2) \<and> co_db c' = co_db c2"
proof -
  obtain u c1 where started: "sql_tick sq c = (Inr u, c1)"
    using assms by (auto simp: transaction_def split: prod.splits sum.splits)
  with assms have "sql_bind body (\<lambda>a. sql_bind (sql_tick sq) (\<lambda>v. sql_return a)) c1 = (Inr a, c')"
    by (auto simp: transaction_def simp del: sql_bind_Ok split: prod.splits sum.splits)
  then obtain c2 v where "body c1 = (Inr a, c2)" "sql_tick sq c2 = (Inr v, c')" by auto
  with sql_tick_Ok started show ?thesis by metis
qed

lemma transaction_Err:
  assumes "transaction sq body c = (Inl e, c')"
  shows "co_db c' = co_db c"
proof (cases "sql_tick sq c")
  case (Pair r c1)
  show ?thesis
  proof (cases r)
    case (Inl e')
    with Pair assms show ?thesis by (auto simp: transaction_def dest: sql_tick_Err)
  next
    case (Inr u)
    with Pair have "co_db c1 = co_db c" by (simp add: sql_tick_Ok)
    with Pair Inr assms show ?thesis by (auto simp: transaction_def split: prod.splits sum.splits)
  qed
qed

section \<open>What the schema guarantees\<close>

text \<open>The constraints of \<open>initialize_schema\<close>: keys, uniqueness, checks and references.\<close>

definition db_ok :: "database \<Rightarrow> bool" where
  "db_ok db \<longleftrightarrow>
     distinct (map sr_id (db_subscriptions db)) \<and> distinct (map sr_uuid (db_subscriptions db)) \<and>
     distinct (map nr_id (db_nodes db)) \<and> distinct (map nr_hash (db_nodes db)) \<and>
     (\<forall>r \<in> set (db_nodes db). length (nr_hash r) = 32 \<and> sql_length (nr_country_code r) = 2) \<and>
     distinct (db_node_sources db) \<and>
     (\<forall>n s. (n, s) \<in> set (db_node_sources db) \<longrightarrow> n \<in> nr_id ` set (db_nodes db)
        \<and> s \<in> sr_id ` set (db_subscriptions db)) \<and>
     distinct (map dr_node_id (db_diagnostics db)) \<and>
     (\<forall>d \<in> set (db_diagnostics db). dr_node_id d \<in> nr_id ` set (db_nodes db) \<and>
        0 \<le> dr_latency_ms d \<and> dr_latency_ms d \<le> 65535 \<and>
        0 \<le> dr_health_score d \<and> dr_health_score d \<le> 100)"

text \<open>SQLite gives a new row an id that no row of the table has.\<close>

definition fresh_rowids :: "sqlite \<Rightarrow> bool" where
  "fresh_rowids sq \<longleftrightarrow> (\<forall>ids. sq_rowid sq ids \<notin> set ids)"

lemma db_ok_empty: "db_ok empty_database"
  by (simp add: db_ok_def empty_database_def)

lemma map_replace_ids:
  "map sr_id (map (\<lambda>r. if sr_id r = sr_id row then row else r) rows) = map sr_id rows"
  by (induction rows) auto

lemma distinct_uuid_replace:
  assumes "distinct (map sr_id rows)" and "distinct (map sr_uuid rows)"
    and "\<not> list_ex (\<lambda>r. sr_id r \<noteq> sr_id row \<and> sr_uuid r = sr_uuid row) rows"
  shows "distinct (map sr_uuid (map (\<lambda>r. if sr_id r = sr_id row then row else r) rows))"
  using assms
proof (induction rows)
  case Nil
  then show ?case by simp
next
  case (Cons r rows)
  have same: "map (\<lambda>r. if sr_id r = sr_id row then row else r) rows = rows" if "sr_id r = sr_id row"
    using Cons.prems(1) that by (intro map_idI) (auto simp: image_iff)
  show ?case
  proof (cases "sr_id r = sr_id row")
    case True
    then have ne: "sr_id x \<noteq> sr_id row" if "x \<in> set rows" for x
      using Cons.prems(1) that by (metis distinct.simps(2) imageI list.set_map list.simps(9))
    have "\<forall>x \<in> set rows. sr_id x = sr_id row \<or> sr_uuid x \<noteq> sr_uuid row"
      using Cons.prems(3) by (simp add: list_ex_iff)
    with ne have "sr_uuid x \<noteq> sr_uuid row" if "x \<in> set rows" for x using that by blast
    then have "sr_uuid row \<notin> sr_uuid ` set rows" by (metis imageE)
    with True same[OF True] Cons.prems(2) show ?thesis by simp
  next
    case False
    with Cons have "distinct (map sr_uuid (map (\<lambda>r. if sr_id r = sr_id row then row else r) rows))" by simp
    moreover have "sr_uuid r \<notin> set (map sr_uuid (map (\<lambda>r. if sr_id r = sr_id row then row else r) rows))"
      using Cons.prems(2,3) False by (auto simp: image_iff)
    ultimately show ?thesis using False by simp
  qed
qed

lemma put_subscription_ok:
  assumes "db_ok db" and "put_subscription row db = Inr (u, db')"
  shows "db_ok db' \<and> row \<in> set (db_subscriptions db')
    \<and> (\<forall>r. sr_id r \<noteq> sr_id row \<longrightarrow> (r \<in> set (db_subscriptions db') \<longleftrightarrow> r \<in> set (db_subscriptions db)))
    \<and> db' = db\<lparr>db_subscriptions := db_subscriptions db'\<rparr>"
proof -
  let ?old = "db_subscriptions db" and ?new = "db_subscriptions db'"
  have uuid: "\<not> list_ex (\<lambda>r. sr_id r \<noteq> sr_id row \<and> sr_uuid r = sr_uuid row) ?old"
    and db': "db' = db\<lparr>db_subscriptions := ?new\<rparr>"
    and new: "?new = (if list_ex (\<lambda>r. sr_id r = sr_id row) ?old
       then map (\<lambda>r. if sr_id r = sr_id row then row else r) ?old else ?old @ [row])"
    using assms(2) by (auto simp: put_subscription_def split: if_splits)
  have ids: "distinct (map sr_id ?old)" "distinct (map sr_uuid ?old)" using assms(1) by (simp_all add: db_ok_def)
  have key: "distinct (map sr_id ?new) \<and> distinct (map sr_uuid ?new)
      \<and> sr_id ` set ?old \<subseteq> sr_id ` set ?new \<and> row \<in> set ?new
      \<and> (\<forall>r. sr_id r \<noteq> sr_id row \<longrightarrow> (r \<in> set ?new \<longleftrightarrow> r \<in> set ?old))"
  proof (cases "list_ex (\<lambda>r. sr_id r = sr_id row) ?old")
    case True
    with new have n: "?new = map (\<lambda>r. if sr_id r = sr_id row then row else r) ?old" by simp
    have "set (map sr_id ?new) = set (map sr_id ?old)" unfolding n map_replace_ids ..
    moreover have "row \<in> set ?new" using True unfolding n by (auto simp: list_ex_iff image_iff)
    moreover have "distinct (map sr_id ?new)" "distinct (map sr_uuid ?new)"
      unfolding n map_replace_ids using ids distinct_uuid_replace[OF ids uuid] by simp_all
    ultimately show ?thesis unfolding n by (auto simp: image_iff)
  next
    case False
    with new have n: "?new = ?old @ [row]" by simp
    have "sr_uuid row \<notin> sr_uuid ` set ?old" "sr_id row \<notin> sr_id ` set ?old"
      using uuid False by (auto simp: list_ex_iff image_iff)
    then show ?thesis unfolding n using ids by auto
  qed
  have "db_ok (db\<lparr>db_subscriptions := ?new\<rparr>)"
    using assms(1) key by (simp add: db_ok_def subset_iff)
  with db' key show ?thesis by metis
qed

lemma insert_node_ok:
  assumes "db_ok db" and "fresh_rowids sq"
    and "insert_node sq hash name country kind payload db = Inr (k, db')"
  shows "db_ok db' \<and> hash \<in> nr_hash ` set (db_nodes db') \<and>
     (k = 0 \<and> hash \<in> nr_hash ` set (db_nodes db) \<and> db' = db \<or>
      k = 1 \<and> hash \<notin> nr_hash ` set (db_nodes db) \<and>
      db' = db\<lparr>db_nodes := db_nodes db @ [\<lparr>nr_id = sq_rowid sq (map nr_id (db_nodes db)),
        nr_hash = hash, nr_name = name, nr_country_code = country, nr_protocol_kind = kind,
        nr_raw_payload = payload\<rparr>]\<rparr>)"
proof (cases "list_ex (\<lambda>r. nr_hash r = hash) (db_nodes db)")
  case True
  with assms show ?thesis by (auto simp: insert_node_def list_ex_iff split: if_splits)
next
  case False
  then have new: "hash \<notin> nr_hash ` set (db_nodes db)" by (auto simp: list_ex_iff)
  have "sq_rowid sq (map nr_id (db_nodes db)) \<notin> set (map nr_id (db_nodes db))"
    using assms(2) unfolding fresh_rowids_def by blast
  with assms(1,3) False new show ?thesis
    by (auto simp: insert_node_def db_ok_def split: if_splits)
qed

lemma find_node_ok:
  "find_node hash db = Inr (node_id, db') \<Longrightarrow>
     db' = db \<and> (\<exists>r \<in> set (db_nodes db). nr_id r = node_id \<and> nr_hash r = hash)"
  by (auto simp: find_node_def split: option.splits dest: find_Some_mem)

lemma insert_source_ok:
  assumes "db_ok db" and "insert_source node_id sub db = Inr (u, db')"
  shows "db_ok db' \<and> db' = db\<lparr>db_node_sources := db_node_sources db'\<rparr> \<and>
     set (db_node_sources db') = insert (node_id, sub) (set (db_node_sources db))"
  using assms by (auto simp: insert_source_def db_ok_def split: if_splits)

lemma insert_diagnostics_ok:
  assumes "db_ok db" and "insert_diagnostics node_id db = Inr (u, db')"
  shows "db_ok db' \<and> db' = db\<lparr>db_diagnostics := db_diagnostics db'\<rparr>"
  using assms by (auto simp: insert_diagnostics_def db_ok_def list_ex_iff split: if_splits) blast

lemma delete_sources_ok: "db_ok db \<Longrightarrow> delete_sources sub db = Inr (u, db') \<Longrightarrow> db_ok db'"
  by (auto simp: delete_sources_def db_ok_def)

lemma delete_orphans_ok:
  assumes "db_ok db" and "delete_orphans db = Inr (k, db')"
  shows "db_ok db'"
proof -
  have linked: "has_link db n" if "(n, s) \<in> set (db_node_sources db)" for n s
    using that by (force simp: has_link_def list_ex_iff)
  have keep: "i \<in> nr_id ` set (filter (\<lambda>r. has_link db (nr_id r)) (db_nodes db))"
    if "i \<in> nr_id ` set (db_nodes db)" "has_link db i" for i using that by auto
  show ?thesis using assms linked keep
    by (auto simp: delete_orphans_def db_ok_def distinct_map_filter)
qed

section \<open>The upgrade\<close>

definition payload_kind :: "codec \<Rightarrow> bytes \<Rightarrow> int" where
  "payload_kind cd payload =
     (case de_node cd payload of Inl e \<Rightarrow> 0 | Inr n \<Rightarrow> uint (discriminant (kind_of (cn_protocol n))))"

definition kind_column :: "codec \<Rightarrow> node_row \<Rightarrow> node_row" where
  "kind_column cd r = r\<lparr>nr_protocol_kind := payload_kind cd (nr_raw_payload r)\<rparr>"

definition zero_kind :: "node_row \<Rightarrow> node_row" where
  "zero_kind r = r\<lparr>nr_protocol_kind := 0\<rparr>"

lemma set_kind_middle:
  assumes "nr_id r \<notin> nr_id ` set xs" and "nr_id r \<notin> nr_id ` set ys"
  shows "map (\<lambda>q. if nr_id q = nr_id r then q\<lparr>nr_protocol_kind := k\<rparr> else q)
     (map (kind_column cd) xs @ zero_kind r # map zero_kind ys)
   = map (kind_column cd) xs @ r\<lparr>nr_protocol_kind := k\<rparr> # map zero_kind ys"
proof -
  have ne: "nr_id x \<noteq> nr_id r" if "x \<in> set xs \<union> set ys" for x
    using assms that by (metis Un_iff imageI)
  have "nr_id (kind_column cd x) \<noteq> nr_id r" if "x \<in> set xs" for x
    using ne that by (simp add: kind_column_def)
  moreover have "nr_id (zero_kind x) \<noteq> nr_id r" if "x \<in> set ys" for x
    using ne that by (simp add: zero_kind_def)
  ultimately show ?thesis by (auto simp: zero_kind_def comp_def intro!: map_cong)
qed

lemma backfill_result:
  assumes "backfill sq cd (map (\<lambda>r. (nr_id r, nr_raw_payload r)) ys) c = (Inr u, c')"
    and "db_nodes (co_db c) = map (kind_column cd) xs @ map zero_kind ys"
    and "distinct (map nr_id (xs @ ys))"
  shows "co_db c' = (co_db c)\<lparr>db_nodes := map (kind_column cd) (xs @ ys)\<rparr>"
  using assms
proof (induction ys arbitrary: xs c)
  case Nil
  then show ?case by (simp add: sql_tick_Ok)
next
  case (Cons r ys)
  obtain v c1 where tick: "sql_tick sq c = (Inr v, c1)" using Cons.prems(1) by auto
  have db1: "co_db c1 = co_db c" using tick by (rule sql_tick_Ok)
  have ids: "nr_id r \<notin> nr_id ` set xs" "nr_id r \<notin> nr_id ` set ys" "distinct (map nr_id ((xs @ [r]) @ ys))"
    using Cons.prems(3) by auto
  show ?case
  proof (cases "de_node cd (nr_raw_payload r)")
    case (Inl e)
    then have kc: "kind_column cd r = zero_kind r"
      by (simp add: kind_column_def payload_kind_def zero_kind_def)
    have "co_db c' = (co_db c1)\<lparr>db_nodes := map (kind_column cd) ((xs @ [r]) @ ys)\<rparr>"
      by (rule Cons.IH) (use Cons.prems tick db1 Inl ids kc in simp_all)
    with db1 show ?thesis by simp
  next
    case (Inr node)
    let ?k = "uint (discriminant (kind_of (cn_protocol node)))"
    have kc: "kind_column cd r = r\<lparr>nr_protocol_kind := ?k\<rparr>"
      using Inr by (simp add: kind_column_def payload_kind_def)
    obtain w c2 where set: "sql_call sq (set_kind (nr_id r) ?k) c1 = (Inr w, c2)"
      and rest: "backfill sq cd (map (\<lambda>r. (nr_id r, nr_raw_payload r)) ys) c2 = (Inr u, c')"
      using Cons.prems(1) tick Inr by auto
    have mid: "map (\<lambda>q. if nr_id q = nr_id r then q\<lparr>nr_protocol_kind := ?k\<rparr> else q) (db_nodes (co_db c))
        = map (kind_column cd) xs @ kind_column cd r # map zero_kind ys"
      unfolding Cons.prems(2) kc list.map(2) by (rule set_kind_middle[OF ids(1,2)])
    have db2: "co_db c2 = (co_db c)\<lparr>db_nodes := map (kind_column cd) (xs @ [r]) @ map zero_kind ys\<rparr>"
      using sql_call_db[OF set] unfolding set_kind_def db1 mid by simp
    have "co_db c' = (co_db c2)\<lparr>db_nodes := map (kind_column cd) ((xs @ [r]) @ ys)\<rparr>"
      by (rule Cons.IH[OF rest]) (use db2 ids in simp_all)
    with db2 show ?thesis by simp
  qed
qed

lemma upgrade_fills:
  assumes "ensure_protocol_kind_column sq cd c = (Inr u, c')" and "db_ok (co_db c)"
    and "\<not> db_has_kind (co_db c)"
  shows "co_db c' = (co_db c)\<lparr>db_has_kind := True, db_nodes := map (kind_column cd) (db_nodes (co_db c))\<rparr>"
proof -
  let ?db = "co_db c"
  obtain found c1 where look: "sql_call sq (\<lambda>db. Ok (db_has_kind db, db)) c = (Inr found, c1)"
    and step: "(if found then sql_return () else sql_bind (sql_call sq add_kind_column) (\<lambda>u.
         sql_bind (sql_call sq (\<lambda>db. Ok (map (\<lambda>r. (nr_id r, nr_raw_payload r)) (db_nodes db), db)))
           (\<lambda>rows. backfill sq cd rows))) c1 = (Inr u, c')"
    using assms(1) by (auto simp: ensure_protocol_kind_column_def)
  have c1: "co_db c1 = ?db" "\<not> found" using look assms(3) by (auto simp: sql_call_Ok)
  obtain v c2 rows c3 where add: "sql_call sq add_kind_column c1 = (Inr v, c2)"
    and sel: "sql_call sq (\<lambda>db. Ok (map (\<lambda>r. (nr_id r, nr_raw_payload r)) (db_nodes db), db)) c2 = (Inr rows, c3)"
    and fill: "backfill sq cd rows c3 = (Inr u, c')"
    using step c1(2) by auto
  have db2: "co_db c2 = ?db\<lparr>db_has_kind := True, db_nodes := map zero_kind (db_nodes ?db)\<rparr>"
    using sql_call_db[OF add] c1(1) by (simp add: add_kind_column_def zero_kind_def[abs_def])
  have c3: "co_db c3 = co_db c2" "rows = map (\<lambda>r. (nr_id r, nr_raw_payload r)) (db_nodes ?db)"
    using sql_call_db[OF sel] db2 by (auto simp: zero_kind_def comp_def)
  have "co_db c' = (co_db c3)\<lparr>db_nodes := map (kind_column cd) ([] @ db_nodes ?db)\<rparr>"
    by (rule backfill_result) (use fill c3 db2 assms(2) in \<open>simp_all add: db_ok_def\<close>)
  with c3 db2 show ?thesis by simp
qed

text \<open>
  The upgrade of a database from before the protocol column, when it completes, sets
  the column of every row to the protocol of the node its payload decodes to, and to VLESS where
  the payload does not decode; nothing else changes.
\<close>

theorem upgrade_backfills_every_row:
  assumes "ensure_protocol_kind_column sq cd c = (Inr u, c')" and "db_ok (co_db c)"
    and "\<not> db_has_kind (co_db c)"
  shows "co_db c' = (co_db c)\<lparr>db_has_kind := True, db_nodes := map (kind_column cd) (db_nodes (co_db c))\<rparr>"
  using assms by (rule upgrade_fills)

text \<open>
  Once the column is there the upgrade does nothing, so rows that a failed first run left at 0
  keep that value.
\<close>

lemma upgrade_not_resumed:
  "ensure_protocol_kind_column sq cd c = (Inr u, c') \<Longrightarrow> db_has_kind (co_db c) \<Longrightarrow> co_db c' = co_db c"
  by (auto simp: ensure_protocol_kind_column_def sql_call_Ok)

definition quiet_sqlite :: sqlite where
  "quiet_sqlite = \<lparr>sq_fault = (\<lambda>k. None), sq_rowid = (\<lambda>ids. if ids = [] then 1 else Max (set ids) + 1)\<rparr>"

lemma quiet_fresh: "fresh_rowids quiet_sqlite"
proof -
  have "Max (set ids) + 1 \<notin> set ids" for ids :: "int list"
    using Max_ge[of "set ids" "Max (set ids) + 1"] by force
  then show ?thesis by (auto simp: fresh_rowids_def quiet_sqlite_def)
qed

definition failing_sqlite :: "nat \<Rightarrow> sqlite" where
  "failing_sqlite n = quiet_sqlite\<lparr>sq_fault := (\<lambda>k. if k = n then Some ''disk I/O error'' else None)\<rparr>"

definition trojan_codec :: codec where
  "trojan_codec = sample_codec\<lparr>de_node := (\<lambda>bs. Ok ((sample_node ''DE'' ''node.com'' 443)
     \<lparr>cn_protocol := Trojan \<lparr>tr_password = ''p''\<rparr>\<rparr>))\<rparr>"

definition legacy_connection :: connection where
  "legacy_connection = \<lparr>co_db = empty_database\<lparr>db_has_kind := False,
     db_nodes := [\<lparr>nr_id = 1, nr_hash = replicate 32 0, nr_name = ''DE'', nr_country_code = ''DE'',
       nr_protocol_kind = 0, nr_raw_payload = []\<rparr>]\<rparr>, co_calls = 0\<rparr>"

lemmas sql_eval = ensure_protocol_kind_column_def sql_bind_def sql_call_def sql_tick_def sql_return_def
  add_kind_column_def set_kind_def quiet_sqlite_def failing_sqlite_def Let_def

lemma interrupted_upgrade_is_final:
  "\<exists>c1 c2. fst (ensure_protocol_kind_column (failing_sqlite 3) trojan_codec legacy_connection) = Inl ''disk I/O error'' \<and>
     snd (ensure_protocol_kind_column (failing_sqlite 3) trojan_codec legacy_connection) = c1 \<and>
     ensure_protocol_kind_column quiet_sqlite trojan_codec c1 = (Inr (), c2) \<and>
     map nr_protocol_kind (db_nodes (co_db c2)) = [0] \<and>
     map (payload_kind trojan_codec \<circ> nr_raw_payload) (db_nodes (co_db c2)) = [2]"
  by (simp add: sql_eval legacy_connection_def empty_database_def trojan_codec_def payload_kind_def)

theorem upgrade_backfills_every_row_witness:
  "\<exists>u c'. ensure_protocol_kind_column quiet_sqlite trojan_codec legacy_connection = (Inr u, c') \<and>
     co_db c' = (co_db legacy_connection)\<lparr>db_has_kind := True,
       db_nodes := map (kind_column trojan_codec) (db_nodes (co_db legacy_connection))\<rparr>"
proof -
  have "\<exists>u c'. ensure_protocol_kind_column quiet_sqlite trojan_codec legacy_connection = (Inr u, c')"
    by (simp add: sql_eval legacy_connection_def empty_database_def trojan_codec_def)
  then obtain u c' where run:
    "ensure_protocol_kind_column quiet_sqlite trojan_codec legacy_connection = (Inr u, c')" by blast
  have "db_ok (co_db legacy_connection)" "\<not> db_has_kind (co_db legacy_connection)"
    by (simp_all add: legacy_connection_def empty_database_def db_ok_def sql_length_def cont_byte_def)
  from upgrade_backfills_every_row[OF run this] run show ?thesis by blast
qed

section \<open>Reopening\<close>

lemma configure_connection_Ok: "configure_connection sq ps c = (Inr u, c') \<Longrightarrow> co_db c' = co_db c"
  by (induction ps arbitrary: c) (auto dest: sql_tick_Ok)

lemma sql_context_Ok [simp]: "sql_context what m c = (Inr a, c') \<longleftrightarrow> m c = (Inr a, c')"
  by (auto simp: sql_context_def split: prod.splits sum.splits)

lemma open_database_upgrades:
  assumes "open_database sq cd stored = (Inr u, c)"
  obtains c0 v where "co_db c0 = unwrap_or empty_database stored" and "ensure_protocol_kind_column sq cd c0 = (Inr v, c)"
proof -
  from assms obtain x1 c1 x2 c2 x3 c3 v where
    "sql_tick sq \<lparr>co_db = unwrap_or empty_database stored, co_calls = 0\<rparr> = (Inr x1, c1)"
    "configure_connection sq pragmas c1 = (Inr x2, c2)" "sql_tick sq c2 = (Inr x3, c3)"
    "ensure_protocol_kind_column sq cd c3 = (Inr v, c)"
    by (auto simp: open_database_def initialize_schema_def)
  then show ?thesis by (intro that[of c3 v]) (auto dest!: sql_tick_Ok configure_connection_Ok)
qed

lemma upgraded_has_kind:
  assumes "ensure_protocol_kind_column sq cd c = (Inr u, c')" and "db_ok (co_db c)"
  shows "db_has_kind (co_db c') \<and> db_ok (co_db c')"
proof (cases "db_has_kind (co_db c)")
  case True
  with upgrade_not_resumed[OF assms(1)] assms(2) show ?thesis by simp
next
  case False
  with upgrade_fills[OF assms] have "co_db c' = (co_db c)\<lparr>db_has_kind := True,
      db_nodes := map (kind_column cd) (db_nodes (co_db c))\<rparr>" by simp
  moreover have "nr_id (kind_column cd r) = nr_id r" "nr_hash (kind_column cd r) = nr_hash r"
    "nr_country_code (kind_column cd r) = nr_country_code r" for r by (simp_all add: kind_column_def)
  ultimately show ?thesis using assms(2) by (simp add: db_ok_def comp_def image_image)
qed

text \<open>
  Opening a file a second time changes nothing: whatever the first opening made of it, the
  second finds the column and leaves every row as it is.
\<close>

theorem reopen_keeps_catalog:
  assumes "open_database sq cd stored = (Inr u, c)" and "db_ok (unwrap_or empty_database stored)"
    and "open_database sq' cd' (Some (co_db c)) = (Inr u', c')"
  shows "co_db c' = co_db c \<and> db_has_kind (co_db c) \<and> db_ok (co_db c)"
proof -
  obtain c0 v where "co_db c0 = unwrap_or empty_database stored" "ensure_protocol_kind_column sq cd c0 = (Inr v, c)"
    using assms(1) by (rule open_database_upgrades)
  with assms(2) have ok: "db_has_kind (co_db c) \<and> db_ok (co_db c)" using upgraded_has_kind by metis
  obtain c1 w where "co_db c1 = unwrap_or empty_database (Some (co_db c))"
    "ensure_protocol_kind_column sq' cd' c1 = (Inr w, c')" using assms(3) by (rule open_database_upgrades)
  with ok upgrade_not_resumed have "co_db c' = co_db c" by (metis unwrap_or.simps(2))
  with ok show ?thesis by blast
qed

theorem reopen_keeps_catalog_witness:
  "\<exists>c c'. open_database quiet_sqlite trojan_codec (Some (co_db legacy_connection)) = (Inr (), c) \<and>
     open_database quiet_sqlite trojan_codec (Some (co_db c)) = (Inr (), c') \<and> co_db c' = co_db c"
proof -
  have open_ok: "\<exists>c. open_database quiet_sqlite trojan_codec stored = (Inr (), c)" if "stored \<in> {Some (co_db legacy_connection)}" for stored
    using that by (simp add: open_database_def initialize_schema_def pragmas_def sql_context_def sql_eval
        legacy_connection_def empty_database_def trojan_codec_def quiet_sqlite_def)
  obtain c where c: "open_database quiet_sqlite trojan_codec (Some (co_db legacy_connection)) = (Inr (), c)"
    using open_ok by blast
  have ok: "db_ok (unwrap_or empty_database (Some (co_db legacy_connection)))"
    by (simp add: legacy_connection_def empty_database_def db_ok_def sql_length_def cont_byte_def)
  have "db_has_kind (co_db c)"
    using c ok open_database_upgrades[OF c] upgraded_has_kind by metis
  then have "\<exists>c'. open_database quiet_sqlite trojan_codec (Some (co_db c)) = (Inr (), c')"
    by (simp add: open_database_def initialize_schema_def pragmas_def sql_context_def sql_eval quiet_sqlite_def)
  then obtain c' where c': "open_database quiet_sqlite trojan_codec (Some (co_db c)) = (Inr (), c')" by blast
  from reopen_keeps_catalog[OF c ok c'] c c' show ?thesis by blast
qed

end
