(* ===== verification/Snapshot.thy ===== *)
theory Snapshot
  imports Store
begin

text \<open>
  The two published layers of the catalog (\<open>crates/storage/src/snapshot.rs\<close>): the cold store and
  the hot metric arena, each behind its own atomic pointer.  The sequential operations come
  first, with the proof that publishing a batch into the arena shows the list view the same
  order as rewriting the whole store would.  Then the threads that use the pair: the metric
  worker publishes while the UI thread replaces the catalog after an import, and the two
  pointers are read and written one at a time.  The step relation has one step for each of
  these accesses; every state it reaches can be queried without a panic, but the pair is not
  kept in step.
\<close>

section \<open>Published layers (\<open>snapshot.rs\<close>)\<close>

record metric_update =
  mu_node_id :: u32
  mu_latency_ms :: u16
  mu_health_score :: u8
  mu_verified :: bool

record store_snapshot =
  ss_store :: dense_node_store
  ss_metrics :: metrics_arena

definition snapshot_new :: "dense_node_store \<Rightarrow> store_snapshot" where
  "snapshot_new st = \<lparr>ss_store = st, ss_metrics = from_store st\<rparr>"

definition replace :: "dense_node_store \<Rightarrow> store_snapshot \<Rightarrow> store_snapshot" where
  "replace st s = (s\<lparr>ss_store := st\<rparr>)\<lparr>ss_metrics := from_store st\<rparr>"

fun fold_opt :: "('u \<Rightarrow> 's \<Rightarrow> 's option) \<Rightarrow> 'u list \<Rightarrow> 's \<Rightarrow> 's option" where
  "fold_opt f [] s = Some s"
| "fold_opt f (u # us) s = Option.bind (f u s) (fold_opt f us)"

definition publish_one :: "dense_node_store \<Rightarrow> metric_update \<Rightarrow> metrics_arena \<Rightarrow> metrics_arena option" where
  "publish_one st u m =
     (case index_of st (mu_node_id u) of
        None \<Rightarrow> Some m
      | Some index \<Rightarrow> apply_update index (mu_latency_ms u) (mu_health_score u) (mu_verified u) m)"

definition publish_metrics :: "metric_update list \<Rightarrow> store_snapshot \<Rightarrow> store_snapshot option" where
  "publish_metrics updates s =
     Option.bind (fold_opt (publish_one (ss_store s)) updates (ss_metrics s)) (\<lambda>replacement.
     Some (s\<lparr>ss_metrics := replacement\<rparr>))"

definition update_one :: "metric_update \<Rightarrow> dense_node_store \<Rightarrow> dense_node_store option" where
  "update_one u = update_metrics (mu_node_id u) (mu_latency_ms u) (mu_health_score u)"

definition update_metrics_batch :: "metric_update list \<Rightarrow> store_snapshot \<Rightarrow> store_snapshot option" where
  "update_metrics_batch updates s =
     Option.bind (fold_opt update_one updates (ss_store s)) (\<lambda>replacement.
     Some (replace replacement s))"

section \<open>One contract for both ways of recording a reading\<close>

text \<open>
  A sink takes a reading for a node id and overwrites one entry of its column of
  (latency, health) pairs: the entry the index of the catalog names, or none.
\<close>

definition reading :: "metric_update \<Rightarrow> u16 \<times> u8" where
  "reading u = (mu_latency_ms u, min (mu_health_score u) 100)"

definition put_reading :: "(u32 \<Rightarrow> nat option) \<Rightarrow> metric_update \<Rightarrow> (u16 \<times> u8) list \<Rightarrow> (u16 \<times> u8) list" where
  "put_reading idx u xs =
     (case idx (mu_node_id u) of None \<Rightarrow> xs | Some i \<Rightarrow> xs[i := reading u])"

locale metric_sink =
  fixes record_reading :: "metric_update \<Rightarrow> 's \<Rightarrow> 's option"
    and column :: "'s \<Rightarrow> (u16 \<times> u8) list"
    and usable :: "'s \<Rightarrow> bool"
    and idx :: "u32 \<Rightarrow> nat option"
  assumes record_total: "usable s \<Longrightarrow> \<exists>s'. record_reading u s = Some s'"
    and record_usable: "usable s \<Longrightarrow> record_reading u s = Some s' \<Longrightarrow> usable s'"
    and record_column: "usable s \<Longrightarrow> record_reading u s = Some s' \<Longrightarrow> column s' = put_reading idx u (column s)"
begin

lemma batch_column:
  "usable s \<Longrightarrow> \<exists>s'. fold_opt record_reading us s = Some s' \<and> usable s'
     \<and> column s' = fold (put_reading idx) us (column s)"
proof (induction us arbitrary: s)
  case Nil
  then show ?case by simp
next
  case (Cons u us)
  obtain t where t: "record_reading u s = Some t" using record_total[OF Cons.prems] by blast
  from Cons.IH[OF record_usable[OF Cons.prems t]] record_column[OF Cons.prems t] t show ?case by simp
qed

end

lemma put_reading_length [simp]: "length (put_reading idx u xs) = length xs"
  by (simp add: put_reading_def split: option.split)

lemma fold_put_reading_length [simp]: "length (fold (put_reading idx) us xs) = length xs"
  by (induction us arbitrary: xs) simp_all

definition store_column :: "dense_node_store \<Rightarrow> (u16 \<times> u8) list" where
  "store_column st = zip (ds_latencies_ms st) (ds_health_scores st)"

definition arena_column :: "metrics_arena \<Rightarrow> (u16 \<times> u8) list" where
  "arena_column m = zip (ma_latencies_ms m) (ma_health_scores m)"

text \<open>An arena whose written columns have the same length: what every arena of the program is.\<close>

definition arena_ok :: "metrics_arena \<Rightarrow> bool" where
  "arena_ok m \<longleftrightarrow> length (ma_health_scores m) = arena_len m \<and> length (ma_verified m) = arena_len m"

definition store_ok :: "(string \<Rightarrow> string) \<Rightarrow> dense_node_store \<Rightarrow> bool" where
  "store_ok uni st \<longleftrightarrow> (\<exists>rows. store_rep uni st rows \<and> length rows \<le> 2 ^ 32)"

text \<open>Two stores that differ in their metric columns only.\<close>

definition same_catalog :: "dense_node_store \<Rightarrow> dense_node_store \<Rightarrow> bool" where
  "same_catalog a b \<longleftrightarrow>
     a\<lparr>ds_latencies_ms := [], ds_health_scores := []\<rparr> = b\<lparr>ds_latencies_ms := [], ds_health_scores := []\<rparr>"

lemma update_last_length [simp]: "length (update_last P f xs) = length xs"
  by (induction xs) auto

lemma store_ok_lengths:
  assumes "store_ok uni st"
  shows "length (ds_latencies_ms st) = store_len st" and "length (ds_health_scores st) = store_len st"
  using assms by (auto simp: store_ok_def store_rep_def columns_rep_def store_len_def)

lemma store_ok_index: "store_ok uni st \<Longrightarrow> ds_id_to_index st nid = Some i \<Longrightarrow> i < store_len st"
  by (auto simp: store_ok_def store_rep_def columns_rep_def store_len_def dest: index_rep_Some)

lemma update_metrics_ok:
  assumes "store_ok uni st" and "update_metrics nid lat h st = Some st'"
  shows "store_ok uni st'"
proof -
  obtain rows where rows: "store_rep uni st rows" "length rows \<le> 2 ^ 32"
    using assms(1) by (auto simp: store_ok_def)
  with update_metrics_rep[OF rows(1), of nid lat h] assms(2) show ?thesis
    unfolding store_ok_def by (metis option.inject update_last_length)
qed

lemma update_metrics_same: "update_metrics nid lat h st = Some st' \<Longrightarrow> same_catalog st' st"
  by (auto simp: update_metrics_def same_catalog_def bind_eq_Some_conv split: option.splits)

lemma same_catalog_trans: "same_catalog a b \<Longrightarrow> same_catalog b c \<Longrightarrow> same_catalog a c"
  by (simp add: same_catalog_def)

lemma same_catalog_fields:
  assumes "same_catalog a b"
  shows "ds_id_to_index a = ds_id_to_index b" and "ds_node_ids a = ds_node_ids b"
    and "ds_country_codes a = ds_country_codes b" and "ds_names a = ds_names b"
    and "ds_name_lower a = ds_name_lower b" and "ds_source_offsets a = ds_source_offsets b"
    and "ds_source_sub_ids a = ds_source_sub_ids b"
  using assms unfolding same_catalog_def by (cases a; cases b; simp)+

interpretation cold: metric_sink update_one store_column
  "\<lambda>st. store_ok uni st \<and> same_catalog st base" "ds_id_to_index base" for uni base
proof
  fix s u assume s: "store_ok uni s \<and> same_catalog s base"
  then obtain rows where "store_rep uni s rows" by (auto simp: store_ok_def)
  from update_metrics_rep[OF this, of "mu_node_id u" "mu_latency_ms u" "mu_health_score u"]
  show "\<exists>s'. update_one u s = Some s'" by (auto simp: update_one_def)
next
  fix s u s' assume s: "store_ok uni s \<and> same_catalog s base" and up: "update_one u s = Some s'"
  show "store_ok uni s' \<and> same_catalog s' base"
    using s update_metrics_ok[of uni s] update_metrics_same up
    by (metis update_one_def same_catalog_trans)
next
  fix s u s' assume s: "store_ok uni s \<and> same_catalog s base" and up: "update_one u s = Some s'"
  have "ds_id_to_index base = ds_id_to_index s" using same_catalog_fields(1)[of s base] s by simp
  moreover have "length (ds_latencies_ms s) = length (ds_health_scores s)" using s store_ok_lengths[of uni s] by simp
  ultimately show "store_column s' = put_reading (ds_id_to_index base) u (store_column s)"
    using up by (auto simp: update_one_def update_metrics_def set_at_def store_column_def put_reading_def
        reading_def zip_update bind_eq_Some_conv split: option.splits if_splits)
qed

lemma apply_update_total:
  "arena_ok m \<Longrightarrow> \<exists>m'. apply_update i lat h v m = Some m' \<and> arena_ok m' \<and> arena_len m' = arena_len m"
  by (auto simp: apply_update_def arena_ok_def arena_len_def set_at_def)

interpretation hot: metric_sink "publish_one st" arena_column arena_ok "ds_id_to_index st" for st
proof
  fix s u assume "arena_ok s"
  then show "\<exists>s'. publish_one st u s = Some s'"
    using apply_update_total[of s] by (auto simp: publish_one_def split: option.split) metis
next
  fix s u s' assume "arena_ok s" "publish_one st u s = Some s'"
  then show "arena_ok s'"
    using apply_update_total[of s] by (auto simp: publish_one_def split: option.splits) (metis option.inject)
next
  fix s u s' assume "arena_ok s" "publish_one st u s = Some s'"
  then show "arena_column s' = put_reading (ds_id_to_index st) u (arena_column s)"
    by (auto simp: publish_one_def index_of_def apply_update_def set_at_def arena_ok_def arena_len_def
        arena_column_def put_reading_def reading_def zip_update bind_eq_Some_conv list_update_beyond
        split: option.splits if_splits)
qed

section \<open>Publishing into the arena against rewriting the store\<close>

lemma insert_by_cong:
  "(\<And>y. y \<in> set ys \<Longrightarrow> c x y = d x y) \<Longrightarrow> insert_by c x ys = insert_by d x ys"
  by (induction ys) auto

lemma sort_by_cong:
  "(\<And>x y. x \<in> set xs \<Longrightarrow> y \<in> set xs \<Longrightarrow> c x y = d x y) \<Longrightarrow> sort_by c xs = sort_by d xs"
  by (induction xs) (auto intro!: insert_by_cong)

lemma filter_opt_list_subset: "filter_opt_list P xs = Some ys \<Longrightarrow> set ys \<subseteq> set xs"
  by (induction xs arbitrary: ys) (auto simp: bind_eq_Some_conv split: if_splits)

lemma run_query_cong:
  assumes same: "same_catalog st st'" and small: "store_len st' \<le> 2 ^ 32"
    and ml: "\<And>i. i < store_len st' \<Longrightarrow> ml i = ml' i" and mh: "\<And>i. i < store_len st' \<Longrightarrow> mh i = mh' i"
    and cols: "l = store_len st'" "h = store_len st'"
  shows "run_query uni st q cf sf sc ml mh None = run_query uni st' q cf sf sc ml' mh' (Some (l, h))"
proof -
  note f = same_catalog_fields[OF same]
  have len: "store_len st = store_len st'" by (simp add: store_len_def f)
  have "has_source st = has_source st'" by (intro ext) (simp add: has_source_def f)
  then have matches: "row_matches st search cf sf = row_matches st' search cf sf" for search
    by (intro ext) (simp add: row_matches_def f)
  show ?thesis
  proof (cases "filter_opt_list (row_matches st' (to_lowercase uni q) cf sf) [0..<store_len st']")
    case None
    then show ?thesis by (simp add: run_query_def Let_def matches len)
  next
    case (Some kept)
    let ?ixs = "map of_nat kept :: u32 list"
    have kept: "i < store_len st'" if "i \<in> set kept" for i
      using filter_opt_list_subset[OF Some] that by auto
    have ixs: "unat a < store_len st'" if "a \<in> set ?ixs" for a
    proof -
      obtain i where i: "a = of_nat i" "i < store_len st'" using \<open>a \<in> set ?ixs\<close> kept by auto
      with small show ?thesis by (simp add: unat_of_nat_u32)
    qed
    have "row_cmp st sc ml mh a b = row_cmp st' sc ml' mh' a b" if "a \<in> set ?ixs" "b \<in> set ?ixs" for a b
      using ml[OF ixs[OF that(1)]] ml[OF ixs[OF that(2)]] mh[OF ixs[OF that(1)]] mh[OF ixs[OF that(2)]]
      by (cases sc) (simp_all add: row_cmp_def f)
    then have sorted: "sort_by (row_cmp st sc ml mh) ?ixs = sort_by (row_cmp st' sc ml' mh') ?ixs"
      by (rule sort_by_cong)
    have "sort_reads st sc None ?ixs = sort_reads st' sc (Some (l, h)) ?ixs"
      using ixs unfolding sort_reads_def cols store_len_def f by (cases sc) simp_all
    with Some sorted show ?thesis by (simp add: run_query_def Let_def matches len)
  qed
qed

lemma from_store_ok: "store_ok uni st \<Longrightarrow> arena_ok (from_store st) \<and> arena_len (from_store st) = store_len st"
  by (simp add: arena_ok_def arena_len_def from_store_def Let_def store_ok_lengths)

lemma query_columns_agree:
  assumes "same_catalog st st'" and "store_ok uni st'" and "arena_ok m"
    and "arena_column m = store_column st'"
  shows "query_with_metrics uni st m q cf sf sc = query uni st' q cf sf sc"
proof -
  note len = store_ok_lengths[OF assms(2)]
  have eqs: "ma_latencies_ms m = ds_latencies_ms st' \<and> ma_health_scores m = ds_health_scores st'"
    using assms(3,4) len unfolding arena_column_def store_column_def arena_ok_def arena_len_def
    by (metis map_fst_zip map_snd_zip length_zip min.idem order_refl)
  have small: "store_len st' \<le> 2 ^ 32"
    using assms(2) by (auto simp: store_ok_def store_rep_def columns_rep_def store_len_def)
  show ?thesis unfolding query_with_metrics_def query_def
    by (rule run_query_cong[OF assms(1) small]) (use eqs len in \<open>simp_all add: vec_get_def\<close>)
qed

text \<open>
  Claim C33.  Publishing a batch of readings into the hot arena never panics and shows the list
  view the same rows in the same order as the slow path that copies and rewrites the whole
  store, for every search, filter and sort.
\<close>

theorem hot_layer_equals_cold_rewrite:
  assumes "store_ok uni (ss_store s)" and "arena_ok (ss_metrics s)"
    and "arena_column (ss_metrics s) = store_column (ss_store s)"
  shows "\<exists>hot_s cold_s. publish_metrics us s = Some hot_s \<and> update_metrics_batch us s = Some cold_s \<and>
     (\<forall>q cf sf sc. query_with_metrics uni (ss_store hot_s) (ss_metrics hot_s) q cf sf sc
        = query uni (ss_store cold_s) q cf sf sc)"
proof -
  obtain m where m: "fold_opt (publish_one (ss_store s)) us (ss_metrics s) = Some m" "arena_ok m"
    "arena_column m = fold (put_reading (ds_id_to_index (ss_store s))) us (arena_column (ss_metrics s))"
    using hot.batch_column[OF assms(2)] by blast
  have "store_ok uni (ss_store s) \<and> same_catalog (ss_store s) (ss_store s)"
    using assms(1) by (simp add: same_catalog_def)
  from cold.batch_column[OF this] obtain st where st: "fold_opt update_one us (ss_store s) = Some st"
    "store_ok uni st" "same_catalog st (ss_store s)"
    "store_column st = fold (put_reading (ds_id_to_index (ss_store s))) us (store_column (ss_store s))"
    by blast
  have "query_with_metrics uni (ss_store s) m q cf sf sc = query uni st q cf sf sc" for q cf sf sc
    by (rule query_columns_agree) (use st m assms(3) in \<open>simp_all add: same_catalog_def\<close>)
  with m(1) st(1) show ?thesis
    by (simp add: publish_metrics_def update_metrics_batch_def replace_def)
qed

lemma sample_rows_ok: "store_ok uni (from_hot_rows uni sample_rows)"
  unfolding store_ok_def
  by (rule exI[of _ "map clamp_row sample_rows"]) (use sample_rows_rep in \<open>simp add: sample_rows_def\<close>)

lemma snapshot_new_aligned:
  "arena_column (ss_metrics (snapshot_new st)) = store_column (ss_store (snapshot_new st))"
  by (simp add: snapshot_new_def arena_column_def store_column_def from_store_def Let_def)

theorem hot_layer_equals_cold_rewrite_witness:
  "\<exists>hot_s cold_s.
     publish_metrics [\<lparr>mu_node_id = 7, mu_latency_ms = 12, mu_health_score = 99, mu_verified = True\<rparr>]
       (snapshot_new (from_hot_rows id sample_rows)) = Some hot_s \<and>
     update_metrics_batch [\<lparr>mu_node_id = 7, mu_latency_ms = 12, mu_health_score = 99, mu_verified = True\<rparr>]
       (snapshot_new (from_hot_rows id sample_rows)) = Some cold_s \<and>
     (\<forall>q cf sf sc. query_with_metrics id (ss_store hot_s) (ss_metrics hot_s) q cf sf sc
        = query id (ss_store cold_s) q cf sf sc)"
  by (rule hot_layer_equals_cold_rewrite[OF _ _ snapshot_new_aligned])
    (simp_all add: snapshot_new_def sample_rows_ok from_store_ok[OF sample_rows_ok])

section \<open>The threads that share the pair\<close>

text \<open>
  \<open>publish_metrics\<close> on the metric worker loads the arena, loads the store, and stores the new
  arena; \<open>replace\<close> on the UI thread stores the new store, then its arena.  The worker's state is
  where it is in that sequence, the replacer's whether the second store is still to come.
\<close>

datatype publisher = PIdle | PArena metrics_arena | PBoth metrics_arena dense_node_store

datatype replacer = RIdle | RStored dense_node_store

record shared =
  sh_pair :: store_snapshot
  sh_pub :: publisher
  sh_rep :: replacer

inductive shared_step :: "(string \<Rightarrow> string) \<Rightarrow> shared \<Rightarrow> shared \<Rightarrow> bool" for uni where
  load_arena: "sh_pub x = PIdle \<Longrightarrow>
    shared_step uni x (x\<lparr>sh_pub := PArena (ss_metrics (sh_pair x))\<rparr>)"
| load_store: "sh_pub x = PArena m \<Longrightarrow>
    shared_step uni x (x\<lparr>sh_pub := PBoth m (ss_store (sh_pair x))\<rparr>)"
| store_arena: "sh_pub x = PBoth m st \<Longrightarrow> fold_opt (publish_one st) us m = Some m' \<Longrightarrow>
    shared_step uni x (x\<lparr>sh_pub := PIdle, sh_pair := (sh_pair x)\<lparr>ss_metrics := m'\<rparr>\<rparr>)"
| replace_store: "sh_rep x = RIdle \<Longrightarrow> store_ok uni st \<Longrightarrow>
    shared_step uni x (x\<lparr>sh_rep := RStored st, sh_pair := (sh_pair x)\<lparr>ss_store := st\<rparr>\<rparr>)"
| replace_arena: "sh_rep x = RStored st \<Longrightarrow>
    shared_step uni x (x\<lparr>sh_rep := RIdle, sh_pair := (sh_pair x)\<lparr>ss_metrics := from_store st\<rparr>\<rparr>)"

inductive_cases shared_stepE: "shared_step uni x y"

inductive shared_reachable :: "(string \<Rightarrow> string) \<Rightarrow> shared \<Rightarrow> bool" for uni where
  start: "store_ok uni st \<Longrightarrow>
    shared_reachable uni \<lparr>sh_pair = snapshot_new st, sh_pub = PIdle, sh_rep = RIdle\<rparr>"
| step: "shared_reachable uni x \<Longrightarrow> shared_step uni x y \<Longrightarrow> shared_reachable uni y"

fun pub_ok :: "publisher \<Rightarrow> bool" where
  "pub_ok PIdle = True"
| "pub_ok (PArena m) = arena_ok m"
| "pub_ok (PBoth m st) = arena_ok m"

fun rep_ok :: "(string \<Rightarrow> string) \<Rightarrow> replacer \<Rightarrow> bool" where
  "rep_ok uni RIdle = True"
| "rep_ok uni (RStored st) = store_ok uni st"

definition shared_ok :: "(string \<Rightarrow> string) \<Rightarrow> shared \<Rightarrow> bool" where
  "shared_ok uni x \<longleftrightarrow> store_ok uni (ss_store (sh_pair x)) \<and> arena_ok (ss_metrics (sh_pair x))
     \<and> pub_ok (sh_pub x) \<and> rep_ok uni (sh_rep x)"

lemma publish_arena_ok: "arena_ok m \<Longrightarrow> fold_opt (publish_one st) us m = Some m' \<Longrightarrow> arena_ok m'"
  using hot.batch_column[of m st us] by auto

lemma shared_step_ok: "shared_step uni x y \<Longrightarrow> shared_ok uni x \<Longrightarrow> shared_ok uni y"
  by (induction rule: shared_step.induct)
    (auto simp: shared_ok_def from_store_ok intro: publish_arena_ok)

lemma shared_reachable_ok: "shared_reachable uni x \<Longrightarrow> shared_ok uni x"
proof (induction rule: shared_reachable.induct)
  case (start st)
  then show ?case by (simp add: shared_ok_def snapshot_new_def from_store_ok)
next
  case (step x y)
  then show ?case by (blast intro: shared_step_ok)
qed

text \<open>
  Claim C34.  However the loads and stores of the metric worker and of a catalog replacement
  interleave, the worker's next batch and every query of the list view complete without a panic,
  and a query returns exactly the rows of the published store that match, each once.
\<close>

theorem interleaved_layers_stay_queryable:
  assumes "shared_reachable uni x"
  shows "(\<forall>m st us. sh_pub x = PBoth m st \<longrightarrow> fold_opt (publish_one st) us m \<noteq> None) \<and>
     (\<exists>rows. store_rep uni (ss_store (sh_pair x)) rows \<and>
        (\<forall>q cf sf sc. \<exists>ixs. query_with_metrics uni (ss_store (sh_pair x)) (ss_metrics (sh_pair x)) q cf sf sc
             = Some ixs \<and> distinct ixs \<and>
             unat ` set ixs = {i. i < length rows \<and> row_matches_spec uni q cf sf (rows ! i)}))"
proof -
  have ok: "shared_ok uni x" using assms by (rule shared_reachable_ok)
  then obtain rows where rows: "store_rep uni (ss_store (sh_pair x)) rows" "length rows \<le> 2 ^ 32"
    by (auto simp: shared_ok_def store_ok_def)
  have "fold_opt (publish_one st) us m \<noteq> None" if "sh_pub x = PBoth m st" for m st us
    using ok that hot.batch_column[of m st us] by (auto simp: shared_ok_def)
  moreover have "\<exists>ixs. query_with_metrics uni (ss_store (sh_pair x)) (ss_metrics (sh_pair x)) q cf sf sc
      = Some ixs \<and> distinct ixs \<and>
      unat ` set ixs = {i. i < length rows \<and> row_matches_spec uni q cf sf (rows ! i)}" for q cf sf sc
    unfolding query_with_metrics_def using run_query_exact[OF rows, of None] by (simp, metis)
  ultimately show ?thesis using rows(1) by blast
qed

definition other_rows :: "hot_node_row list" where
  "other_rows =
     [\<lparr>hr_id = 11, hr_country_code = (CHR ''N'', CHR ''L''), hr_latency_ms = UNTESTED_LATENCY,
       hr_health_score = 0, hr_name = ''Utrecht'', hr_protocol = KTrojan, hr_source_sub_ids = [3]\<rparr>]"

definition verified_reading :: metric_update where
  "verified_reading = \<lparr>mu_node_id = 7, mu_latency_ms = 12, mu_health_score = 99, mu_verified = True\<rparr>"

definition measured_arena :: metrics_arena where
  "measured_arena = \<lparr>ma_latencies_ms = [12, 40], ma_health_scores = [99, 100], ma_jitter_ms = [0, 0],
     ma_packet_loss = [0, 0], ma_last_tested = [0, 0], ma_is_operational = [False, False],
     ma_verified = [True, False]\<rparr>"

lemmas store_eval = from_hot_rows_def push_row_def push_columns_def push_sources_def with_capacity_def
  from_store_def store_len_def snapshot_new_def clamp_row_def Let_def

lemma measured_arena_published:
  "fold_opt (publish_one (from_hot_rows id sample_rows)) [verified_reading]
     (from_store (from_hot_rows id sample_rows)) = Some measured_arena"
  by (simp add: store_eval sample_rows_def verified_reading_def measured_arena_def publish_one_def
      index_of_def apply_update_def arena_len_def set_at_def)

lemma other_rows_ok: "store_ok uni (from_hot_rows uni other_rows)"
proof -
  have "store_rep uni (from_hot_rows uni other_rows) (map clamp_row other_rows)"
    by (rule from_hot_rows_rep) (simp add: other_rows_def)
  moreover have "length (map clamp_row other_rows) \<le> 2 ^ 32" by (simp add: other_rows_def)
  ultimately show ?thesis unfolding store_ok_def by blast
qed

text \<open>The state in which the worker is about to publish what it computed from the old arena.\<close>

definition torn :: "publisher \<Rightarrow> shared" where
  "torn p = \<lparr>sh_pair = \<lparr>ss_store = from_hot_rows id other_rows,
     ss_metrics = from_store (from_hot_rows id other_rows)\<rparr>, sh_pub = p, sh_rep = RIdle\<rparr>"

lemma torn_reachable: "shared_reachable id (torn (PArena measured_arena))"
proof -
  let ?A = "from_hot_rows id sample_rows" and ?B = "from_hot_rows id other_rows"
  let ?s0 = "\<lparr>sh_pair = snapshot_new ?A, sh_pub = PIdle, sh_rep = RIdle\<rparr>"
  let ?m0 = "from_store ?A"
  let ?s1 = "?s0\<lparr>sh_pub := PArena ?m0\<rparr>"
  let ?s2 = "?s1\<lparr>sh_pub := PBoth ?m0 ?A\<rparr>"
  let ?pair = "(snapshot_new ?A)\<lparr>ss_metrics := measured_arena\<rparr>"
  let ?s3 = "?s2\<lparr>sh_pub := PIdle, sh_pair := ?pair\<rparr>"
  let ?s4 = "?s3\<lparr>sh_pub := PArena measured_arena\<rparr>"
  let ?s5 = "?s4\<lparr>sh_rep := RStored ?B, sh_pair := ?pair\<lparr>ss_store := ?B\<rparr>\<rparr>"
  have s0: "shared_reachable id ?s0" by (rule shared_reachable.start) (rule sample_rows_ok)
  have s1: "shared_reachable id ?s1"
    using shared_reachable.step[OF s0 shared_step.load_arena] by (simp add: snapshot_new_def)
  have s2: "shared_reachable id ?s2"
    using shared_reachable.step[OF s1 shared_step.load_store] by (simp add: snapshot_new_def)
  have s3: "shared_reachable id ?s3"
    using shared_reachable.step[OF s2 shared_step.store_arena[OF _ measured_arena_published]] by simp
  have s4: "shared_reachable id ?s4"
    using shared_reachable.step[OF s3 shared_step.load_arena] by simp
  have s5: "shared_reachable id ?s5"
    using shared_reachable.step[OF s4 shared_step.replace_store[OF _ other_rows_ok]] by simp
  have "shared_reachable id (?s5\<lparr>sh_rep := RIdle, sh_pair := (sh_pair ?s5)\<lparr>ss_metrics := from_store ?B\<rparr>\<rparr>)"
    by (rule shared_reachable.step[OF s5]) (rule shared_step.replace_arena, simp)
  then show ?thesis by (simp add: torn_def snapshot_new_def)
qed

text \<open>
  The pair is not kept in step: a publication that loaded the arena before an import
  replaced the catalog overwrites the fresh arena with the old one.  A run exists after which
  both threads are idle, the only node of the new catalog was never measured, and the list shows
  it with the 12 ms and the verified mark of another catalog's node.
\<close>

theorem stale_publish_misattributes_reading:
  "\<exists>x. shared_reachable id x \<and> sh_pub x = PIdle \<and> sh_rep x = RIdle \<and>
     ds_node_ids (ss_store (sh_pair x)) = [11] \<and>
     ds_latencies_ms (ss_store (sh_pair x)) = [UNTESTED_LATENCY] \<and>
     vec_get (ma_latencies_ms (ss_metrics (sh_pair x))) 0 = Some 12 \<and>
     is_verified (ss_metrics (sh_pair x)) 0"
proof -
  let ?B = "from_hot_rows id other_rows"
  have "shared_reachable id (torn (PBoth measured_arena ?B))"
    using shared_reachable.step[OF torn_reachable shared_step.load_store] by (simp add: torn_def)
  moreover have pub: "fold_opt (publish_one ?B) [verified_reading] measured_arena = Some measured_arena"
    by (simp add: store_eval other_rows_def verified_reading_def publish_one_def index_of_def)
  ultimately have "shared_reachable id ((torn (PBoth measured_arena ?B))\<lparr>sh_pub := PIdle,
      sh_pair := (sh_pair (torn (PBoth measured_arena ?B)))\<lparr>ss_metrics := measured_arena\<rparr>\<rparr>)"
    by (intro shared_reachable.step[OF _ shared_step.store_arena[OF _ pub]]) (simp_all add: torn_def)
  then show ?thesis
    by (intro exI conjI) (assumption, simp_all add: torn_def store_eval other_rows_def measured_arena_def
        vec_get_def is_verified_def)
qed

theorem interleaved_layers_stay_queryable_witness:
  "\<exists>rows. store_rep id (ss_store (sh_pair (torn (PArena measured_arena)))) rows \<and>
     (\<exists>ixs. query_with_metrics id (ss_store (sh_pair (torn (PArena measured_arena))))
          (ss_metrics (sh_pair (torn (PArena measured_arena)))) ''ut'' None (Some 3) LatencyAsc = Some ixs \<and>
        distinct ixs)"
  using interleaved_layers_stay_queryable[OF torn_reachable] by blast

end
