(* ===== verification/Repository.thy ===== *)
theory Repository
  imports Database Ingest Snapshot
begin

text \<open>
  Subscriptions in the database (\<open>crates/storage/src/repository.rs\<close>,
  \<open>subscription_service.rs\<close>) and the catalog loaded from it (\<open>hydrate_from_db\<close> of
  \<open>soa_store.rs\<close>, \<open>replace_from_db\<close> of \<open>snapshot.rs\<close>).  Replacing the nodes of a subscription is
  all or nothing, links it to exactly the nodes of the report, keeps the links of every other
  subscription, and leaves no node without a subscription.  The loaded store has one row for each
  node of the database, with the subscriptions that list it.
\<close>

section \<open>Operations (\<open>repository.rs\<close>)\<close>

record subscription_record =
  rc_id :: sub_id
  rc_uuid :: string
  rc_name :: string
  rc_url :: string
  rc_last_updated :: u64
  rc_auto_update_interval :: u64
  rc_etag :: "string option"

record sync_result =
  sy_inserted_nodes :: nat
  sy_linked_nodes :: nat
  sy_removed_orphans :: nat

definition record_row :: "subscription_record \<Rightarrow> subscription_row res" where
  "record_row rc =
     try_then (to_sql_u64 (rc_last_updated rc)) (\<lambda>updated.
     try_then (to_sql_u64 (rc_auto_update_interval rc)) (\<lambda>interval.
       Ok \<lparr>sr_id = uint (rc_id rc), sr_uuid = rc_uuid rc, sr_name = rc_name rc, sr_url = rc_url rc,
         sr_last_updated = updated, sr_auto_update_interval = interval, sr_etag = rc_etag rc\<rparr>))"

definition upsert_subscription :: "sqlite \<Rightarrow> subscription_record \<Rightarrow> unit sql" where
  "upsert_subscription sq rc =
     sql_bind (sql_lift (record_row rc)) (\<lambda>row. sql_call sq (put_subscription row))"

definition country_text :: "canonical_node \<Rightarrow> string" where
  "country_text node =
     (let cc = nm_country_code (cn_meta node); s = [fst cc, snd cc] in
      if is_utf8 s then s else ''UN'')"

definition node_kind :: "canonical_node \<Rightarrow> int" where
  "node_kind node = uint (discriminant (kind_of (cn_protocol node)))"

text \<open>The part of an iteration both loops share: serialize, insert, look the id up.\<close>

definition store_node :: "sqlite \<Rightarrow> codec \<Rightarrow> canonical_node \<Rightarrow> (bool \<times> int) sql" where
  "store_node sq cd node =
     sql_bind (sql_lift (ser_node cd node)) (\<lambda>payload.
     sql_bind (sql_call sq (insert_node sq (cn_hash node) (nm_label (cn_meta node)) (country_text node)
        (node_kind node) payload)) (\<lambda>changed.
     sql_bind (sql_call sq (find_node (cn_hash node))) (\<lambda>node_id.
       sql_return (changed = 1, node_id))))"

fun ensure_loop ::
    "sqlite \<Rightarrow> codec \<Rightarrow> canonical_hash set \<Rightarrow> canonical_node list \<Rightarrow> (nat \<times> int list) sql" where
  "ensure_loop sq cd seen [] = sql_return (0, [])"
| "ensure_loop sq cd seen (node # nodes) =
     (if cn_hash node \<in> seen then ensure_loop sq cd seen nodes
      else
        sql_bind (store_node sq cd node) (\<lambda>(new, node_id).
        sql_bind (sql_call sq (insert_diagnostics node_id)) (\<lambda>u.
        sql_bind (ensure_loop sq cd (insert (cn_hash node) seen) nodes) (\<lambda>(inserted, ids).
          sql_return ((if new then 1 else 0) + inserted, node_id # ids)))))"

definition ensure_nodes :: "sqlite \<Rightarrow> codec \<Rightarrow> canonical_node list \<Rightarrow> (nat \<times> int list) sql" where
  "ensure_nodes sq cd nodes =
     sql_bind (sql_tick sq) (\<lambda>u1. sql_bind (sql_tick sq) (\<lambda>u2. sql_bind (sql_tick sq) (\<lambda>u3.
       ensure_loop sq cd {} nodes)))"

fun link_nodes :: "sqlite \<Rightarrow> int \<Rightarrow> int list \<Rightarrow> unit sql" where
  "link_nodes sq sub [] = sql_return ()"
| "link_nodes sq sub (node_id # ids) =
     sql_bind (sql_call sq (insert_source node_id sub)) (\<lambda>u. link_nodes sq sub ids)"

definition sync_body ::
    "sqlite \<Rightarrow> codec \<Rightarrow> subscription_record \<Rightarrow> ingestion_report \<Rightarrow> sync_result sql" where
  "sync_body sq cd rc report =
     sql_bind (upsert_subscription sq rc) (\<lambda>u.
     sql_bind (ensure_nodes sq cd (ir_successful_nodes report)) (\<lambda>(inserted, node_ids).
     sql_bind (sql_call sq (delete_sources (uint (rc_id rc)))) (\<lambda>u.
     sql_bind (sql_tick sq) (\<lambda>u.
     sql_bind (link_nodes sq (uint (rc_id rc)) node_ids) (\<lambda>u.
     sql_bind (sql_call sq delete_orphans) (\<lambda>removed.
       sql_return \<lparr>sy_inserted_nodes = inserted, sy_linked_nodes = length node_ids,
         sy_removed_orphans = removed\<rparr>))))))"

definition sync_subscription ::
    "sqlite \<Rightarrow> codec \<Rightarrow> subscription_record \<Rightarrow> ingestion_report \<Rightarrow> bool \<Rightarrow> sync_result sql" where
  "sync_subscription sq cd rc report allow_empty =
     (if ir_successful_nodes report = [] \<and> \<not> allow_empty
      then sql_raise ''refusing to replace subscription with an empty or entirely invalid snapshot''
      else transaction sq (sync_body sq cd rc report))"

fun bulk_loop :: "sqlite \<Rightarrow> codec \<Rightarrow> int \<Rightarrow> canonical_node list \<Rightarrow> nat sql" where
  "bulk_loop sq cd sub [] = sql_return 0"
| "bulk_loop sq cd sub (node # nodes) =
     sql_bind (store_node sq cd node) (\<lambda>(new, node_id).
     sql_bind (sql_call sq (insert_source node_id sub)) (\<lambda>u.
     sql_bind (sql_call sq (insert_diagnostics node_id)) (\<lambda>v.
     sql_bind (bulk_loop sq cd sub nodes) (\<lambda>inserted.
       sql_return ((if new then 1 else 0) + inserted)))))"

definition bulk_insert_nodes :: "sqlite \<Rightarrow> codec \<Rightarrow> sub_id \<Rightarrow> canonical_node list \<Rightarrow> nat sql" where
  "bulk_insert_nodes sq cd sub nodes =
     sql_bind (sql_tick sq) (\<lambda>u1. sql_bind (sql_tick sq) (\<lambda>u2. sql_bind (sql_tick sq) (\<lambda>u3.
     sql_bind (sql_tick sq) (\<lambda>u4. bulk_loop sq cd (uint sub) nodes))))"

definition load_all_hashes :: "sqlite \<Rightarrow> canonical_hash set sql" where
  "load_all_hashes sq =
     sql_bind (sql_call sq (\<lambda>db. Ok (map nr_hash (db_nodes db), db))) (\<lambda>rows.
     sql_lift (try_then (try_map (\<lambda>bs. if length bs = 32 then Ok bs
         else Err (''database contains hash with '' @ show_nat (length bs) @ '' bytes'')) rows)
       (\<lambda>hashes. Ok (set hashes))))"

definition node_hash :: "codec \<Rightarrow> canonical_node \<Rightarrow> canonical_hash res" where
  "node_hash cd node = try_then (functional_identity_bytes cd node) (\<lambda>identity. Ok (sha256 cd identity))"

definition decode_node_payload :: "codec \<Rightarrow> bytes \<Rightarrow> canonical_node res" where
  "decode_node_payload cd bs =
     try_then (de_node cd bs) (\<lambda>node.
     try_then (node_hash cd node) (\<lambda>h.
       if cn_hash node \<noteq> h then Err ''stored node hash does not match its payload'' else Ok node))"

section \<open>Loading the catalog (\<open>soa_store.rs\<close>)\<close>

text \<open>\<open>row.get\<close> of an unsigned type: out of range is an error.\<close>

definition get_unsigned :: "nat \<Rightarrow> int \<Rightarrow> 'a::len word res" where
  "get_unsigned column v =
     (if 0 \<le> v \<and> v < 2 ^ LENGTH('a) then Ok (of_int v)
      else Err (''Integer out of range at index '' @ show_nat column))"

definition diagnostics_of :: "database \<Rightarrow> int \<Rightarrow> diagnostics_row option" where
  "diagnostics_of db node_id = find (\<lambda>d. dr_node_id d = node_id) (db_diagnostics db)"

definition hydrate_row ::
    "(string \<Rightarrow> string) \<Rightarrow> database \<Rightarrow> node_row \<Rightarrow> dense_node_store \<Rightarrow> dense_node_store res" where
  "hydrate_row uni db r st =
     (let d = diagnostics_of db (nr_id r) in
      try_then (get_unsigned 0 (nr_id r)) (\<lambda>node_id.
      try_then (get_unsigned 3 (nr_protocol_kind r)) (\<lambda>kind.
      try_then (get_unsigned 4 (unwrap_or 65535 (map_option dr_latency_ms d))) (\<lambda>lat.
      try_then (get_unsigned 5 (unwrap_or 0 (map_option dr_health_score d))) (\<lambda>health.
        Ok (push_columns uni node_id (country_code (nr_country_code r)) lat health
          (unwrap_or KVless (from_discriminant kind)) (nr_name r) st))))))"

fun try_fold :: "('a \<Rightarrow> 's \<Rightarrow> 's res) \<Rightarrow> 'a list \<Rightarrow> 's \<Rightarrow> 's res" where
  "try_fold f [] s = Ok s"
| "try_fold f (x # xs) s = try_then (f x s) (try_fold f xs)"

definition collect_source :: "dense_node_store \<Rightarrow> int \<times> int \<Rightarrow> u16 list list \<Rightarrow> u16 list list res" where
  "collect_source st p sources =
     try_then (get_unsigned 0 (fst p)) (\<lambda>node_id.
     try_then (get_unsigned 1 (snd p)) (\<lambda>sub.
       Ok (case ds_id_to_index st node_id of
             Some index \<Rightarrow> sources[index := sources ! index @ [sub]]
           | None \<Rightarrow> sources)))"

definition hydrate :: "(string \<Rightarrow> string) \<Rightarrow> database \<Rightarrow> dense_node_store res" where
  "hydrate uni db =
     try_then (try_fold (hydrate_row uni db) (sort_key nr_id (db_nodes db)) with_capacity) (\<lambda>st.
     try_then (try_fold (collect_source st) (sort_key fst (sort_key snd (db_node_sources db)))
         (replicate (store_len st) [])) (\<lambda>sources.
       Ok (fold push_sources sources (st\<lparr>ds_source_offsets := ds_source_offsets st @ [0]\<rparr>))))"

definition hydrate_from_db :: "(string \<Rightarrow> string) \<Rightarrow> sqlite \<Rightarrow> dense_node_store sql" where
  "hydrate_from_db uni sq =
     sql_bind (sql_call sq (\<lambda>db. Ok (db, db))) (\<lambda>db.
     sql_bind (sql_tick sq) (\<lambda>u. sql_lift (hydrate uni db)))"

definition replace_from_db ::
    "(string \<Rightarrow> string) \<Rightarrow> sqlite \<Rightarrow> store_snapshot \<Rightarrow> store_snapshot sql" where
  "replace_from_db uni sq s =
     sql_bind (hydrate_from_db uni sq) (\<lambda>st. sql_return (Snapshot.replace st s))"

section \<open>Refreshing (\<open>subscription_service.rs\<close>)\<close>

record subscription_refresh =
  rf_report :: ingestion_report
  rf_sync :: sync_result

definition refresh ::
    "parse_env \<Rightarrow> sqlite \<Rightarrow> subscription_record \<Rightarrow> string \<Rightarrow> bool \<Rightarrow> subscription_refresh sql" where
  "refresh pe sq rc raw allow_empty =
     (let report = ingest_with_timestamp pe raw (rc_id rc) (rc_last_updated rc) in
      sql_bind (sync_subscription sq (pe_codec pe) rc report allow_empty) (\<lambda>sync.
        sql_return \<lparr>rf_report = report, rf_sync = sync\<rparr>))"

definition refresh_and_publish ::
    "(string \<Rightarrow> string) \<Rightarrow> parse_env \<Rightarrow> sqlite \<Rightarrow> store_snapshot \<Rightarrow> subscription_record \<Rightarrow> string \<Rightarrow> bool
      \<Rightarrow> (subscription_refresh \<times> store_snapshot) sql" where
  "refresh_and_publish uni pe sq s rc raw allow_empty =
     sql_bind (refresh pe sq rc raw allow_empty) (\<lambda>r.
     sql_bind (replace_from_db uni sq s) (\<lambda>s'. sql_return (r, s')))"

text \<open>
  \<open>import_subscription\<close>, \<open>hydrate\<close> and \<open>load_probe_targets\<close> of \<open>proxy_controller.rs\<close>, which run on the
  controller's connection.
\<close>

definition import_subscription ::
    "parse_env \<Rightarrow> sqlite \<Rightarrow> string \<Rightarrow> u64 \<Rightarrow> string \<Rightarrow> string \<Rightarrow> string \<Rightarrow> subscription_refresh sql" where
  "import_subscription pe sq new_uuid now raw name url =
     sql_bind (sql_call sq (\<lambda>db. Ok ((if db_subscriptions db = [] then 0
        else Max (sr_id ` set (db_subscriptions db))) + 1, db))) (\<lambda>next_id.
       if 65535 < next_id
       then sql_raise (''too many subscriptions (id '' @ show_nat (nat next_id) @ '' exceeded u16)'')
       else sql_context ''import subscription''
         (refresh pe sq \<lparr>rc_id = of_int next_id, rc_uuid = new_uuid, rc_name = name, rc_url = url,
           rc_last_updated = now, rc_auto_update_interval = 86400, rc_etag = None\<rparr> raw False))"

definition controller_hydrate :: "(string \<Rightarrow> string) \<Rightarrow> sqlite \<Rightarrow> dense_node_store sql" where
  "controller_hydrate uni sq = sql_context ''hydrate node catalog'' (hydrate_from_db uni sq)"

definition load_targets :: "codec \<Rightarrow> sqlite \<Rightarrow> (u32 \<times> canonical_node) list sql" where
  "load_targets cd sq =
     sql_bind (sql_call sq (\<lambda>db. Ok (map (\<lambda>r. (nr_id r, nr_raw_payload r)) (db_nodes db), db))) (\<lambda>rows.
     sql_lift (try_map (\<lambda>(node_id, payload).
       try_then (map_err (\<lambda>e. ''corrupt node payload for id '' @ show_nat (unat (of_int node_id :: u32)) @ '': '' @ e)
           (decode_node_payload cd payload)) (\<lambda>node.
         Ok (of_int node_id, node))) rows))"

section \<open>One node, all nodes, all links\<close>

definition row_holds :: "database \<Rightarrow> int \<Rightarrow> canonical_hash \<Rightarrow> bool" where
  "row_holds db node_id h \<longleftrightarrow> (\<exists>r \<in> set (db_nodes db). nr_id r = node_id \<and> nr_hash r = h)"

lemma row_holds_append: "row_holds db i h \<Longrightarrow> db_nodes db' = db_nodes db @ new \<Longrightarrow> row_holds db' i h"
  by (auto simp: row_holds_def)

lemma row_holds_cong: "db_nodes db' = db_nodes db \<Longrightarrow> row_holds db' i h = row_holds db i h"
  by (simp add: row_holds_def)

lemma store_node_ok:
  assumes "db_ok (co_db c)" and "fresh_rowids sq" and "store_node sq cd node c = (Inr (new, i), c')"
  shows "\<exists>rows. db_ok (co_db c') \<and> co_db c' = (co_db c)\<lparr>db_nodes := db_nodes (co_db c) @ rows\<rparr> \<and>
     row_holds (co_db c') i (cn_hash node) \<and> length rows = (if new then 1 else 0) \<and>
     set (map nr_hash rows) = {cn_hash node} - nr_hash ` set (db_nodes (co_db c))"
proof -
  obtain payload k c1 where ins: "sql_call sq (insert_node sq (cn_hash node) (nm_label (cn_meta node))
      (country_text node) (node_kind node) payload) c = (Inr k, c1)"
    and fnd: "sql_call sq (find_node (cn_hash node)) c1 = (Inr i, c')" and new: "new = (k = 1)"
    using assms(3) by (auto simp: store_node_def)
  note i1 = insert_node_ok[OF assms(1,2) sql_call_db[OF ins]]
  have f1: "co_db c' = co_db c1" "row_holds (co_db c1) i (cn_hash node)"
    using find_node_ok[OF sql_call_db[OF fnd]] by (auto simp: row_holds_def)
  from i1 consider (old) "k = 0" "cn_hash node \<in> nr_hash ` set (db_nodes (co_db c))" "co_db c1 = co_db c"
    | (fresh) row where "k = 1" "cn_hash node \<notin> nr_hash ` set (db_nodes (co_db c))"
        "co_db c1 = (co_db c)\<lparr>db_nodes := db_nodes (co_db c) @ [row]\<rparr>" "nr_hash row = cn_hash node"
    by fastforce
  then show ?thesis
  proof cases
    case old
    with i1 f1 new show ?thesis by (intro exI[of _ "[]"]) auto
  next
    case fresh
    with i1 f1 new show ?thesis by (intro exI[of _ "[row]"]) auto
  qed
qed

lemma ensure_loop_ok:
  assumes "ensure_loop sq cd seen nodes c = (Inr (k, ids), c')" and "db_ok (co_db c)" and "fresh_rowids sq"
  shows "\<exists>rows diag. db_ok (co_db c') \<and>
     co_db c' = (co_db c)\<lparr>db_nodes := db_nodes (co_db c) @ rows, db_diagnostics := diag\<rparr> \<and> length rows = k \<and>
     set (map nr_hash rows) = cn_hash ` set (fresh_nodes seen nodes) - nr_hash ` set (db_nodes (co_db c)) \<and>
     list_all2 (\<lambda>i n. row_holds (co_db c') i (cn_hash n)) ids (fresh_nodes seen nodes)"
  using assms(1,2)
proof (induction nodes arbitrary: seen c k ids)
  case Nil
  then show ?case by (auto intro!: exI[of _ "[]"] exI[of _ "db_diagnostics (co_db c)"])
next
  case (Cons node nodes)
  show ?case
  proof (cases "cn_hash node \<in> seen")
    case True
    with Cons.IH[of seen c k ids] Cons.prems show ?thesis by simp
  next
    case False
    obtain new i c1 c2 c3 u k' ids' where st: "store_node sq cd node c = (Inr (new, i), c1)"
      and di: "sql_call sq (insert_diagnostics i) c1 = (Inr u, c2)"
      and lo: "ensure_loop sq cd (insert (cn_hash node) seen) nodes c2 = (Inr (k', ids'), c')"
      and res: "k = (if new then 1 else 0) + k'" "ids = i # ids'"
      using Cons.prems(1) False by auto
    obtain rows where r: "db_ok (co_db c1)" "co_db c1 = (co_db c)\<lparr>db_nodes := db_nodes (co_db c) @ rows\<rparr>"
      "row_holds (co_db c1) i (cn_hash node)" "length rows = (if new then 1 else 0)"
      "set (map nr_hash rows) = {cn_hash node} - nr_hash ` set (db_nodes (co_db c))"
      using store_node_ok[OF Cons.prems(2) assms(3) st] by blast
    obtain dg where d: "db_ok (co_db c2)" "co_db c2 = (co_db c1)\<lparr>db_diagnostics := dg\<rparr>"
      using insert_diagnostics_ok[OF r(1) sql_call_db[OF di]] by blast
    have n2: "db_nodes (co_db c2) = db_nodes (co_db c) @ rows" by (simp add: d(2) r(2))
    obtain rows' diag where l: "db_ok (co_db c')"
      "co_db c' = (co_db c2)\<lparr>db_nodes := db_nodes (co_db c2) @ rows', db_diagnostics := diag\<rparr>" "length rows' = k'"
      "set (map nr_hash rows') = cn_hash ` set (fresh_nodes (insert (cn_hash node) seen) nodes)
         - nr_hash ` set (db_nodes (co_db c2))"
      "list_all2 (\<lambda>i n. row_holds (co_db c') i (cn_hash n)) ids' (fresh_nodes (insert (cn_hash node) seen) nodes)"
      using Cons.IH[OF lo d(1)] by blast
    have final: "co_db c' = (co_db c)\<lparr>db_nodes := db_nodes (co_db c) @ (rows @ rows'), db_diagnostics := diag\<rparr>"
      by (simp add: l(2) d(2) r(2))
    have held: "row_holds (co_db c') i (cn_hash node)"
      using r(3) final r(2) by (auto simp: row_holds_def)
    have hs: "set (map nr_hash (rows @ rows')) = cn_hash ` set (fresh_nodes seen (node # nodes))
        - nr_hash ` set (db_nodes (co_db c))"
      using r(5) l(4) False unfolding n2 by auto
    show ?thesis
      by (intro exI[of _ "rows @ rows'"] exI[of _ diag])
        (use l(1,3,5) r(4) res False held hs final in simp)
  qed
qed

lemma ensure_nodes_ok:
  assumes "ensure_nodes sq cd nodes c = (Inr (k, ids), c')" and "db_ok (co_db c)" and "fresh_rowids sq"
  shows "\<exists>rows diag. db_ok (co_db c') \<and>
     co_db c' = (co_db c)\<lparr>db_nodes := db_nodes (co_db c) @ rows, db_diagnostics := diag\<rparr> \<and> length rows = k \<and>
     set (map nr_hash rows) = cn_hash ` set nodes - nr_hash ` set (db_nodes (co_db c)) \<and>
     list_all2 (\<lambda>i n. row_holds (co_db c') i (cn_hash n)) ids (fresh_nodes {} nodes)"
proof -
  obtain c0 where c0: "co_db c0 = co_db c" "ensure_loop sq cd {} nodes c0 = (Inr (k, ids), c')"
    using assms(1) by (auto simp: ensure_nodes_def) (metis sql_tick_Ok)
  have "cn_hash ` set (fresh_nodes seen nodes) = cn_hash ` set nodes - seen" for seen
    by (induction nodes arbitrary: seen) auto
  from this[of "{}"] ensure_loop_ok[OF c0(2)] assms(2,3) c0(1) show ?thesis by simp
qed

lemma link_nodes_ok:
  assumes "link_nodes sq sub ids c = (Inr u, c')" and "db_ok (co_db c)"
  shows "db_ok (co_db c') \<and> (\<exists>src. co_db c' = (co_db c)\<lparr>db_node_sources := src\<rparr> \<and>
     set src = set (db_node_sources (co_db c)) \<union> (\<lambda>i. (i, sub)) ` set ids)"
  using assms
proof (induction ids arbitrary: c)
  case Nil
  then show ?case by (auto intro!: exI[of _ "db_node_sources (co_db c')"])
next
  case (Cons i ids)
  obtain v c1 where one: "sql_call sq (insert_source i sub) c = (Inr v, c1)"
    and rest: "link_nodes sq sub ids c1 = (Inr u, c')" using Cons.prems(1) by auto
  obtain src where s1: "db_ok (co_db c1)" "co_db c1 = (co_db c)\<lparr>db_node_sources := src\<rparr>"
    "set src = insert (i, sub) (set (db_node_sources (co_db c)))"
    using insert_source_ok[OF Cons.prems(2) sql_call_db[OF one]] by blast
  obtain src' where s2: "db_ok (co_db c')" "co_db c' = (co_db c1)\<lparr>db_node_sources := src'\<rparr>"
    "set src' = set (db_node_sources (co_db c1)) \<union> (\<lambda>i. (i, sub)) ` set ids"
    using Cons.IH[OF rest s1(1)] by blast
  show ?case
    by (intro conjI exI[of _ src']) (use s1(2,3) s2 in auto)
qed

section \<open>Replacing the nodes of a subscription\<close>

text \<open>What the tables say about subscription \<open>sub\<close>: the hashes of the nodes linked to it.\<close>

definition linked_hashes :: "database \<Rightarrow> int \<Rightarrow> canonical_hash set" where
  "linked_hashes db sub = {nr_hash r | r. r \<in> set (db_nodes db) \<and> (nr_id r, sub) \<in> set (db_node_sources db)}"

definition synced :: "database \<Rightarrow> subscription_record \<Rightarrow> canonical_node list \<Rightarrow> sync_result \<Rightarrow> database \<Rightarrow> bool" where
  "synced db rc nodes res db' \<longleftrightarrow>
     db_ok db' \<and>
     (\<exists>row \<in> set (db_subscriptions db'). record_row rc = Ok row) \<and>
     linked_hashes db' (uint (rc_id rc)) = cn_hash ` set nodes \<and>
     (\<forall>n s. s \<noteq> uint (rc_id rc) \<longrightarrow>
        ((n, s) \<in> set (db_node_sources db') \<longleftrightarrow> (n, s) \<in> set (db_node_sources db))) \<and>
     (\<forall>r \<in> set (db_nodes db'). \<exists>s. (nr_id r, s) \<in> set (db_node_sources db')) \<and>
     (\<forall>r \<in> set (db_nodes db). \<forall>s. s \<noteq> uint (rc_id rc) \<and> (nr_id r, s) \<in> set (db_node_sources db)
        \<longrightarrow> r \<in> set (db_nodes db')) \<and>
     sy_linked_nodes res = card (cn_hash ` set nodes) \<and>
     sy_inserted_nodes res = card (cn_hash ` set nodes - nr_hash ` set (db_nodes db)) \<and>
     length (db_nodes db) + sy_inserted_nodes res = length (db_nodes db') + sy_removed_orphans res"

lemma fresh_nodes_hashes:
  "distinct (map cn_hash (fresh_nodes seen nodes)) \<and>
   set (map cn_hash (fresh_nodes seen nodes)) = cn_hash ` set nodes - seen"
  by (induction nodes arbitrary: seen) auto

lemma delete_orphans_fields:
  "delete_orphans db = Inr (k, db') \<Longrightarrow>
     k = length (filter (\<lambda>r. \<not> has_link db (nr_id r)) (db_nodes db)) \<and>
     db_nodes db' = filter (\<lambda>r. has_link db (nr_id r)) (db_nodes db) \<and>
     db_node_sources db' = db_node_sources db \<and> db_subscriptions db' = db_subscriptions db"
  by (auto simp: delete_orphans_def)

lemma linked_exact:
  assumes "list_all2 (\<lambda>i n. \<exists>r \<in> set rows. nr_id r = i \<and> nr_hash r = cn_hash n) ids (fresh_nodes {} nodes)"
    and "distinct (map nr_id rows)"
  shows "{nr_hash r | r. r \<in> set rows \<and> nr_id r \<in> set ids} = cn_hash ` set nodes"
proof -
  let ?fresh = "fresh_nodes {} nodes"
  have hashes: "cn_hash ` set ?fresh = cn_hash ` set nodes"
    using fresh_nodes_hashes[of "{}" nodes] by simp
  have same: "r = r'" if "r \<in> set rows" "r' \<in> set rows" "nr_id r = nr_id r'" for r r'
    using assms(2) that by (simp add: distinct_map inj_on_def)
  have "h \<in> cn_hash ` set ?fresh \<longleftrightarrow> (\<exists>r. h = nr_hash r \<and> r \<in> set rows \<and> nr_id r \<in> set ids)" for h
  proof
    assume "h \<in> cn_hash ` set ?fresh"
    then obtain j where j: "j < length ?fresh" "h = cn_hash (?fresh ! j)" by (auto simp: in_set_conv_nth)
    with assms(1) obtain r where "r \<in> set rows" "nr_id r = ids ! j" "nr_hash r = h"
      by (auto simp: list_all2_conv_all_nth)
    with j assms(1) show "\<exists>r. h = nr_hash r \<and> r \<in> set rows \<and> nr_id r \<in> set ids"
      by (auto simp: list_all2_conv_all_nth intro!: exI[of _ r])
  next
    assume "\<exists>r. h = nr_hash r \<and> r \<in> set rows \<and> nr_id r \<in> set ids"
    then obtain r j where r: "h = nr_hash r" "r \<in> set rows" "nr_id r = ids ! j" "j < length ids"
      by (metis in_set_conv_nth)
    with assms(1) obtain r' where "r' \<in> set rows" "nr_id r' = ids ! j" "nr_hash r' = cn_hash (?fresh ! j)"
      "j < length ?fresh" by (auto simp: list_all2_conv_all_nth)
    with same[of r r'] r show "h \<in> cn_hash ` set ?fresh" by auto
  qed
  then have "{nr_hash r | r. r \<in> set rows \<and> nr_id r \<in> set ids} = cn_hash ` set ?fresh" by blast
  with hashes show ?thesis by simp
qed

lemma sync_body_ok:
  assumes "sync_body sq cd rc report c = (Inr res, c')" and "db_ok (co_db c)" and "fresh_rowids sq"
  shows "synced (co_db c) rc (ir_successful_nodes report) res (co_db c')"
proof -
  let ?S = "uint (rc_id rc)" and ?nodes = "ir_successful_nodes report"
  obtain u c1 k ids c2 v c3 w c4 x c5 removed where
    up: "upsert_subscription sq rc c = (Inr u, c1)" and en: "ensure_nodes sq cd ?nodes c1 = (Inr (k, ids), c2)"
    and de: "sql_call sq (delete_sources ?S) c2 = (Inr v, c3)" and ti: "sql_tick sq c3 = (Inr w, c4)"
    and li: "link_nodes sq ?S ids c4 = (Inr x, c5)" and orp: "sql_call sq delete_orphans c5 = (Inr removed, c')"
    and res: "res = \<lparr>sy_inserted_nodes = k, sy_linked_nodes = length ids, sy_removed_orphans = removed\<rparr>"
    using assms(1) by (auto simp: sync_body_def split: prod.splits)
  obtain row where row: "record_row rc = Ok row" "sql_call sq (put_subscription row) c = (Inr u, c1)"
    using up by (auto simp: upsert_subscription_def)
  obtain subs where p: "db_ok (co_db c1)" "row \<in> set subs" "co_db c1 = (co_db c)\<lparr>db_subscriptions := subs\<rparr>"
    using put_subscription_ok[OF assms(2) sql_call_db[OF row(2)]] by metis
  obtain rows diag where e: "db_ok (co_db c2)"
    "co_db c2 = (co_db c1)\<lparr>db_nodes := db_nodes (co_db c1) @ rows, db_diagnostics := diag\<rparr>" "length rows = k"
    "set (map nr_hash rows) = cn_hash ` set ?nodes - nr_hash ` set (db_nodes (co_db c1))"
    "list_all2 (\<lambda>i n. row_holds (co_db c2) i (cn_hash n)) ids (fresh_nodes {} ?nodes)"
    using ensure_nodes_ok[OF en p(1) assms(3)] by blast
  have d: "db_ok (co_db c4)"
    "co_db c4 = (co_db c2)\<lparr>db_node_sources := filter (\<lambda>p. snd p \<noteq> ?S) (db_node_sources (co_db c2))\<rparr>"
    using delete_sources_ok[OF e(1) sql_call_db[OF de]] sql_call_db[OF de] sql_tick_Ok[OF ti]
    by (simp_all add: delete_sources_def)
  obtain src where l: "db_ok (co_db c5)" "co_db c5 = (co_db c4)\<lparr>db_node_sources := src\<rparr>"
    "set src = set (db_node_sources (co_db c4)) \<union> (\<lambda>i. (i, ?S)) ` set ids"
    using link_nodes_ok[OF li d(1)] by blast
  let ?all = "db_nodes (co_db c) @ rows"
  let ?keep = "\<lambda>r. \<exists>s. (nr_id r, s) \<in> set src"
  have hl: "has_link (co_db c5) i \<longleftrightarrow> (\<exists>s. (i, s) \<in> set src)" for i
    by (force simp: has_link_def list_ex_iff l(2))
  have c5: "db_nodes (co_db c5) = ?all" "db_node_sources (co_db c5) = src" "db_subscriptions (co_db c5) = subs"
    by (simp_all add: l(2) d(2) e(2) p(3))
  have orphans: "removed = length (filter (\<lambda>r. \<not> ?keep r) ?all)" "db_nodes (co_db c') = filter ?keep ?all"
    "db_node_sources (co_db c') = src" "db_subscriptions (co_db c') = subs"
    using delete_orphans_fields[OF sql_call_db[OF orp]] unfolding c5 hl by simp_all
  have src: "(n, s) \<in> set src \<longleftrightarrow> s \<noteq> ?S \<and> (n, s) \<in> set (db_node_sources (co_db c)) \<or> s = ?S \<and> n \<in> set ids" for n s
    by (auto simp: l(3) d(2) e(2) p(3))
  have n2: "db_nodes (co_db c2) = ?all" by (simp add: e(2) p(3))
  show ?thesis
  proof -
    have "db_ok (co_db c')" using delete_orphans_ok[OF l(1) sql_call_db[OF orp]] .
    moreover have "linked_hashes (co_db c') ?S = cn_hash ` set ?nodes"
    proof -
      have own: "(i, ?S) \<in> set src \<longleftrightarrow> i \<in> set ids" for i by (simp add: src)
      have "{nr_hash r | r. r \<in> set (filter ?keep ?all) \<and> nr_id r \<in> set ids}
          = {nr_hash r | r. r \<in> set ?all \<and> nr_id r \<in> set ids}"
        using own by auto
      also have "\<dots> = cn_hash ` set ?nodes"
        by (rule linked_exact) (use e(1,5) n2 in \<open>simp_all add: row_holds_def db_ok_def\<close>)
      finally show ?thesis unfolding linked_hashes_def orphans(2,3) own .
    qed
    moreover have "length ids = card (cn_hash ` set ?nodes)"
      using list_all2_lengthD[OF e(5)] fresh_nodes_hashes[of "{}" ?nodes] distinct_card[of "map cn_hash (fresh_nodes {} ?nodes)"]
      by simp
    moreover have "k = card (cn_hash ` set ?nodes - nr_hash ` set (db_nodes (co_db c)))"
    proof -
      have "distinct (map nr_hash rows)" using e(1) n2 by (simp add: db_ok_def)
      from distinct_card[OF this] show ?thesis using e(3,4) by (simp add: p(3))
    qed
    moreover have "length (db_nodes (co_db c)) + k = length (db_nodes (co_db c')) + removed"
      using sum_length_filter_compl[of ?keep ?all] by (simp add: orphans(1,2) e(3))
    ultimately show ?thesis unfolding synced_def using row(1) p(2) orphans src by (auto simp: res)
  qed
qed

lemma sync_subscription_Ok:
  assumes "sync_subscription sq cd rc report allow_empty c = (Inr res, c')"
    and "db_ok (co_db c)" and "fresh_rowids sq"
  shows "synced (co_db c) rc (ir_successful_nodes report) res (co_db c')"
proof -
  have "transaction sq (sync_body sq cd rc report) c = (Inr res, c')"
    using assms(1) by (auto simp: sync_subscription_def split: if_splits)
  then obtain c1 c2 where t: "co_db c1 = co_db c" "sync_body sq cd rc report c1 = (Inr res, c2)"
    "co_db c' = co_db c2" using transaction_Ok[of sq "sync_body sq cd rc report" c res c'] by blast
  have "synced (co_db c1) rc (ir_successful_nodes report) res (co_db c2)"
    by (rule sync_body_ok[OF t(2)]) (simp_all only: t(1) assms(2,3))
  then show ?thesis by (simp only: t(1,3))
qed

text \<open>
  Claim C31.  Replacing a subscription either fails and leaves every table as it was, whichever
  call of the database fails and whichever constraint is violated, or succeeds; and a report with
  no node in it is refused before the database is touched, unless an empty snapshot is allowed.
\<close>

theorem failed_sync_changes_nothing:
  "(case sync_subscription sq cd rc report allow_empty c of
      (Inl e, c') \<Rightarrow> co_db c' = co_db c
    | (Inr res, c') \<Rightarrow> ir_successful_nodes report \<noteq> [] \<or> allow_empty) \<and>
   (ir_successful_nodes report = [] \<and> \<not> allow_empty \<longrightarrow>
      snd (sync_subscription sq cd rc report allow_empty c) = c)"
proof -
  obtain r c' where run: "sync_subscription sq cd rc report allow_empty c = (r, c')" by (rule prod.exhaust)
  show ?thesis
  proof (cases "ir_successful_nodes report = [] \<and> \<not> allow_empty")
    case True
    then show ?thesis by (simp add: sync_subscription_def sql_raise_def)
  next
    case False
    with run have tx: "transaction sq (sync_body sq cd rc report) c = (r, c')"
      by (auto simp: sync_subscription_def)
    show ?thesis
    proof (cases r)
      case (Inl e)
      with transaction_Err tx have "co_db c' = co_db c" by blast
      with run Inl False show ?thesis by auto
    next
      case (Inr res)
      with run False show ?thesis by auto
    qed
  qed
qed

text \<open>
  Claim C30.  A successful replacement keeps the constraints of the schema; stores the
  subscription; links it to exactly the nodes of the report, one for each hash; changes no link of
  another subscription and no node that another subscription lists; leaves no node without a
  subscription; and reports how many nodes were new, linked and removed.
\<close>

theorem sync_links_exactly:
  assumes "sync_subscription sq cd rc report allow_empty c = (Inr res, c')"
    and "db_ok (co_db c)" and "fresh_rowids sq"
  shows "synced (co_db c) rc (ir_successful_nodes report) res (co_db c')"
  using assms by (rule sync_subscription_Ok)

section \<open>It succeeds\<close>

text \<open>A node the schema accepts: a 32 byte hash and a two character country.\<close>

definition storable :: "codec \<Rightarrow> canonical_node \<Rightarrow> bool" where
  "storable cd n \<longleftrightarrow> length (cn_hash n) = 32 \<and> is_ok (ser_node cd n) \<and> upper_pair (nm_country_code (cn_meta n))"

lemma upper_country_text:
  assumes "upper_pair (nm_country_code (cn_meta n))"
  shows "sql_length (country_text n) = 2"
proof -
  obtain a b where cc: "nm_country_code (cn_meta n) = (a, b)" by (rule prod.exhaust)
  with assms have up: "65 \<le> byte_of a" "byte_of a \<le> 90" "65 \<le> byte_of b" "byte_of b \<le> 90"
    by (auto simp: upper_pair_def is_ascii_uppercase_def)
  then have "is_utf8 [a, b]" by (intro is_utf8_ascii) (simp add: is_ascii_def)
  with up show ?thesis by (simp add: country_text_def cc sql_length_def cont_byte_def)
qed

lemma sql_call_runs:
  "\<forall>k. sq_fault sq k = None \<Longrightarrow> stmt (co_db c) = Inr (a, db) \<Longrightarrow>
     \<exists>c'. sql_call sq stmt c = (Inr a, c') \<and> co_db c' = db"
  by (simp add: sql_call_def Let_def)

lemma sql_tick_runs: "\<forall>k. sq_fault sq k = None \<Longrightarrow> \<exists>c'. sql_tick sq c = (Inr (), c') \<and> co_db c' = co_db c"
  unfolding sql_tick_def by (rule sql_call_runs) simp_all

lemma store_node_runs:
  assumes "\<forall>k. sq_fault sq k = None" and "storable cd node"
  shows "\<exists>new i c'. store_node sq cd node c = (Inr (new, i), c')"
proof -
  obtain payload where pay: "ser_node cd node = Inr payload" using assms(2) by (auto simp: storable_def is_ok_iff)
  have "sql_length (country_text node) = 2" "length (cn_hash node) = 32"
    using assms(2) upper_country_text by (simp_all add: storable_def)
  then obtain k db where ins: "insert_node sq (cn_hash node) (nm_label (cn_meta node)) (country_text node)
      (node_kind node) payload (co_db c) = Inr (k, db)" and has: "cn_hash node \<in> nr_hash ` set (db_nodes db)"
    by (cases "list_ex (\<lambda>r. nr_hash r = cn_hash node) (db_nodes (co_db c))")
      (auto simp: insert_node_def list_ex_iff, metis imageI)
  obtain c1 where c1: "sql_call sq (insert_node sq (cn_hash node) (nm_label (cn_meta node)) (country_text node)
      (node_kind node) payload) c = (Inr k, c1)" "co_db c1 = db"
    using sql_call_runs[OF assms(1), of "insert_node sq (cn_hash node) (nm_label (cn_meta node))
      (country_text node) (node_kind node) payload" c k db] ins by blast
  have "find (\<lambda>r. nr_hash r = cn_hash node) (db_nodes db) \<noteq> None"
    using has by (auto simp: find_None_iff)
  then obtain i where "find_node (cn_hash node) (co_db c1) = Inr (i, db)"
    using c1(2) by (auto simp: find_node_def)
  then obtain c2 where "sql_call sq (find_node (cn_hash node)) c1 = (Inr i, c2)"
    using sql_call_runs[OF assms(1), of "find_node (cn_hash node)" c1 i db] by blast
  with c1(1) pay show ?thesis by (simp add: store_node_def sql_bind_def sql_lift_def sql_return_def)
qed

lemma insert_diagnostics_runs:
  "row_holds db i h \<Longrightarrow> \<exists>db'. insert_diagnostics i db = Inr ((), db')"
  by (auto simp: insert_diagnostics_def row_holds_def)

lemma ensure_loop_runs:
  assumes "\<forall>k. sq_fault sq k = None" and "fresh_rowids sq" and "\<forall>n \<in> set nodes. storable cd n"
    and "db_ok (co_db c)"
  shows "\<exists>r c'. ensure_loop sq cd seen nodes c = (Inr r, c')"
  using assms(3,4)
proof (induction nodes arbitrary: seen c)
  case Nil
  then show ?case by simp
next
  case (Cons node nodes)
  show ?case
  proof (cases "cn_hash node \<in> seen")
    case True
    with Cons show ?thesis by simp
  next
    case False
    obtain new i c1 where st: "store_node sq cd node c = (Inr (new, i), c1)"
      using store_node_runs[OF assms(1)] Cons.prems(1) by fastforce
    have c1: "db_ok (co_db c1)" "row_holds (co_db c1) i (cn_hash node)"
      using store_node_ok[OF Cons.prems(2) assms(2) st] by auto
    obtain db2 where "insert_diagnostics i (co_db c1) = Inr ((), db2)"
      using insert_diagnostics_runs[OF c1(2)] by blast
    then obtain c2 where di: "sql_call sq (insert_diagnostics i) c1 = (Inr (), c2)" "co_db c2 = db2"
      using sql_call_runs[OF assms(1), of "insert_diagnostics i" c1 "()" db2] by blast
    have "db_ok (co_db c2)" using insert_diagnostics_ok[OF c1(1) sql_call_db[OF di(1)]] by simp
    with Cons.IH[of c2 "insert (cn_hash node) seen"] Cons.prems(1)
    obtain r c' where "ensure_loop sq cd (insert (cn_hash node) seen) nodes c2 = (Inr r, c')" by auto
    with st di(1) False show ?thesis by (cases r) (simp add: sql_bind_def sql_return_def)
  qed
qed

lemma link_nodes_runs:
  assumes "\<forall>k. sq_fault sq k = None" and "\<forall>i \<in> set ids. i \<in> nr_id ` set (db_nodes (co_db c))"
    and "sub \<in> sr_id ` set (db_subscriptions (co_db c))"
  shows "\<exists>c'. link_nodes sq sub ids c = (Inr (), c')"
  using assms(2,3)
proof (induction ids arbitrary: c)
  case Nil
  then show ?case by simp
next
  case (Cons i ids)
  then obtain db where db: "insert_source i sub (co_db c) = Inr ((), db)"
    "db_nodes db = db_nodes (co_db c)" "db_subscriptions db = db_subscriptions (co_db c)"
    by (cases "(i, sub) \<in> set (db_node_sources (co_db c))") (auto simp: insert_source_def)
  obtain c1 where c1: "sql_call sq (insert_source i sub) c = (Inr (), c1)" "co_db c1 = db"
    using sql_call_runs[OF assms(1), of "insert_source i sub" c "()" db] db(1) by blast
  with Cons.IH[of c1] Cons.prems db(2,3) show ?case by (simp add: sql_bind_def)
qed

lemma list_all2_left: "list_all2 P xs ys \<Longrightarrow> x \<in> set xs \<Longrightarrow> \<exists>y. P x y"
  by (induction rule: list_all2_induct) auto

lemma put_subscription_runs:
  assumes "\<forall>r \<in> set (db_subscriptions db). sr_uuid r = sr_uuid row \<longrightarrow> sr_id r = sr_id row"
  shows "\<exists>db'. put_subscription row db = Inr ((), db')"
  using assms by (auto simp: put_subscription_def list_ex_iff)

lemma sync_body_runs:
  assumes nofault: "\<forall>k. sq_fault sq k = None" and fresh: "fresh_rowids sq" and ok: "db_ok (co_db c)"
    and nodes: "\<forall>n \<in> set (ir_successful_nodes report). storable cd n"
    and row: "record_row rc = Ok row"
    and uuid: "\<forall>r \<in> set (db_subscriptions (co_db c)). sr_uuid r = rc_uuid rc \<longrightarrow> sr_id r = uint (rc_id rc)"
  shows "\<exists>res c'. sync_body sq cd rc report c = (Inr res, c')"
proof -
  let ?S = "uint (rc_id rc)" and ?nodes = "ir_successful_nodes report"
  have rowf: "sr_id row = ?S" "sr_uuid row = rc_uuid rc" using row by (auto simp: record_row_def)
  obtain db1 where "put_subscription row (co_db c) = Inr ((), db1)"
    using put_subscription_runs[of "co_db c" row] uuid rowf by auto
  then obtain c1 where put: "sql_call sq (put_subscription row) c = (Inr (), c1)"
    using sql_call_runs[OF nofault, of "put_subscription row" c "()" db1] by blast
  have c1: "db_ok (co_db c1)" "row \<in> set (db_subscriptions (co_db c1))"
    using put_subscription_ok[OF ok sql_call_db[OF put]] by simp_all
  have up: "upsert_subscription sq rc c = (Inr (), c1)"
    using put row by (simp add: upsert_subscription_def sql_bind_def sql_lift_def)
  obtain t1 t2 t3 where t: "sql_tick sq c1 = (Inr (), t1)" "sql_tick sq t1 = (Inr (), t2)"
    "sql_tick sq t2 = (Inr (), t3)" "co_db t3 = co_db c1"
    using sql_tick_runs[OF nofault] by metis
  obtain k ids c2 where lo: "ensure_loop sq cd {} ?nodes t3 = (Inr (k, ids), c2)"
    using ensure_loop_runs[OF nofault fresh nodes, of t3 "{}"] c1(1) t(4) by auto
  have en: "ensure_nodes sq cd ?nodes c1 = (Inr (k, ids), c2)"
    using t lo by (simp add: ensure_nodes_def sql_bind_def)
  obtain rows diag where e: "co_db c2 = (co_db c1)\<lparr>db_nodes := db_nodes (co_db c1) @ rows, db_diagnostics := diag\<rparr>"
    "list_all2 (\<lambda>i n. row_holds (co_db c2) i (cn_hash n)) ids (fresh_nodes {} ?nodes)"
    using ensure_nodes_ok[OF en c1(1) fresh] by blast
  let ?db3 = "(co_db c2)\<lparr>db_node_sources := filter (\<lambda>p. snd p \<noteq> ?S) (db_node_sources (co_db c2))\<rparr>"
  obtain c3 c4 where de: "sql_call sq (delete_sources ?S) c2 = (Inr (), c3)" "co_db c3 = ?db3"
    "sql_tick sq c3 = (Inr (), c4)" "co_db c4 = co_db c3"
    using sql_call_runs[OF nofault, of "delete_sources ?S" c2 "()" ?db3] sql_tick_runs[OF nofault]
    by (metis delete_sources_def)
  have "\<exists>n :: canonical_node. row_holds (co_db c2) i (cn_hash n)" if "i \<in> set ids" for i
    using list_all2_left[OF e(2) that] .
  then have "\<forall>i \<in> set ids. i \<in> nr_id ` set (db_nodes (co_db c4))"
    using de(2,4) by (force simp: row_holds_def)
  moreover have "?S \<in> sr_id ` set (db_subscriptions (co_db c4))"
    using c1(2) rowf(1) de(2,4) e(1) by force
  ultimately obtain c5 where li: "link_nodes sq ?S ids c4 = (Inr (), c5)"
    using link_nodes_runs[OF nofault] by blast
  obtain removed db6 where "delete_orphans (co_db c5) = Inr (removed, db6)" by (auto simp: delete_orphans_def)
  then obtain c6 where orp: "sql_call sq delete_orphans c5 = (Inr removed, c6)"
    using sql_call_runs[OF nofault, of delete_orphans c5 removed db6] by blast
  show ?thesis using up en de(1,3) li orp by (simp add: sync_body_def sql_bind_def sql_return_def)
qed

lemma sync_runs:
  assumes "\<forall>k. sq_fault sq k = None" and "fresh_rowids sq" and "db_ok (co_db c)"
    and "ir_successful_nodes report \<noteq> [] \<or> allow_empty"
    and "\<forall>n \<in> set (ir_successful_nodes report). storable cd n"
    and "unat (rc_last_updated rc) < 2 ^ 63" and "unat (rc_auto_update_interval rc) < 2 ^ 63"
    and "\<forall>r \<in> set (db_subscriptions (co_db c)). sr_uuid r = rc_uuid rc \<longrightarrow> sr_id r = uint (rc_id rc)"
  shows "\<exists>res c'. sync_subscription sq cd rc report allow_empty c = (Inr res, c')"
proof -
  have fits: "uint v < 2 ^ 63" if "unat v < 2 ^ 63" for v :: u64
  proof -
    have "int (unat v) < int (2 ^ 63)" using that by (simp only: of_nat_less_iff)
    then show ?thesis by simp
  qed
  obtain row where row: "record_row rc = Ok row"
    using fits[OF assms(6)] fits[OF assms(7)] by (simp add: record_row_def to_sql_u64_def)
  obtain c1 where c1: "sql_tick sq c = (Inr (), c1)" "co_db c1 = co_db c" using sql_tick_runs[OF assms(1)] by blast
  have "\<exists>res c2. sync_body sq cd rc report c1 = (Inr res, c2)"
    by (rule sync_body_runs[OF assms(1,2) _ assms(5) row]) (use assms(3,8) in \<open>simp_all only: c1(2)\<close>)
  then obtain res c2 where body: "sync_body sq cd rc report c1 = (Inr res, c2)" by blast
  obtain c3 where c3: "sql_tick sq c2 = (Inr (), c3)" using sql_tick_runs[OF assms(1)] by blast
  have "transaction sq (sync_body sq cd rc report) c = (Inr res, c3)"
    using c1(1) body c3 by (simp add: transaction_def sql_bind_def sql_return_def)
  with assms(4) show ?thesis by (auto simp: sync_subscription_def)
qed

text \<open>
  When no call of the database fails, replacing a subscription succeeds: for a report
  with at least one node, nodes as the parser builds them, times that fit the database, and a
  uuid that no other subscription has.
\<close>

theorem sync_succeeds:
  assumes "\<forall>k. sq_fault sq k = None" and "fresh_rowids sq" and "db_ok (co_db c)"
    and "ir_successful_nodes report \<noteq> [] \<or> allow_empty"
    and "\<forall>n \<in> set (ir_successful_nodes report). storable cd n"
    and "unat (rc_last_updated rc) < 2 ^ 63" and "unat (rc_auto_update_interval rc) < 2 ^ 63"
    and "\<forall>r \<in> set (db_subscriptions (co_db c)). sr_uuid r = rc_uuid rc \<longrightarrow> sr_id r = uint (rc_id rc)"
  shows "\<exists>res c'. sync_subscription sq cd rc report allow_empty c = (Inr res, c')"
  using assms by (rule sync_runs)

definition sample_record :: subscription_record where
  "sample_record = \<lparr>rc_id = 4, rc_uuid = ''one'', rc_name = ''n'', rc_url = ''u'', rc_last_updated = 1,
     rc_auto_update_interval = 86400, rc_etag = None\<rparr>"

definition sample_import :: ingestion_report where
  "sample_import = IngestionReport_default\<lparr>ir_successful_nodes := [sample_node ''DE'' ''node.com'' 443]\<rparr>"

definition sample_connection :: connection where
  "sample_connection = \<lparr>co_db = empty_database, co_calls = 0\<rparr>"

lemma sample_storable: "storable sample_codec (sample_node l h p)"
  by (simp add: storable_def sample_node_def sample_codec_def sample_meta_def upper_pair_def is_ascii_uppercase_def)

lemmas sample_sync_facts = quiet_fresh db_ok_empty sample_storable sample_connection_def sample_import_def
  sample_record_def

theorem sync_succeeds_witness:
  "\<exists>res c'. sync_subscription quiet_sqlite sample_codec sample_record sample_import False sample_connection
     = (Inr res, c')"
  by (rule sync_succeeds) (simp_all add: sample_sync_facts, simp_all add: quiet_sqlite_def empty_database_def)

lemma sample_sync:
  "\<exists>res c'. sync_subscription quiet_sqlite sample_codec sample_record sample_import False sample_connection
     = (Inr res, c')"
  by (rule sync_runs) (simp_all add: sample_sync_facts, simp_all add: quiet_sqlite_def empty_database_def)

theorem sync_links_exactly_witness:
  "\<exists>res c'. sync_subscription quiet_sqlite sample_codec sample_record sample_import False sample_connection
       = (Inr res, c') \<and>
     synced (co_db sample_connection) sample_record (ir_successful_nodes sample_import) res (co_db c')"
proof -
  obtain res c' where run: "sync_subscription quiet_sqlite sample_codec sample_record sample_import False
      sample_connection = (Inr res, c')" using sample_sync by blast
  have "db_ok (co_db sample_connection)" by (simp add: sample_connection_def db_ok_empty)
  from sync_links_exactly[OF run this quiet_fresh] run show ?thesis by blast
qed

theorem failed_sync_changes_nothing_witness:
  "snd (sync_subscription quiet_sqlite sample_codec sample_record IngestionReport_default False sample_connection)
     = sample_connection"
  using failed_sync_changes_nothing[where sq = quiet_sqlite and cd = sample_codec and rc = sample_record
    and report = IngestionReport_default and allow_empty = False and c = sample_connection] by (simp add: IngestionReport_default_def)

end
