(* ===== verification/Hydrate.thy ===== *)
theory Hydrate
  imports Repository
begin

text \<open>
  The catalog as loaded from the database refines the tables: one row for each node in the order
  of ids, with the diagnostics joined to it and the subscriptions that list it.  With the
  replacement of a subscription this gives the path from an imported payload to the list view.
\<close>

section \<open>The rows of the tables\<close>

definition ordered_sources :: "database \<Rightarrow> (int \<times> int) list" where
  "ordered_sources db = sort_key fst (sort_key snd (db_node_sources db))"

definition catalog_row :: "database \<Rightarrow> node_row \<Rightarrow> hot_node_row" where
  "catalog_row db r =
     (let d = diagnostics_of db (nr_id r) in
      \<lparr>hr_id = of_int (nr_id r), hr_country_code = country_code (nr_country_code r),
       hr_latency_ms = of_int (unwrap_or 65535 (map_option dr_latency_ms d)),
       hr_health_score = of_int (unwrap_or 0 (map_option dr_health_score d)),
       hr_name = nr_name r,
       hr_protocol = unwrap_or KVless (from_discriminant (of_int (nr_protocol_kind r))),
       hr_source_sub_ids = map (of_int \<circ> snd) (filter (\<lambda>p. fst p = nr_id r) (ordered_sources db))\<rparr>)"

definition catalog_rows :: "database \<Rightarrow> hot_node_row list" where
  "catalog_rows db = map (catalog_row db) (sort_key nr_id (db_nodes db))"

section \<open>The first loop\<close>

lemma get_unsigned_Ok:
  "get_unsigned k v = Inr (w :: 'a::len word) \<longleftrightarrow> 0 \<le> v \<and> v < 2 ^ LENGTH('a) \<and> w = of_int v"
  by (auto simp: get_unsigned_def)

lemma hydrate_row_rep:
  assumes "hydrate_row uni db r st = Inr st'" and "columns_rep uni st rows"
  shows "columns_rep uni st' (rows @ [catalog_row db r]) \<and> ds_source_offsets st' = ds_source_offsets st
     \<and> ds_source_sub_ids st' = ds_source_sub_ids st \<and> 0 \<le> nr_id r \<and> nr_id r < 2 ^ 32"
proof -
  let ?d = "diagnostics_of db (nr_id r)"
  have st': "st' = push_columns uni (of_int (nr_id r)) (country_code (nr_country_code r))
      (of_int (unwrap_or 65535 (map_option dr_latency_ms ?d))) (of_int (unwrap_or 0 (map_option dr_health_score ?d)))
      (unwrap_or KVless (from_discriminant (of_int (nr_protocol_kind r)))) (nr_name r) st"
    and range: "0 \<le> nr_id r" "nr_id r < 2 ^ 32"
    using assms(1) by (auto simp: hydrate_row_def Let_def get_unsigned_Ok)
  have "columns_rep uni st' (rows @ [catalog_row db r])"
    unfolding st' by (rule columns_rep_push[OF assms(2)]) (simp_all add: catalog_row_def Let_def)
  with range show ?thesis by (simp add: st')
qed

lemma hydrate_rows_rep:
  assumes "try_fold (hydrate_row uni db) rs st = Inr st'" and "columns_rep uni st rows"
  shows "columns_rep uni st' (rows @ map (catalog_row db) rs) \<and> ds_source_offsets st' = ds_source_offsets st
     \<and> ds_source_sub_ids st' = ds_source_sub_ids st \<and> (\<forall>r \<in> set rs. 0 \<le> nr_id r \<and> nr_id r < 2 ^ 32)"
  using assms
proof (induction rs arbitrary: st rows)
  case Nil
  then show ?case by simp
next
  case (Cons r rs)
  obtain st1 where one: "hydrate_row uni db r st = Inr st1" "try_fold (hydrate_row uni db) rs st1 = Inr st'"
    using Cons.prems(1) by auto
  note h = hydrate_row_rep[OF one(1) Cons.prems(2)]
  from Cons.IH[OF one(2) conjunct1[OF h]] h show ?case by simp
qed

section \<open>The second and third loop\<close>

lemma uint_of_int_u32: "0 \<le> a \<Longrightarrow> a < 2 ^ 32 \<Longrightarrow> uint (of_int a :: u32) = a"
  by (simp add: unsigned_of_int take_bit_int_eq_self)

lemma uint_of_int_u16: "0 \<le> a \<Longrightarrow> a < 2 ^ 16 \<Longrightarrow> uint (of_int a :: u16) = a"
  by (simp add: unsigned_of_int take_bit_int_eq_self)

lemma distinct_u32_ids:
  assumes "distinct ids" and "\<forall>i \<in> set ids. 0 \<le> i \<and> i < 2 ^ 32"
  shows "distinct (map (of_int :: int \<Rightarrow> u32) ids)"
proof -
  have "inj_on (of_int :: int \<Rightarrow> u32) (set ids)"
    by (rule inj_on_inverseI[of _ uint]) (use assms(2) uint_of_int_u32 in blast)
  with assms(1) show ?thesis by (simp add: distinct_map)
qed

definition runs_after :: "int list \<Rightarrow> (int \<times> int) list \<Rightarrow> u16 list list \<Rightarrow> u16 list list" where
  "runs_after ids ps runs =
     map (\<lambda>i. runs ! i @ map (of_int \<circ> snd) (filter (\<lambda>p. fst p = ids ! i) ps)) [0..<length ids]"

lemma length_concat_push:
  assumes "j < length xs"
  shows "length (concat (xs[j := xs ! j @ [x]])) = Suc (length (concat xs))"
proof -
  have "concat xs = concat (take j xs) @ xs ! j @ concat (drop (Suc j) xs)"
    using assms by (metis append_take_drop_id Cons_nth_drop_Suc concat.simps(2) concat_append)
  then have "length (concat xs) = length (concat (take j xs)) + length (xs ! j) + length (concat (drop (Suc j) xs))"
    by (metis length_append add.assoc)
  moreover have "concat (xs[j := xs ! j @ [x]]) = concat (take j xs) @ (xs ! j @ [x]) @ concat (drop (Suc j) xs)"
    using assms by (simp add: upd_conv_take_nth_drop)
  ultimately show ?thesis by simp
qed

lemma collect_source_runs:
  assumes "collect_source st p runs = Inr runs'" and "length runs = length ids"
    and "\<And>i. i < length ids \<Longrightarrow> ds_id_to_index st (of_int (ids ! i)) = Some i"
    and "distinct ids" and "fst p \<in> set ids"
  shows "runs' = runs_after ids [p] runs \<and> length (concat runs') = Suc (length (concat runs))"
proof -
  obtain j where j: "j < length ids" "ids ! j = fst p" using assms(5) by (auto simp: in_set_conv_nth)
  have "ds_id_to_index st (of_int (fst p)) = Some j" using assms(3)[OF j(1)] j(2) by simp
  then have r': "runs' = runs[j := runs ! j @ [of_int (snd p)]]"
    using assms(1) by (auto simp: collect_source_def get_unsigned_Ok)
  have "runs' = runs_after ids [p] runs"
  proof (rule nth_equalityI)
    show "length runs' = length (runs_after ids [p] runs)" by (simp add: r' runs_after_def assms(2))
  next
    fix i assume "i < length runs'"
    then have i: "i < length ids" by (simp add: r' assms(2))
    then have "fst p = ids ! i \<longleftrightarrow> i = j" using j assms(4) by (auto simp: nth_eq_iff_index_eq)
    with i j show "runs' ! i = runs_after ids [p] runs ! i"
      by (auto simp: r' runs_after_def assms(2) nth_list_update)
  qed
  moreover have "length (concat runs') = Suc (length (concat runs))"
    unfolding r' by (rule length_concat_push) (simp add: j(1) assms(2))
  ultimately show ?thesis by blast
qed

lemma collect_sources_runs:
  assumes "try_fold (collect_source st) ps runs = Inr runs'" and "length runs = length ids"
    and "\<And>i. i < length ids \<Longrightarrow> ds_id_to_index st (of_int (ids ! i)) = Some i"
    and "distinct ids" and "fst ` set ps \<subseteq> set ids"
  shows "runs' = runs_after ids ps runs \<and> length (concat runs') = length ps + length (concat runs)"
  using assms(1,2,5)
proof (induction ps arbitrary: runs)
  case Nil
  then show ?case by (simp add: runs_after_def) (metis map_nth)
next
  case (Cons p ps)
  obtain mid where one: "collect_source st p runs = Inr mid" "try_fold (collect_source st) ps mid = Inr runs'"
    using Cons.prems(1) by auto
  have "fst p \<in> set ids" using Cons.prems(3) by simp
  from collect_source_runs[OF one(1) Cons.prems(2) assms(3,4) this]
  have m: "mid = runs_after ids [p] runs" "length (concat mid) = Suc (length (concat runs))" by blast+
  have "length mid = length ids" by (simp add: m(1) runs_after_def)
  moreover have "fst ` set ps \<subseteq> set ids" using Cons.prems(3) by simp
  ultimately have "runs' = runs_after ids ps mid \<and> length (concat runs') = length ps + length (concat mid)"
    by (rule Cons.IH[OF one(2)])
  then show ?case using m by (auto simp: runs_after_def)
qed

lemma fold_push_sources_rep:
  assumes "columns_rep uni st rows" and "runs_rep (ds_source_offsets st) (ds_source_sub_ids st) runs"
    and "length (concat (runs @ more_runs)) < 2 ^ 32"
  shows "columns_rep uni (fold push_sources more_runs st) rows \<and>
     runs_rep (ds_source_offsets (fold push_sources more_runs st))
       (ds_source_sub_ids (fold push_sources more_runs st)) (runs @ more_runs)"
  using assms
proof (induction more_runs arbitrary: st runs)
  case Nil
  then show ?case by simp
next
  case (Cons ids more_runs)
  have len: "length (ds_source_sub_ids st @ ids) < 2 ^ 32"
    using Cons.prems(2,3) by (simp add: runs_rep_def)
  have "runs_rep (ds_source_offsets (push_sources ids st)) (ds_source_sub_ids (push_sources ids st)) (runs @ [ids])"
    using runs_rep_push[OF Cons.prems(2) len] by (simp add: push_sources_def Let_def)
  from Cons.IH[OF _ this] Cons.prems show ?case by simp
qed

lemma hydrate_rep:
  assumes "hydrate uni db = Inr st" and "db_ok db" and "length (db_node_sources db) < 2 ^ 32"
  shows "store_rep uni st (catalog_rows db)"
proof -
  let ?rs = "sort_key nr_id (db_nodes db)"
  let ?ids = "map nr_id ?rs" and ?ps = "ordered_sources db"
  obtain st1 runs where one: "try_fold (hydrate_row uni db) ?rs with_capacity = Inr st1"
    and two: "try_fold (collect_source st1) ?ps (replicate (store_len st1) []) = Inr runs"
    and st: "st = fold push_sources runs (st1\<lparr>ds_source_offsets := ds_source_offsets st1 @ [0]\<rparr>)"
    using assms(1) by (auto simp: hydrate_def ordered_sources_def)
  have "columns_rep uni with_capacity []"
    by (simp add: columns_rep_def with_capacity_def index_rep_empty)
  note h = hydrate_rows_rep[OF one this]
  have cols: "columns_rep uni st1 (catalog_rows db)" using h by (simp add: catalog_rows_def)
  have empty: "ds_source_offsets st1 = []" "ds_source_sub_ids st1 = []"
    using h by (simp_all add: with_capacity_def)
  have distinct: "distinct ?ids" using assms(2)
    by (simp add: db_ok_def distinct_map distinct_sort)
  have words: "map hr_id (catalog_rows db) = map of_int ?ids"
    by (simp add: catalog_rows_def catalog_row_def Let_def)
  have idx: "ds_id_to_index st1 (of_int (?ids ! i)) = Some i" if "i < length ?ids" for i
  proof -
    have rep: "index_rep (ds_id_to_index st1) (map of_int ?ids)" using cols words by (simp add: columns_rep_def)
    have "distinct (map (of_int :: int \<Rightarrow> u32) ?ids)"
      by (rule distinct_u32_ids[OF distinct]) (use h in auto)
    from index_rep_distinct[OF rep this, of i] that show ?thesis by simp
  qed
  have len: "store_len st1 = length ?ids" using cols words unfolding store_len_def columns_rep_def
    by (metis length_map)
  have "fst ` set ?ps \<subseteq> set ?ids"
    using assms(2) by (auto simp: ordered_sources_def db_ok_def)
  then have "runs = runs_after ?ids ?ps (replicate (store_len st1) [])
      \<and> length (concat runs) = length ?ps + length (concat (replicate (store_len st1) [] :: u16 list list))"
    by (intro collect_sources_runs[OF two _ idx distinct]) (simp_all add: len)
  note both = this[unfolded concat_replicate_trivial list.size add_0_right]
  note runs = conjunct1[OF both] conjunct2[OF both]
  have all_runs: "runs = map hr_source_sub_ids (catalog_rows db)"
    unfolding runs(1) by (rule nth_equalityI) (simp_all add: runs_after_def len catalog_rows_def catalog_row_def Let_def)
  have "columns_rep uni st (catalog_rows db) \<and>
      runs_rep (ds_source_offsets st) (ds_source_sub_ids st) ([] @ runs)"
    unfolding st
    by (rule fold_push_sources_rep)
      (use cols empty runs(2) assms(3) in \<open>simp_all add: columns_rep_def runs_rep_empty ordered_sources_def\<close>)
  then show ?thesis by (simp add: store_rep_def all_runs)
qed

section \<open>When it loads\<close>

text \<open>Every value fits the type of its column.\<close>

definition loadable :: "database \<Rightarrow> bool" where
  "loadable db \<longleftrightarrow>
     (\<forall>r \<in> set (db_nodes db). 0 \<le> nr_id r \<and> nr_id r < 2 ^ 32 \<and> 0 \<le> nr_protocol_kind r \<and> nr_protocol_kind r < 2 ^ 8) \<and>
     (\<forall>n s. (n, s) \<in> set (db_node_sources db) \<longrightarrow> 0 \<le> s \<and> s < 2 ^ 16) \<and>
     length (db_node_sources db) < 2 ^ 32"

lemma hydrate_row_runs:
  assumes "db_ok db" and "loadable db" and "r \<in> set (db_nodes db)"
  shows "\<exists>st'. hydrate_row uni db r st = Inr st'"
proof -
  let ?d = "diagnostics_of db (nr_id r)"
  have "0 \<le> dr_latency_ms d \<and> dr_latency_ms d \<le> 65535 \<and> 0 \<le> dr_health_score d \<and> dr_health_score d \<le> 100"
    if "?d = Some d" for d
    using assms(1) find_Some_mem[of _ "db_diagnostics db" d] that by (auto simp: diagnostics_of_def db_ok_def)
  moreover have "0 \<le> nr_id r" "nr_id r < 2 ^ 32" "0 \<le> nr_protocol_kind r" "nr_protocol_kind r < 2 ^ 8"
    using assms(2,3) by (auto simp: loadable_def)
  ultimately show ?thesis by (cases ?d) (auto simp: hydrate_row_def Let_def get_unsigned_def)
qed

lemma try_fold_runs: "(\<And>x s. x \<in> set xs \<Longrightarrow> \<exists>s'. f x s = Inr s') \<Longrightarrow> \<exists>s'. try_fold f xs s = Inr s'"
proof (induction xs arbitrary: s)
  case Nil
  then show ?case by simp
next
  case (Cons x xs)
  obtain s1 where "f x s = Inr s1" using Cons.prems[of x s] by auto
  with Cons show ?case by simp
qed

lemma collect_source_runs_ok:
  assumes "db_ok db" and "loadable db" and "p \<in> set (db_node_sources db)"
  shows "\<exists>runs'. collect_source st p runs = Inr runs'"
proof -
  obtain n s where p: "p = (n, s)" by (rule prod.exhaust)
  with assms(1,3) have "n \<in> nr_id ` set (db_nodes db)" by (auto simp: db_ok_def)
  then obtain r where "r \<in> set (db_nodes db)" "nr_id r = n" by blast
  with assms(2,3) p have "0 \<le> n" "n < 2 ^ 32" "0 \<le> s" "s < 2 ^ 16" by (auto simp: loadable_def)
  then show ?thesis by (simp add: p collect_source_def get_unsigned_def)
qed

lemma hydrate_runs:
  assumes "db_ok db" and "loadable db"
  shows "\<exists>st. hydrate uni db = Inr st"
proof -
  obtain st1 where one: "try_fold (hydrate_row uni db) (sort_key nr_id (db_nodes db)) with_capacity = Inr st1"
    using try_fold_runs[of "sort_key nr_id (db_nodes db)" "hydrate_row uni db"] hydrate_row_runs[OF assms]
    by (metis set_sort)
  obtain runs where "try_fold (collect_source st1) (sort_key fst (sort_key snd (db_node_sources db)))
      (replicate (store_len st1) []) = Inr runs"
    using try_fold_runs[of "sort_key fst (sort_key snd (db_node_sources db))" "collect_source st1"]
      collect_source_runs_ok[OF assms] by (metis set_sort)
  with one show ?thesis by (simp add: hydrate_def)
qed

text \<open>
  Claim C26.  The catalog in memory refines the database: from tables that satisfy the schema and
  whose values fit the columns the load succeeds, and the store has one row for each node in the
  order of ids, with its joined diagnostics (untested and 0 where there are none), its protocol,
  and exactly the subscriptions that list it.
\<close>

theorem hydrate_refines_tables:
  assumes "db_ok db" and "loadable db"
  shows "\<exists>st. hydrate uni db = Inr st \<and> store_rep uni st (catalog_rows db)"
proof -
  obtain st where st: "hydrate uni db = Inr st" using hydrate_runs[OF assms] by blast
  have "length (db_node_sources db) < 2 ^ 32" using assms(2) by (simp add: loadable_def)
  from hydrate_rep[OF st assms(1) this] st show ?thesis by blast
qed

section \<open>From a payload to the list view\<close>

lemma catalog_source_iff:
  assumes "db_ok db" and "loadable db" and "r \<in> set (db_nodes db)" and "0 \<le> s" and "s < 2 ^ 16"
  shows "(of_int s :: u16) \<in> set (hr_source_sub_ids (catalog_row db r)) \<longleftrightarrow> (nr_id r, s) \<in> set (db_node_sources db)"
proof -
  have "of_int t = (of_int s :: u16) \<longleftrightarrow> t = s" if "(n, t) \<in> set (db_node_sources db)" for n t
    using that assms(2,4,5) by (metis loadable_def uint_of_int_u16)
  then show ?thesis
    by (auto simp: catalog_row_def Let_def ordered_sources_def image_iff) (metis fst_conv snd_conv)+
qed

lemma catalog_small:
  assumes "db_ok db" and "loadable db"
  shows "length (catalog_rows db) \<le> 2 ^ 32"
proof -
  have "distinct (map (of_int :: int \<Rightarrow> u32) (map nr_id (db_nodes db)))"
    by (rule distinct_u32_ids) (use assms in \<open>auto simp: db_ok_def loadable_def\<close>)
  moreover have "card (set xs) \<le> card (UNIV :: u32 set)" for xs :: "u32 list" by (rule card_mono) simp_all
  ultimately have "length (db_nodes db) \<le> card (UNIV :: u32 set)" by (metis distinct_card length_map)
  then show ?thesis by (simp add: catalog_rows_def card_word)
qed

text \<open>The hashes of the nodes at the positions a query returned.\<close>

definition shown_hashes :: "database \<Rightarrow> dense_node_store \<Rightarrow> u32 list \<Rightarrow> canonical_hash set" where
  "shown_hashes db st ixs =
     {nr_hash r | r. r \<in> set (db_nodes db) \<and> of_int (nr_id r) \<in> (\<lambda>i. ds_node_ids st ! unat i) ` set ixs}"

lemma nth_image_Collect:
  "(\<lambda>i. map f xs ! i) ` {i. i < length xs \<and> P (xs ! i)} = f ` {x \<in> set xs. P x}"
  by (force simp: in_set_conv_nth image_iff)

lemma query_subscription_hashes:
  assumes "db_ok db" and "loadable db" and "store_rep uni st (catalog_rows db)"
  shows "\<exists>ixs. query uni st [] None (Some sub) sc = Some ixs \<and> shown_hashes db st ixs = linked_hashes db (uint sub)"
proof -
  let ?rows = "catalog_rows db" and ?rs = "sort_key nr_id (db_nodes db)"
  have nil: "row_matches_spec uni [] None (Some sub) r \<longleftrightarrow> sub \<in> set (hr_source_sub_ids r)" for r
    by (simp add: row_matches_spec_def to_lowercase_def is_ascii_def to_ascii_lowercase_def)
  obtain ixs where q: "query uni st [] None (Some sub) sc = Some ixs"
    and ix: "unat ` set ixs = {i. i < length ?rows \<and> sub \<in> set (hr_source_sub_ids (?rows ! i))}"
    using query_rows[OF assms(3) catalog_small[OF assms(1,2)], of "[]" None "Some sub" sc] unfolding nil by blast
  have ids: "ds_node_ids st = map (\<lambda>r. of_int (nr_id r)) ?rs"
    using assms(3) by (simp add: store_rep_def columns_rep_def catalog_rows_def catalog_row_def Let_def)
  have sub: "uint sub < 2 ^ 16" using uint_bounded[of sub] by simp
  have row_iff: "sub \<in> set (hr_source_sub_ids (catalog_row db r)) \<longleftrightarrow> (nr_id r, uint sub) \<in> set (db_node_sources db)"
    if "r \<in> set (db_nodes db)" for r
    using catalog_source_iff[OF assms(1,2) that, of "uint sub"] sub by simp
  have inj: "r = r'" if "r \<in> set (db_nodes db)" "r' \<in> set (db_nodes db)" "(of_int (nr_id r) :: u32) = of_int (nr_id r')" for r r'
  proof -
    have "nr_id r = nr_id r'" using assms(2) that by (metis loadable_def uint_of_int_u32)
    with assms(1) that show ?thesis by (simp add: db_ok_def distinct_map inj_on_def)
  qed
  have "(\<lambda>i. ds_node_ids st ! unat i) ` set ixs
      = (\<lambda>i. ds_node_ids st ! i) ` {i. i < length ?rows \<and> sub \<in> set (hr_source_sub_ids (?rows ! i))}"
    unfolding ix[symmetric] by (simp add: image_image)
  also have "\<dots> = (\<lambda>r. of_int (nr_id r)) ` {r \<in> set (db_nodes db). (nr_id r, uint sub) \<in> set (db_node_sources db)}"
    (is "?L = ?R")
  proof -
    have "?L = (\<lambda>r. of_int (nr_id r)) ` {r \<in> set ?rs. sub \<in> set (hr_source_sub_ids (catalog_row db r))}"
    proof -
      have "{i. i < length ?rows \<and> sub \<in> set (hr_source_sub_ids (?rows ! i))}
          = {i. i < length ?rs \<and> sub \<in> set (hr_source_sub_ids (catalog_row db (?rs ! i)))}"
        by (auto simp: catalog_rows_def)
      then show ?thesis unfolding ids
        using nth_image_Collect[of "\<lambda>r. of_int (nr_id r)" ?rs
          "\<lambda>r. sub \<in> set (hr_source_sub_ids (catalog_row db r))"] by (simp only:)
    qed
    also have "\<dots> = ?R" using row_iff by auto
    finally show ?thesis .
  qed
  finally have "shown_hashes db st ixs = linked_hashes db (uint sub)"
    unfolding shown_hashes_def linked_hashes_def using inj by blast
  with q show ?thesis by blast
qed

text \<open>
  Claim C27.  What was imported is what is listed: after a refresh of a subscription the catalog
  loaded from the database, filtered by that subscription and sorted by any criterion, shows
  exactly the nodes the parser reported for the payload.
\<close>

theorem imported_nodes_are_listed:
  assumes "refresh pe sq rc raw allow_empty c = (Inr rf, c')" and "db_ok (co_db c)" and "fresh_rowids sq"
    and "loadable (co_db c')"
  shows "\<exists>st ixs. hydrate uni (co_db c') = Inr st \<and> query uni st [] None (Some (rc_id rc)) sc = Some ixs \<and>
     shown_hashes (co_db c') st ixs
       = cn_hash ` set (ir_successful_nodes (ingest_with_timestamp pe raw (rc_id rc) (rc_last_updated rc)))"
proof -
  let ?report = "ingest_with_timestamp pe raw (rc_id rc) (rc_last_updated rc)"
  obtain res where "sync_subscription sq (pe_codec pe) rc ?report allow_empty c = (Inr res, c')"
    using assms(1) by (auto simp: refresh_def Let_def)
  from sync_subscription_Ok[OF this assms(2,3)] have s: "db_ok (co_db c')"
    "linked_hashes (co_db c') (uint (rc_id rc)) = cn_hash ` set (ir_successful_nodes ?report)"
    by (simp_all add: synced_def)
  obtain st where st: "hydrate uni (co_db c') = Inr st" using hydrate_runs[OF s(1) assms(4)] by blast
  have "store_rep uni st (catalog_rows (co_db c'))"
    by (rule hydrate_rep[OF st s(1)]) (use assms(4) in \<open>simp add: loadable_def\<close>)
  from query_subscription_hashes[OF s(1) assms(4) this, of "rc_id rc" sc] st s(2) show ?thesis by auto
qed

definition link_node :: canonical_node where
  "link_node = sample_link_node\<lparr>cn_meta := (cn_meta sample_link_node)\<lparr>nm_sub_id := 4, nm_import_timestamp := 1\<rparr>\<rparr>"

lemma link_node_parsed: "parse_entry link_env e 4 1 = Ok link_node"
proof -
  have ip: "parse_ip ''node.com'' = None"
    by (rule parse_ip_not_hex) (simp_all add: to_digit_def is_ascii_digit_def is_ascii_lowercase_def)
  show ?thesis
    by (simp add: parse_entry_def link_env_def sample_parse_env_def sample_url_def parse_vless_def parse_uuid_def
        endpoint_def endpoint_from_host_def ip EndpointTarget_domain_def sample_host_id
        parse_transport_def parse_security_def parse_flow_def query_get_def label_def filter_opt_def
        make_metadata_total sample_label_country build_node_def try_new_def sample_codec_def link_node_def
        sample_link_node_def sample_node_def sample_ser_def CANONICAL_HASH_VERSION_def)
qed

lemma link_report: "ir_successful_nodes (ingest_with_timestamp link_env ''ss://x'' 4 1) = [link_node]"
proof -
  have "ir_successful_nodes (ingest_with_timestamp link_env ''ss://x'' 4 1) =
     fresh_nodes {} (List.map_filter (\<lambda>(lno, entry). ok (parse_entry link_env entry 4 1))
       (take MAX_ENTRIES (collect_entries ''ss://x'')))"
    by (rule link_bundle_nodes) (use sample_payload in simp_all)
  then show ?thesis using sample_payload by (simp add: map_filter_simps link_node_parsed MAX_ENTRIES_def)
qed

lemma link_refresh:
  "\<exists>rf c'. refresh link_env quiet_sqlite sample_record ''ss://x'' False sample_connection = (Inr rf, c') \<and>
     loadable (co_db c')"
proof -
  have country: "country_text link_node = ''UN''" "sql_length ''UN'' = 2"
    by (simp_all add: country_text_def Let_def link_node_def sample_link_node_def next_piece_ascii
        sql_length_def cont_byte_def)
  have hash: "length (cn_hash link_node) = 32"
    by (simp add: link_node_def sample_link_node_def sample_node_def sample_codec_def)
  have kind: "node_kind link_node = 0"
    by (simp add: node_kind_def link_node_def sample_link_node_def)
  have codec: "pe_codec link_env = sample_codec" by (simp add: link_env_def sample_parse_env_def)
  show ?thesis
    by (simp add: refresh_def Let_def sync_subscription_def link_report codec sample_record_def transaction_def
        sync_body_def upsert_subscription_def record_row_def to_sql_u64_def ensure_nodes_def store_node_def
        sql_bind_def sql_call_def sql_tick_def sql_return_def sql_lift_def quiet_sqlite_def put_subscription_def
        sample_connection_def empty_database_def sample_codec_def insert_node_def country hash kind find_node_def
        insert_diagnostics_def delete_sources_def insert_source_def delete_orphans_def has_link_def loadable_def)
qed

theorem imported_nodes_are_listed_witness:
  "\<exists>(c' :: connection) st ixs. hydrate id (co_db c') = Inr st \<and> query id st [] None (Some 4) LatencyAsc = Some ixs \<and>
     shown_hashes (co_db c') st ixs = {cn_hash link_node}"
proof -
  obtain rf c' where run: "refresh link_env quiet_sqlite sample_record ''ss://x'' False sample_connection = (Inr rf, c')"
    and load: "loadable (co_db c')" using link_refresh by blast
  have "db_ok (co_db sample_connection)" by (simp add: sample_connection_def db_ok_empty)
  from imported_nodes_are_listed[OF run this quiet_fresh load, of id LatencyAsc]
  have "\<exists>st ixs. hydrate id (co_db c') = Inr st \<and> query id st [] None (Some 4) LatencyAsc = Some ixs \<and>
     shown_hashes (co_db c') st ixs = {cn_hash link_node}" by (simp add: sample_record_def link_report)
  then show ?thesis by (rule exI[of _ c'])
qed

theorem hydrate_refines_tables_witness:
  "\<exists>db st. db_nodes db \<noteq> [] \<and> hydrate id db = Inr st \<and> store_rep id st (catalog_rows db)"
proof -
  let ?db = "co_db legacy_connection"
  have "db_ok ?db" "loadable ?db" "db_nodes ?db \<noteq> []"
    by (simp_all add: legacy_connection_def empty_database_def db_ok_def loadable_def sql_length_def cont_byte_def)
  with hydrate_refines_tables[of ?db id] show ?thesis by blast
qed

end
