(* ===== verification/Session.thy ===== *)
theory Session
  imports Controller Hydrate
begin

text \<open>
  A controller together with its database, \<open>crates/controller/src/proxy_controller.rs\<close>: opening both, the getters, and the
  calls that read or write the tables.  The controller of \<^theory_text>\<open>Controller\<close> has the rows of the node table as a field; here they
  are what the query of \<open>load_probe_targets\<close> returns on the connection of \<^theory_text>\<open>Repository\<close>.  Shown of every run of imports,
  switches and watchdog cycles: every stored payload can be read back, the candidates of a cycle are the nodes of
  the table, and the watchdog never makes a node active that is not among them.
\<close>

section \<open>Opening\<close>

record session =
  se_ctl :: proxy_controller
  se_db :: connection

definition session_open ::
    "ctl_env \<Rightarrow> sqlite \<Rightarrow> codec \<Rightarrow> (string \<Rightarrow> nat \<Rightarrow> netd_stream res \<times> call_env) \<Rightarrow> database option \<Rightarrow> core_world \<Rightarrow> string \<Rightarrow> string \<Rightarrow>
      proxy_settings \<Rightarrow> session res" where
  "session_open env sq cd conns stored core binary config_path settings =
     (case open_database sq cd stored of
        (Inl e, db) \<Rightarrow> Err e
      | (Inr _, db) \<Rightarrow> Ok \<lparr>se_ctl = controller_open env conns (Ok []) core binary config_path settings, se_db = db\<rparr>)"

definition open_memory :: "sqlite \<Rightarrow> codec \<Rightarrow> string option \<Rightarrow> core_world \<Rightarrow> string \<Rightarrow> string \<Rightarrow> session res" where
  "open_memory sq cd route core binary config_path =
     (case open_memory_database sq cd of
        (Inl e, db) \<Rightarrow> Err e
      | (Inr _, db) \<Rightarrow>
          Ok \<lparr>se_ctl = \<lparr>pr_supervisor = Supervisor_new binary config_path, pr_core = core, pr_netd = None,
               pr_settings = ProxySettings_default route, pr_active_node = None, pr_last_auto_switch = None,
               pr_last_manual_switch = None, pr_degraded = False, pr_rows = Ok [], pr_tick = 0\<rparr>, se_db = db\<rparr>)"

definition get_settings :: "session \<Rightarrow> proxy_settings" where "get_settings se = pr_settings (se_ctl se)"
definition get_active_node :: "session \<Rightarrow> canonical_node option" where "get_active_node se = pr_active_node (se_ctl se)"
definition is_degraded :: "session \<Rightarrow> bool" where "is_degraded se = pr_degraded (se_ctl se)"
definition last_manual_switch :: "session \<Rightarrow> instant option" where "last_manual_switch se = pr_last_manual_switch (se_ctl se)"
definition last_auto_switch :: "session \<Rightarrow> instant option" where "last_auto_switch se = pr_last_auto_switch (se_ctl se)"

text \<open>
  \<open>start_netd_heartbeat\<close>: a thread, when the daemon was reached at the opening.  The thread shares the controller's client;
  a round of it is \<^const>\<open>heartbeat_round\<close>.
\<close>

definition start_netd_heartbeat ::
    "bincode \<Rightarrow> (string \<Rightarrow> nat \<Rightarrow> netd_stream res \<times> call_env) \<Rightarrow> session \<Rightarrow> (call_env \<Rightarrow> netd_client \<Rightarrow> netd_client) option" where
  "start_netd_heartbeat bc conns se = map_option (\<lambda>_. \<lambda>call. heartbeat_round bc call conns) (pr_netd (se_ctl se))"

section \<open>Calls that touch the tables\<close>

definition text_of :: "bytes \<Rightarrow> string" where
  "text_of bs = map (\<lambda>b. char_of (unat b)) bs"

definition query_payloads :: "sqlite \<Rightarrow> (int \<times> bytes) list sql" where
  "query_payloads sq = sql_call sq (\<lambda>db. Ok (map (\<lambda>r. (nr_id r, nr_raw_payload r)) (db_nodes db), db))"

text \<open>The controller with the rows the connection holds.\<close>

definition attach :: "sqlite \<Rightarrow> session \<Rightarrow> proxy_controller" where
  "attach sq se = (se_ctl se)\<lparr>pr_rows := try_then (fst (query_payloads sq (se_db se)))
     (\<lambda>rows. Ok (map (\<lambda>(node_id, payload). (node_id, text_of payload)) rows))\<rparr>"

definition session_targets :: "ctl_env \<Rightarrow> sqlite \<Rightarrow> session \<Rightarrow> (u32 \<times> canonical_node) list res" where
  "session_targets env sq se = load_probe_targets env (attach sq se)"

definition session_import ::
    "parse_env \<Rightarrow> sqlite \<Rightarrow> string \<Rightarrow> u64 \<Rightarrow> string \<Rightarrow> string \<Rightarrow> string \<Rightarrow> session \<Rightarrow> subscription_refresh res \<times> session" where
  "session_import pe sq new_uuid now raw name url se =
     (case import_subscription pe sq new_uuid now raw name url (se_db se) of (r, db) \<Rightarrow> (r, se\<lparr>se_db := db\<rparr>))"

text \<open>A cycle of the watchdog loads the rows once or not at all.\<close>

definition session_cycle ::
    "ctl_env \<Rightarrow> sqlite \<Rightarrow> failover_config \<Rightarrow> failover_status \<Rightarrow> session \<Rightarrow> failover_action res \<times> failover_status \<times> session" where
  "session_cycle env sq config status se =
     (case run_failover_cycle (real_controller env) config (real_hooks env) status (attach sq se) of
        (r, status, c) \<Rightarrow> (r, status, \<lparr>se_ctl = c, se_db = snd (query_payloads sq (se_db se))\<rparr>))"

section \<open>Stored payloads can be read back\<close>

definition payload_ok :: "codec \<Rightarrow> node_row \<Rightarrow> bool" where
  "payload_ok cd r \<longleftrightarrow> (\<exists>n. decode_node_payload cd (nr_raw_payload r) = Ok n \<and> cn_hash n = nr_hash r)"

definition payloads_ok :: "codec \<Rightarrow> database \<Rightarrow> bool" where
  "payloads_ok cd db \<longleftrightarrow> (\<forall>r \<in> set (db_nodes db). payload_ok cd r)"

text \<open>The serializer can be undone.\<close>

definition codec_undoes :: "codec \<Rightarrow> bool" where
  "codec_undoes cd \<longleftrightarrow> (\<forall>n bs. ser_node cd n = Ok bs \<longrightarrow> de_node cd bs = Ok n)"

lemma wf_payload_ok:
  assumes "codec_undoes cd" "wf_node cd n" "ser_node cd n = Ok (nr_raw_payload r)" "nr_hash r = cn_hash n"
  shows "payload_ok cd r"
  using assms by (auto simp: payload_ok_def codec_undoes_def wf_node_def decode_node_payload_def node_hash_def)

lemma statement_rows:
  "insert_node sq h name country kind payload db = Inr (k, db') \<Longrightarrow> r \<in> set (db_nodes db') \<Longrightarrow>
     r \<in> set (db_nodes db) \<or> nr_raw_payload r = payload \<and> nr_hash r = h"
  "find_node h db = Inr (i, db') \<Longrightarrow> db_nodes db' = db_nodes db"
  "insert_diagnostics i db = Inr (u, db') \<Longrightarrow> db_nodes db' = db_nodes db"
  "insert_source i sub db = Inr (u, db') \<Longrightarrow> db_nodes db' = db_nodes db"
  "put_subscription row db = Inr (u, db') \<Longrightarrow> db_nodes db' = db_nodes db"
  "delete_sources sub db = Inr (u, db') \<Longrightarrow> db_nodes db' = db_nodes db"
  "delete_orphans db = Inr (m, db') \<Longrightarrow> set (db_nodes db') \<subseteq> set (db_nodes db)"
  by (auto simp: insert_node_def find_node_def insert_diagnostics_def insert_source_def put_subscription_def
      delete_sources_def delete_orphans_def split: if_splits option.splits)

text \<open>Where the rows come from: each was there, or holds the serialized form of a node that was given.\<close>

definition rows_from :: "codec \<Rightarrow> canonical_node set \<Rightarrow> database \<Rightarrow> database \<Rightarrow> bool" where
  "rows_from cd nodes db db' \<longleftrightarrow> (\<forall>r \<in> set (db_nodes db'). r \<in> set (db_nodes db) \<or>
     (\<exists>n \<in> nodes. ser_node cd n = Ok (nr_raw_payload r) \<and> nr_hash r = cn_hash n))"

lemma rows_from_refl: "rows_from cd nodes db db"
  by (simp add: rows_from_def)

lemma rows_from_subset: "set (db_nodes db') \<subseteq> set (db_nodes db) \<Longrightarrow> rows_from cd nodes db db'"
  by (auto simp: rows_from_def)

lemma rows_from_trans: "rows_from cd nodes db db' \<Longrightarrow> rows_from cd nodes db' db'' \<Longrightarrow> rows_from cd nodes db db''"
  unfolding rows_from_def by blast

lemma rows_from_mono: "rows_from cd nodes db db' \<Longrightarrow> nodes \<subseteq> nodes' \<Longrightarrow> rows_from cd nodes' db db'"
  unfolding rows_from_def by blast

lemma store_node_rows:
  assumes "store_node sq cd node c = (Inr p, c')"
  shows "rows_from cd {node} (co_db c) (co_db c')"
proof -
  obtain payload k c1 i where ser: "ser_node cd node = Ok payload"
    and ins: "sql_call sq (insert_node sq (cn_hash node) (nm_label (cn_meta node)) (country_text node) (node_kind node) payload) c = (Inr k, c1)"
    and fnd: "sql_call sq (find_node (cn_hash node)) c1 = (Inr i, c')"
    using assms by (auto simp: store_node_def)
  show ?thesis
    using statement_rows(1)[OF sql_call_db[OF ins]] statement_rows(2)[OF sql_call_db[OF fnd]] ser
    by (auto simp: rows_from_def)
qed

lemma ensure_loop_rows:
  "ensure_loop sq cd seen nodes c = (Inr p, c') \<Longrightarrow> rows_from cd (set nodes) (co_db c) (co_db c')"
proof (induction nodes arbitrary: seen c p)
  case Nil
  then show ?case by (simp add: rows_from_refl)
next
  case (Cons node nodes)
  show ?case
  proof (cases "cn_hash node \<in> seen")
    case True
    with Cons.prems Cons.IH[of seen c p] show ?thesis by (auto intro: rows_from_mono)
  next
    case False
    obtain q c1 u c2 p' where st: "store_node sq cd node c = (Inr q, c1)"
      and di: "sql_call sq (insert_diagnostics (snd q)) c1 = (Inr u, c2)"
      and lo: "ensure_loop sq cd (insert (cn_hash node) seen) nodes c2 = (Inr p', c')"
      using Cons.prems False by (auto split: prod.splits)
    have "rows_from cd {node} (co_db c1) (co_db c2)"
      using statement_rows(3)[OF sql_call_db[OF di]] by (simp add: rows_from_def)
    with store_node_rows[OF st] have "rows_from cd {node} (co_db c) (co_db c2)" by (rule rows_from_trans)
    then have "rows_from cd (set (node # nodes)) (co_db c) (co_db c2)" by (rule rows_from_mono) simp
    moreover have "rows_from cd (set (node # nodes)) (co_db c2) (co_db c')"
      using Cons.IH[OF lo] by (rule rows_from_mono) auto
    ultimately show ?thesis by (rule rows_from_trans)
  qed
qed

lemma link_nodes_rows: "link_nodes sq sub ids c = (Inr u, c') \<Longrightarrow> db_nodes (co_db c') = db_nodes (co_db c)"
  by (induction ids arbitrary: c) (auto dest!: sql_call_db statement_rows(4))

lemma sync_body_rows:
  assumes "sync_body sq cd rc report c = (Inr res, c')"
  shows "rows_from cd (set (ir_successful_nodes report)) (co_db c) (co_db c')"
proof -
  let ?S = "uint (rc_id rc)" and ?nodes = "ir_successful_nodes report"
  obtain u c1 k ids c2 v c3 w c4 x c5 removed row where
    up: "sql_call sq (put_subscription row) c = (Inr u, c1)" and en: "ensure_nodes sq cd ?nodes c1 = (Inr (k, ids), c2)"
    and de: "sql_call sq (delete_sources ?S) c2 = (Inr v, c3)" and ti: "sql_tick sq c3 = (Inr w, c4)"
    and li: "link_nodes sq ?S ids c4 = (Inr x, c5)" and orp: "sql_call sq delete_orphans c5 = (Inr removed, c')"
    using assms by (auto simp: sync_body_def upsert_subscription_def split: prod.splits)
  obtain c0 where c0: "co_db c0 = co_db c1" "ensure_loop sq cd {} ?nodes c0 = (Inr (k, ids), c2)"
    using en by (auto simp: ensure_nodes_def) (metis sql_tick_Ok)
  have before: "db_nodes (co_db c1) = db_nodes (co_db c)"
    by (rule statement_rows(5)[OF sql_call_db[OF up]])
  have "db_nodes (co_db c5) = db_nodes (co_db c2)"
    using statement_rows(6)[OF sql_call_db[OF de]] sql_tick_Ok[OF ti] link_nodes_rows[OF li] by simp
  then have "set (db_nodes (co_db c')) \<subseteq> set (db_nodes (co_db c2))"
    using statement_rows(7)[OF sql_call_db[OF orp]] by simp
  then show ?thesis using ensure_loop_rows[OF c0(2)] before c0(1) by (auto simp: rows_from_def)
qed

text \<open>A row whose hash the table had before is the row it had before: what is stored first stays.\<close>

lemma sync_body_old_rows:
  assumes "sync_body sq cd rc report c = (Inr res, c')" and "db_ok (co_db c)" and "fresh_rowids sq"
    and r: "r \<in> set (db_nodes (co_db c'))" "nr_hash r \<in> nr_hash ` set (db_nodes (co_db c))"
  shows "r \<in> set (db_nodes (co_db c))"
proof -
  let ?S = "uint (rc_id rc)" and ?nodes = "ir_successful_nodes report"
  obtain u c1 k ids c2 v c3 w c4 x c5 removed row where
    up: "sql_call sq (put_subscription row) c = (Inr u, c1)" and en: "ensure_nodes sq cd ?nodes c1 = (Inr (k, ids), c2)"
    and de: "sql_call sq (delete_sources ?S) c2 = (Inr v, c3)" and ti: "sql_tick sq c3 = (Inr w, c4)"
    and li: "link_nodes sq ?S ids c4 = (Inr x, c5)" and orp: "sql_call sq delete_orphans c5 = (Inr removed, c')"
    using assms(1) by (auto simp: sync_body_def upsert_subscription_def split: prod.splits)
  have before: "db_nodes (co_db c1) = db_nodes (co_db c)" by (rule statement_rows(5)[OF sql_call_db[OF up]])
  have "db_ok (co_db c1)" using put_subscription_ok[OF assms(2) sql_call_db[OF up]] by simp
  from ensure_nodes_ok[OF en this assms(3)] obtain rows diag where
    c2: "co_db c2 = (co_db c1)\<lparr>db_nodes := db_nodes (co_db c1) @ rows, db_diagnostics := diag\<rparr>"
    and added: "set (map nr_hash rows) = cn_hash ` set ?nodes - nr_hash ` set (db_nodes (co_db c1))" by blast
  have "nr_hash q \<notin> nr_hash ` set (db_nodes (co_db c))" if "q \<in> set rows" for q
    using that added before by (metis DiffD2 image_eqI set_map)
  moreover have "db_nodes (co_db c5) = db_nodes (co_db c2)"
    using statement_rows(6)[OF sql_call_db[OF de]] sql_tick_Ok[OF ti] link_nodes_rows[OF li] by simp
  then have "r \<in> set (db_nodes (co_db c2))" using statement_rows(7)[OF sql_call_db[OF orp]] r(1) by auto
  ultimately show ?thesis using r(2) by (auto simp: c2 before)
qed

lemma sync_keeps_payloads:
  assumes "sync_subscription sq cd rc report allow_empty c = (r, c')" and "payloads_ok cd (co_db c)" and "codec_undoes cd"
    and "\<forall>n \<in> set (ir_successful_nodes report). wf_node cd n"
  shows "payloads_ok cd (co_db c')"
proof (cases "ir_successful_nodes report = [] \<and> \<not> allow_empty")
  case True
  with assms(1,2) show ?thesis by (auto simp: sync_subscription_def sql_raise_def)
next
  case False
  then have tr: "transaction sq (sync_body sq cd rc report) c = (r, c')"
    using assms(1) by (auto simp: sync_subscription_def)
  show ?thesis
  proof (cases r)
    case (Inl e)
    with tr assms(2) transaction_Err show ?thesis by metis
  next
    case (Inr res)
    obtain c1 c2 where t: "co_db c1 = co_db c" "sync_body sq cd rc report c1 = (Inr res, c2)" "co_db c' = co_db c2"
      using transaction_Ok[of sq "sync_body sq cd rc report" c res c'] tr unfolding Inr by blast
    show ?thesis using sync_body_rows[OF t(2)] assms(2-4) unfolding payloads_ok_def t(1,3) rows_from_def
      by (blast intro: wf_payload_ok)
  qed
qed

lemma ingested_wf:
  "n \<in> set (ir_successful_nodes (ingest_with_timestamp pe raw sub ts)) \<Longrightarrow> wf_node (pe_codec pe) n"
  using ingest_report_ok[of pe sub ts raw] by (auto simp: report_ok_def imported_def)

text \<open>What an import leaves in the database, whether it succeeds or not.\<close>

definition catalog_good :: "codec \<Rightarrow> database \<Rightarrow> bool" where
  "catalog_good cd db \<longleftrightarrow> db_ok db \<and> payloads_ok cd db"

lemma refresh_keeps:
  assumes "refresh pe sq rc raw allow_empty c = (r, c')" and "catalog_good (pe_codec pe) (co_db c)" and "fresh_rowids sq"
    and "codec_undoes (pe_codec pe)"
  shows "catalog_good (pe_codec pe) (co_db c')"
proof -
  let ?report = "ingest_with_timestamp pe raw (rc_id rc) (rc_last_updated rc)"
  obtain r' where s: "sync_subscription sq (pe_codec pe) rc ?report allow_empty c = (r', c')"
    using assms(1) by (auto simp: refresh_def Let_def sql_bind_def sql_return_def split: prod.splits sum.splits)
  have "payloads_ok (pe_codec pe) (co_db c')"
    by (rule sync_keeps_payloads[OF s]) (use assms(2,4) ingested_wf in \<open>auto simp: catalog_good_def\<close>)
  moreover have "db_ok (co_db c')"
  proof (cases r')
    case (Inl e)
    have "co_db c' = co_db c"
    proof (cases "ir_successful_nodes ?report = [] \<and> \<not> allow_empty")
      case True
      with s show ?thesis by (auto simp: sync_subscription_def sql_raise_def)
    next
      case False
      with s Inl have "transaction sq (sync_body sq (pe_codec pe) rc ?report) c = (Inl e, c')"
        by (auto simp: sync_subscription_def)
      then show ?thesis by (rule transaction_Err)
    qed
    with assms(2) show ?thesis by (simp add: catalog_good_def)
  next
    case (Inr res)
    from sync_subscription_Ok[OF s[unfolded Inr]] assms(2,3) show ?thesis by (simp add: synced_def catalog_good_def)
  qed
  ultimately show ?thesis by (simp add: catalog_good_def)
qed

lemma sql_call_Err: "sql_call sq stmt c = (Inl e, c') \<Longrightarrow> co_db c' = co_db c"
  by (auto simp: sql_call_def Let_def split: option.splits sum.splits)

text \<open>An import is a refresh under the next free number, or nothing.\<close>

lemma import_cases:
  assumes "import_subscription pe sq new_uuid now raw name url c = (r, c')"
  obtains (nothing) e where "r = Inl e" "co_db c' = co_db c"
  | (refreshed) rc c1 r1 where "co_db c1 = co_db c" "refresh pe sq rc raw False c1 = (r1, c')" "\<And>rf. r = Inr rf \<Longrightarrow> r1 = Inr rf"
proof -
  let ?next = "\<lambda>db :: database. (if db_subscriptions db = [] then 0 else Max (sr_id ` set (db_subscriptions db))) + 1"
  let ?q = "sql_call sq (\<lambda>db. Ok (?next db, db)) c"
  obtain q c1 where q: "?q = (q, c1)" by (rule prod.exhaust)
  show ?thesis
  proof (cases q)
    case (Inl e)
    show ?thesis
      by (rule nothing[of e]) (use assms q Inl sql_call_Err in \<open>auto simp: import_subscription_def sql_bind_def\<close>)
  next
    case (Inr n)
    with sql_call_db[of sq "\<lambda>db. Ok (?next db, db)" c n c1] q have same: "co_db c1 = co_db c" by simp
    show ?thesis
    proof (cases "65535 < n")
      case True
      show ?thesis
        by (rule nothing) (use assms q Inr True same in \<open>auto simp: import_subscription_def sql_bind_def sql_raise_def\<close>)
    next
      case False
      let ?rc = "\<lparr>rc_id = of_int n, rc_uuid = new_uuid, rc_name = name, rc_url = url, rc_last_updated = now,
          rc_auto_update_interval = 86400, rc_etag = None\<rparr> :: subscription_record"
      obtain r1 c2 where rf: "refresh pe sq ?rc raw False c1 = (r1, c2)" by (rule prod.exhaust)
      have "sql_context ''import subscription'' (refresh pe sq ?rc raw False) c1 = (r, c')"
        using assms q Inr False by (simp add: import_subscription_def sql_bind_def)
      with rf have "c2 = c'" "\<And>x. r = Inr x \<Longrightarrow> r1 = Inr x"
        by (auto simp: sql_context_def split: sum.splits)
      with rf same show ?thesis by (intro refreshed[of c1 ?rc r1]) auto
    qed
  qed
qed

lemma import_keeps:
  assumes "import_subscription pe sq new_uuid now raw name url c = (r, c')" and "catalog_good (pe_codec pe) (co_db c)"
    and "fresh_rowids sq" and "codec_undoes (pe_codec pe)"
  shows "catalog_good (pe_codec pe) (co_db c')"
  using assms(1)
proof (cases rule: import_cases)
  case (refreshed rc c1 r1)
  with refresh_keeps[OF refreshed(2)] assms(2-4) show ?thesis by simp
qed (use assms(2) in simp)

lemma open_keeps:
  assumes "open_database sq cd stored = (Inr u, c)" and "catalog_good cd (unwrap_or empty_database stored)"
  shows "catalog_good cd (co_db c)"
proof -
  obtain c0 v where c0: "co_db c0 = unwrap_or empty_database stored" "ensure_protocol_kind_column sq cd c0 = (Inr v, c)"
    using assms(1) by (rule open_database_upgrades)
  with assms(2) have ok: "db_ok (co_db c0)" "payloads_ok cd (co_db c0)" by (simp_all add: catalog_good_def)
  have "payloads_ok cd (co_db c)"
  proof (cases "db_has_kind (co_db c0)")
    case True
    with upgrade_not_resumed[OF c0(2)] ok(2) show ?thesis by simp
  next
    case False
    have "payload_ok cd (kind_column cd r) = payload_ok cd r" for r by (simp add: payload_ok_def kind_column_def)
    with upgrade_fills[OF c0(2) ok(1) False] ok(2) show ?thesis by (auto simp: payloads_ok_def)
  qed
  moreover have "db_ok (co_db c)" using upgraded_has_kind[OF c0(2) ok(1)] by blast
  ultimately show ?thesis by (simp add: catalog_good_def)
qed

lemma open_memory_is_open: "open_memory_database sq cd = (Inr u, c) \<Longrightarrow> open_database sq cd None = (Inr u, c)"
  by (simp add: open_memory_database_def open_database_def)

section \<open>Runs of a session\<close>

text \<open>
  Every sequence of imports, switches to any node, stops, changes of the settings, watchdog cycles and exits of cores,
  from a database whose payloads can be read.
\<close>

inductive session_reachable :: "ctl_env \<Rightarrow> sqlite \<Rightarrow> parse_env \<Rightarrow> session \<Rightarrow> bool" for env sq pe where
  start_open: "session_open env sq (pe_codec pe) conns stored core binary path settings = Ok se \<Longrightarrow> cw_procs core = Map.empty \<Longrightarrow>
    catalog_good (pe_codec pe) (unwrap_or empty_database stored) \<Longrightarrow> session_reachable env sq pe se"
| start_memory: "open_memory sq (pe_codec pe) route core binary path = Ok se \<Longrightarrow> cw_procs core = Map.empty \<Longrightarrow>
    session_reachable env sq pe se"
| importing: "session_reachable env sq pe se \<Longrightarrow> session_import pe sq new_uuid now raw name url se = (r, se') \<Longrightarrow>
    session_reachable env sq pe se'"
| cycling: "session_reachable env sq pe se \<Longrightarrow> session_cycle env sq config status se = (r, status', se') \<Longrightarrow>
    session_reachable env sq pe se'"
| switching: "session_reachable env sq pe se \<Longrightarrow> switch_node env node automatic (se_ctl se) = (r, c') \<Longrightarrow>
    session_reachable env sq pe (se\<lparr>se_ctl := c'\<rparr>)"
| stopping: "session_reachable env sq pe se \<Longrightarrow> controller_stop env (se_ctl se) = (r, c') \<Longrightarrow>
    session_reachable env sq pe (se\<lparr>se_ctl := c'\<rparr>)"
| settling: "session_reachable env sq pe se \<Longrightarrow> session_reachable env sq pe (se\<lparr>se_ctl := set_settings ps (se_ctl se)\<rparr>)"
| noting: "session_reachable env sq pe se \<Longrightarrow> session_reachable env sq pe (se\<lparr>se_ctl := note_manual_switch env (se_ctl se)\<rparr>)"
| cores_read: "session_reachable env sq pe se \<Longrightarrow>
    session_reachable env sq pe (se\<lparr>se_ctl := (se_ctl se)\<lparr>pr_core := tick (ev_core env) (pr_core (se_ctl se))\<rparr>\<rparr>)"
| core_exits: "session_reachable env sq pe se \<Longrightarrow> cw_procs (pr_core (se_ctl se)) pid = Some p \<Longrightarrow>
    session_reachable env sq pe (se\<lparr>se_ctl := (se_ctl se)\<lparr>pr_core := (pr_core (se_ctl se))\<lparr>cw_procs :=
      (cw_procs (pr_core (se_ctl se)))(pid \<mapsto> p\<lparr>cp_alive := False\<rparr>)\<rparr>\<rparr>\<rparr>)"

lemma unreachable_daemon: "ok (NetdClient_new bc (\<lambda>p n. (Err ''down'', answered [])) path version) = None"
  by (simp add: NetdClient_new_def reconnect_def handshake_def numeral_3_eq_3)

lemma catalog_good_empty: "catalog_good cd empty_database"
  using db_ok_empty by (simp add: catalog_good_def payloads_ok_def) (simp add: empty_database_def)

lemma query_keeps_db: "co_db (snd (query_payloads sq c)) = co_db c"
  by (auto simp: query_payloads_def sql_call_def Let_def split: option.splits)

lemma session_reachable_good:
  assumes "session_reachable env sq pe se" and "fresh_rowids sq" and "codec_undoes (pe_codec pe)"
  shows "catalog_good (pe_codec pe) (co_db (se_db se)) \<and> ctl_reachable env (se_ctl se)"
  using assms(1)
proof induction
  case (start_open conns stored core binary path settings se)
  then obtain u db where "open_database sq (pe_codec pe) stored = (Inr u, db)"
    "se = \<lparr>se_ctl = controller_open env conns (Ok []) core binary path settings, se_db = db\<rparr>"
    by (auto simp: session_open_def split: prod.splits sum.splits)
  with start_open open_keeps show ?case by (auto intro: ctl_reachable.opened)
next
  case (start_memory route core binary path se)
  then obtain u db where o1: "open_memory_database sq (pe_codec pe) = (Inr u, db)"
    "se = \<lparr>se_ctl = controller_open env (\<lambda>p n. (Err ''down'', answered [])) (Ok []) core binary path (ProxySettings_default route), se_db = db\<rparr>"
    by (auto simp: open_memory_def controller_open_def unreachable_daemon split: prod.splits sum.splits)
  have "catalog_good (pe_codec pe) (co_db db)"
    by (rule open_keeps[OF open_memory_is_open[OF o1(1)]]) (simp add: catalog_good_empty)
  with start_memory(2) o1(2) show ?case by (auto intro: ctl_reachable.opened)
next
  case (importing se new_uuid now raw name url r se')
  obtain x db where i: "import_subscription pe sq new_uuid now raw name url (se_db se) = (x, db)" by (rule prod.exhaust)
  with importing have "se' = se\<lparr>se_db := db\<rparr>" by (simp add: session_import_def)
  with import_keeps[OF i _ assms(2,3)] importing.IH show ?case by simp
next
  case (cycling se config status r status' se')
  obtain x st c where run: "run_failover_cycle (real_controller env) config (real_hooks env) status (attach sq se) = (x, st, c)"
    by (rule prod_cases3)
  have "ctl_reachable env (attach sq se)" unfolding attach_def using cycling.IH by (blast intro: ctl_reachable.importing)
  with run have "ctl_reachable env c" by (blast intro: ctl_reachable.cycling)
  with run cycling show ?case by (auto simp: session_cycle_def query_keeps_db)
next
  case (core_exits se pid p)
  then show ?case by (auto intro: ctl_reachable.core_exits)
qed (auto intro: ctl_reachable.intros)

section \<open>The candidates are the table\<close>

text \<open>What the controller reads a payload with is \<open>decode_node_payload\<close>.\<close>

definition reads_payloads :: "ctl_env \<Rightarrow> codec \<Rightarrow> bool" where
  "reads_payloads env cd \<longleftrightarrow> (\<forall>bs. ev_decode env (text_of bs) = decode_node_payload cd bs)"

lemma attach_rows:
  "sq_fault sq (co_calls (se_db se)) = None \<Longrightarrow>
     pr_rows (attach sq se) = Ok (map (\<lambda>r. (nr_id r, text_of (nr_raw_payload r))) (db_nodes (co_db (se_db se))))"
  by (simp add: attach_def query_payloads_def sql_call_def Let_def comp_def)

lemma try_map_decode:
  assumes "reads_payloads env cd" and "list_all (payload_ok cd) rows"
  shows "\<exists>ts. try_map (decode_row env) (map (\<lambda>r. (nr_id r, text_of (nr_raw_payload r))) rows) = Ok ts \<and>
    map fst ts = map (\<lambda>r. of_int (nr_id r)) rows \<and> map (\<lambda>t. cn_hash (snd t)) ts = map nr_hash rows"
  using assms(2)
proof (induction rows)
  case (Cons r rows)
  then obtain n where "decode_node_payload cd (nr_raw_payload r) = Ok n" "cn_hash n = nr_hash r" by (auto simp: payload_ok_def)
  with assms(1) Cons show ?case by (auto simp: decode_row_def reads_payloads_def)
qed simp

lemma try_map_decoded:
  "try_map (decode_row env) rows = Ok ts \<Longrightarrow> t \<in> set ts \<Longrightarrow> \<exists>row \<in> set rows. ev_decode env (snd row) = Ok (snd t)"
  by (induction rows arbitrary: ts) (auto simp: decode_row_def split: sum.splits)

lemma targets_of_good:
  assumes "catalog_good cd (co_db (se_db se))" and "reads_payloads env cd" and "sq_fault sq (co_calls (se_db se)) = None"
  shows "\<exists>ts. session_targets env sq se = Ok ts \<and> map fst ts = map (\<lambda>r. of_int (nr_id r)) (db_nodes (co_db (se_db se))) \<and>
    map (\<lambda>t. cn_hash (snd t)) ts = map nr_hash (db_nodes (co_db (se_db se)))"
  using try_map_decode[OF assms(2), of "db_nodes (co_db (se_db se))"] assms(1)
  by (simp add: session_targets_def load_probe_targets_def attach_rows[OF assms(3)] catalog_good_def payloads_ok_def list_all_iff)

lemma try_map_decode_row:
  assumes "try_map (decode_row env) (map (\<lambda>r. (nr_id r, text_of (nr_raw_payload r))) rows) = Ok ts" and "reads_payloads env cd"
    and "r \<in> set rows" and "decode_node_payload cd (nr_raw_payload r) = Ok n"
  shows "(of_int (nr_id r), n) \<in> set ts"
  using assms(1,3,4)
proof (induction rows arbitrary: ts)
  case (Cons q rows)
  then obtain t us where t: "decode_row env (nr_id q, text_of (nr_raw_payload q)) = Ok t" "ts = t # us"
    "try_map (decode_row env) (map (\<lambda>r. (nr_id r, text_of (nr_raw_payload r))) rows) = Ok us" by auto
  show ?case
  proof (cases "r = q")
    case True
    with t(1,2) Cons.prems(3) assms(2) show ?thesis by (simp add: decode_row_def reads_payloads_def)
  next
    case False
    with Cons.IH[OF t(3)] Cons.prems(2,3) t(2) show ?thesis by simp
  qed
qed simp

text \<open>What a row decodes to is the candidate of that row.\<close>

lemma targets_of_row:
  assumes "session_targets env sq se = Ok ts" and "reads_payloads env cd" and "sq_fault sq (co_calls (se_db se)) = None"
    and "r \<in> set (db_nodes (co_db (se_db se)))" and "decode_node_payload cd (nr_raw_payload r) = Ok n"
  shows "(of_int (nr_id r), n) \<in> set ts"
  by (rule try_map_decode_row[OF _ assms(2,4,5)])
    (use assms(1) in \<open>simp add: session_targets_def load_probe_targets_def attach_rows[OF assms(3)]\<close>)

text \<open>
  What an import makes of one of its nodes: a node whose hash is new is stored as it is; of one whose hash was
  there the old row stays.
\<close>

lemma imported_row:
  assumes i: "import_subscription pe sq new_uuid now raw name url c = (Ok rf, c')" and good: "catalog_good (pe_codec pe) (co_db c)"
    and fresh: "fresh_rowids sq" and undo: "codec_undoes (pe_codec pe)" and n: "n \<in> set (ir_successful_nodes (rf_report rf))"
  shows "\<exists>r \<in> set (db_nodes (co_db c')). nr_hash r = cn_hash n \<and>
    (if cn_hash n \<in> nr_hash ` set (db_nodes (co_db c)) then r \<in> set (db_nodes (co_db c))
     else decode_node_payload (pe_codec pe) (nr_raw_payload r) = Ok n)"
  using i
proof (cases rule: import_cases)
  case (refreshed rc c1 r1)
  then have "refresh pe sq rc raw False c1 = (Inr rf, c')" by simp
  then obtain res where s: "sync_subscription sq (pe_codec pe) rc (rf_report rf) False c1 = (Inr res, c')"
    and rep: "rf_report rf = ingest_with_timestamp pe raw (rc_id rc) (rc_last_updated rc)" by (auto simp: refresh_def Let_def)
  have ok: "db_ok (co_db c1)" using good refreshed(1) by (simp add: catalog_good_def)
  have "transaction sq (sync_body sq (pe_codec pe) rc (rf_report rf)) c1 = (Inr res, c')"
    using s by (auto simp: sync_subscription_def split: if_splits)
  then obtain c2 c3 where t: "co_db c2 = co_db c1" "sync_body sq (pe_codec pe) rc (rf_report rf) c2 = (Inr res, c3)" "co_db c' = co_db c3"
    using transaction_Ok[of sq "sync_body sq (pe_codec pe) rc (rf_report rf)" c1 res c'] by blast
  have c2: "co_db c2 = co_db c" using t(1) refreshed(1) by simp
  have "cn_hash n \<in> linked_hashes (co_db c') (uint (rc_id rc))"
    using sync_subscription_Ok[OF s ok fresh] n by (simp add: synced_def)
  then obtain r where r: "r \<in> set (db_nodes (co_db c'))" "nr_hash r = cn_hash n" by (auto simp: linked_hashes_def)
  show ?thesis
  proof (cases "cn_hash n \<in> nr_hash ` set (db_nodes (co_db c))")
    case True
    have "r \<in> set (db_nodes (co_db c))"
      using sync_body_old_rows[OF t(2) _ fresh, of r] ok True r t c2 refreshed(1) by simp
    with r True show ?thesis by auto
  next
    case False
    with r have "r \<notin> set (db_nodes (co_db c2))" unfolding c2 by (metis imageI)
    with sync_body_rows[OF t(2)] r(1) t(3) obtain m where m: "m \<in> set (ir_successful_nodes (rf_report rf))"
      "ser_node (pe_codec pe) m = Ok (nr_raw_payload r)" "nr_hash r = cn_hash m" unfolding rows_from_def by auto
    have "distinct (map cn_hash (ir_successful_nodes (rf_report rf)))"
      using ingest_report_ok[of pe "rc_id rc" "rc_last_updated rc" raw] unfolding rep by (auto simp: report_ok_def)
    with m(1,3) n r(2) have "m = n" by (simp add: distinct_map inj_on_def)
    have "wf_node (pe_codec pe) n" using n unfolding rep by (rule ingested_wf)
    with m(2) undo have "decode_node_payload (pe_codec pe) (nr_raw_payload r) = Ok n" unfolding \<open>m = n\<close>
      by (auto simp: codec_undoes_def wf_node_def decode_node_payload_def node_hash_def)
    with r False show ?thesis by auto
  qed
qed simp

text \<open>The two models of \<open>load_probe_targets\<close> agree: the rows of the controller are the rows of the repository.\<close>

lemma session_targets_repository:
  assumes "reads_payloads env cd"
  shows "session_targets env sq se = Ok ts \<longleftrightarrow> fst (load_targets cd sq (se_db se)) = Ok ts"
proof -
  let ?f = "\<lambda>(node_id, payload). try_then (map_err (\<lambda>e. ''corrupt node payload for id '' @ show_nat (unat (of_int node_id :: u32)) @ '': '' @ e)
      (decode_node_payload cd payload)) (\<lambda>node. Ok (of_int node_id, node))"
  have row: "decode_row env (i, text_of p) = Ok t \<longleftrightarrow> ?f (i, p) = Ok t" for i p t
    using assms by (cases "decode_node_payload cd p") (auto simp: decode_row_def reads_payloads_def)
  have "try_map (decode_row env) (map (\<lambda>(i, p). (i, text_of p)) rows) = Ok ts \<longleftrightarrow> try_map ?f rows = Ok ts" for rows ts
    by (induction rows arbitrary: ts) (auto simp: row simp del: split_paired_Ex)
  then show ?thesis
    by (cases "fst (query_payloads sq (se_db se))")
      (auto simp: session_targets_def load_probe_targets_def attach_def load_targets_def query_payloads_def sql_bind_def sql_lift_def
        split: prod.splits sum.splits)
qed

section \<open>The watchdog stays in the catalog\<close>

definition in_rows :: "ctl_env \<Rightarrow> (int \<times> string) list res \<Rightarrow> canonical_node \<Rightarrow> bool" where
  "in_rows env rows n \<longleftrightarrow> (\<exists>rs. rows = Ok rs \<and> (\<exists>row \<in> set rs. ev_decode env (snd row) = Ok n))"

definition from_rows :: "ctl_env \<Rightarrow> (int \<times> string) list res \<Rightarrow> canonical_node set \<Rightarrow> proxy_controller \<Rightarrow> bool" where
  "from_rows env rows others c \<longleftrightarrow> pr_rows c = rows \<and>
     (\<forall>n. pr_active_node c = Some n \<longrightarrow> n \<in> others \<or> in_rows env rows n)"

lemma switch_node_rows:
  assumes "switch_node env node automatic c = (r, c')"
  shows "pr_rows c' = pr_rows c \<and> (pr_active_node c' = pr_active_node c \<or> pr_active_node c' = Some node)"
  using assms by (cases rule: switch_node_cases) simp_all

lemma tear_down_rows: "pr_rows (snd (tear_down env c)) = pr_rows c \<and> pr_active_node (snd (tear_down env c)) = None"
  by (auto simp: tear_down_def Let_def split: option.splits prod.splits)

interpretation catalog_bound: choosing_hooks "real_hooks env" "from_rows env rows others" "real_controller env" for env rows others
proof unfold_locales
  fix w w0 ts node automatic
  assume w: "from_rows env rows others w" and w0: "from_rows env rows others w0"
    and load: "ct_load_probe_targets (real_controller env) w0 = Ok ts" and node: "node \<in> snd ` set ts"
  obtain r c' where sw: "switch_node env node automatic w = (r, c')" by (rule prod.exhaust)
  from load w0 obtain rs where "rows = Ok rs" "try_map (decode_row env) rs = Ok ts"
    by (auto simp: real_controller_def load_probe_targets_def from_rows_def)
  with node have "in_rows env rows node" using try_map_decoded unfolding in_rows_def by blast
  with w switch_node_rows[OF sw] sw show "from_rows env rows others (snd (hk_switch_node (real_hooks env) node automatic w))"
    by (auto simp: real_hooks_def from_rows_def)
next
  fix w assume "from_rows env rows others w"
  then show "from_rows env rows others (hk_degrade (real_hooks env) w)"
    using tear_down_rows[of env w] by (simp add: real_hooks_def degrade_to_direct_def from_rows_def)
qed (auto simp: real_hooks_def verify_node_egress_def real_rescore_def from_rows_def)

lemma cycle_from_table:
  assumes "session_cycle env sq config status se = (r, status', se')" and "reads_payloads env cd"
    and "get_active_node se' = Some n"
  shows "get_active_node se = Some n \<or>
    (\<exists>row \<in> set (db_nodes (co_db (se_db se))). decode_node_payload cd (nr_raw_payload row) = Ok n)"
proof -
  let ?rows = "pr_rows (attach sq se)" and ?others = "set_option (get_active_node se)"
  obtain c where run: "run_failover_cycle (real_controller env) config (real_hooks env) status (attach sq se) = (r, status', c)"
    and se': "se_ctl se' = c" using assms(1) by (auto simp: session_cycle_def split: prod.splits)
  have "from_rows env ?rows ?others (attach sq se)"
    by (simp add: from_rows_def get_active_node_def attach_def)
  with run have "from_rows env ?rows ?others c" by (rule catalog_bound.cycle_keeps)
  with assms(3) se' consider "get_active_node se = Some n"
    | rs row where "?rows = Ok rs" "row \<in> set rs" "ev_decode env (snd row) = Ok n"
    by (auto simp: from_rows_def in_rows_def get_active_node_def)
  then show ?thesis
  proof cases
    case (2 rs row)
    then obtain x where "x \<in> set (db_nodes (co_db (se_db se)))" "row = (nr_id x, text_of (nr_raw_payload x))"
      by (auto simp: attach_def query_payloads_def sql_call_def Let_def split: option.splits)
    with 2(3) assms(2) show ?thesis by (auto simp: reads_payloads_def)
  qed simp
qed

section \<open>Properties\<close>

text \<open>
  Claim C28.  What the watchdog may choose from is the node table.  In every session, after any sequence of imports,
  switches and cycles, a query that SQLite answers yields one candidate for each row, in the order of the table, with the row's id and
  a node of the row's hash: no payload the program stored is ever reported as corrupt.
\<close>

theorem reachable_catalog_readable:
  assumes "session_reachable env sq pe se" and "fresh_rowids sq" and "codec_undoes (pe_codec pe)" and "reads_payloads env (pe_codec pe)"
    and "sq_fault sq (co_calls (se_db se)) = None"
  shows "\<exists>ts. session_targets env sq se = Ok ts \<and> map fst ts = map (\<lambda>r. of_int (nr_id r)) (db_nodes (co_db (se_db se))) \<and>
    map (\<lambda>t. cn_hash (snd t)) ts = map nr_hash (db_nodes (co_db (se_db se)))"
  by (rule targets_of_good[OF _ assms(4,5)]) (use session_reachable_good[OF assms(1-3)] in simp)

text \<open>
  Claim C17.  The watchdog stays in the catalog: the node that is active after a cycle was active before it, or is what a row of
  the node table decodes to.
\<close>

theorem watchdog_stays_in_catalog:
  assumes "session_cycle env sq config status se = (r, status', se')" and "reads_payloads env cd"
    and "get_active_node se' = Some n"
  shows "get_active_node se = Some n \<or>
    (\<exists>row \<in> set (db_nodes (co_db (se_db se))). decode_node_payload cd (nr_raw_payload row) = Ok n)"
  using assms by (rule cycle_from_table)

text \<open>
  Claim C29.  What was imported can be chosen: after a successful import every node of its report is among the candidates of the
  watchdog, by its hash.
\<close>

theorem imported_nodes_are_candidates:
  assumes "session_reachable env sq pe se" and "fresh_rowids sq" and "codec_undoes (pe_codec pe)" and "reads_payloads env (pe_codec pe)"
    and "session_import pe sq new_uuid now raw name url se = (Ok rf, se')" and "sq_fault sq (co_calls (se_db se')) = None"
  shows "\<exists>ts. session_targets env sq se' = Ok ts \<and>
    cn_hash ` set (ir_successful_nodes (rf_report rf)) \<subseteq> (\<lambda>t. cn_hash (snd t)) ` set ts"
proof -
  note good = session_reachable_good[OF assms(1-3)]
  obtain db where i: "import_subscription pe sq new_uuid now raw name url (se_db se) = (Ok rf, db)" "se' = se\<lparr>se_db := db\<rparr>"
    using assms(5) by (auto simp: session_import_def split: prod.splits)
  have good': "catalog_good (pe_codec pe) (co_db (se_db se'))"
    using import_keeps[OF i(1) _ assms(2,3)] good i(2) by simp
  have sub: "cn_hash ` set (ir_successful_nodes (rf_report rf)) \<subseteq> nr_hash ` set (db_nodes (co_db (se_db se')))"
    using i(1)
  proof (cases rule: import_cases)
    case (refreshed rc c1 r1)
    then have rf: "refresh pe sq rc raw False c1 = (Inr rf, db)" by simp
    then obtain res where s: "sync_subscription sq (pe_codec pe) rc (rf_report rf) False c1 = (Inr res, db)"
      by (auto simp: refresh_def Let_def)
    have "db_ok (co_db c1)" using good refreshed(1) by (simp add: catalog_good_def)
    from sync_subscription_Ok[OF s this assms(2)]
    have "linked_hashes (co_db db) (uint (rc_id rc)) = cn_hash ` set (ir_successful_nodes (rf_report rf))" by (simp add: synced_def)
    then show ?thesis using i(2) by (auto simp: linked_hashes_def)
  qed simp
  from targets_of_good[OF good' assms(4,6)] obtain ts where ts: "session_targets env sq se' = Ok ts"
    "map (\<lambda>t. cn_hash (snd t)) ts = map nr_hash (db_nodes (co_db (se_db se')))" by blast
  from arg_cong[OF ts(2), of set] sub ts(1) show ?thesis by auto
qed

text \<open>
  Claim C32.  What is imported is read back as it was.  After a successful import every node of its report whose hash the table
  did not have is a candidate of the watchdog with all its fields: endpoint, protocol, transport, security, label, country,
  subscription and time.  A node whose hash was already there is not stored again: its candidate is, under its old id,
  what its old row decodes to.
\<close>

theorem imported_nodes_read_back:
  assumes "session_reachable env sq pe se" and "fresh_rowids sq" and "codec_undoes (pe_codec pe)" and "reads_payloads env (pe_codec pe)"
    and "session_import pe sq new_uuid now raw name url se = (Ok rf, se')" and "sq_fault sq (co_calls (se_db se')) = None"
  shows "\<exists>ts. session_targets env sq se' = Ok ts \<and>
    (\<forall>n \<in> set (ir_successful_nodes (rf_report rf)).
       if cn_hash n \<notin> nr_hash ` set (db_nodes (co_db (se_db se))) then n \<in> snd ` set ts
       else \<exists>row \<in> set (db_nodes (co_db (se_db se))). nr_hash row = cn_hash n \<and>
         (\<exists>m. decode_node_payload (pe_codec pe) (nr_raw_payload row) = Ok m \<and> (of_int (nr_id row), m) \<in> set ts))"
proof -
  have good: "catalog_good (pe_codec pe) (co_db (se_db se))" using session_reachable_good[OF assms(1-3)] by simp
  obtain db where i: "import_subscription pe sq new_uuid now raw name url (se_db se) = (Ok rf, db)" "se' = se\<lparr>se_db := db\<rparr>"
    using assms(5) by (auto simp: session_import_def split: prod.splits)
  have good': "catalog_good (pe_codec pe) (co_db (se_db se'))" using import_keeps[OF i(1) good assms(2,3)] i(2) by simp
  from targets_of_good[OF good' assms(4,6)] obtain ts where ts: "session_targets env sq se' = Ok ts" by blast
  note candidate = targets_of_row[OF ts assms(4,6)]
  have "if cn_hash n \<notin> nr_hash ` set (db_nodes (co_db (se_db se))) then n \<in> snd ` set ts
      else \<exists>row \<in> set (db_nodes (co_db (se_db se))). nr_hash row = cn_hash n \<and>
        (\<exists>m. decode_node_payload (pe_codec pe) (nr_raw_payload row) = Ok m \<and> (of_int (nr_id row), m) \<in> set ts)"
    if n: "n \<in> set (ir_successful_nodes (rf_report rf))" for n
  proof -
    obtain r where r: "r \<in> set (db_nodes (co_db (se_db se')))" "nr_hash r = cn_hash n"
      "if cn_hash n \<in> nr_hash ` set (db_nodes (co_db (se_db se))) then r \<in> set (db_nodes (co_db (se_db se)))
       else decode_node_payload (pe_codec pe) (nr_raw_payload r) = Ok n"
      using imported_row[OF i(1) good assms(2,3) n] i(2) by auto
    obtain m where "decode_node_payload (pe_codec pe) (nr_raw_payload r) = Ok m"
      using good' r(1) by (auto simp: catalog_good_def payloads_ok_def payload_ok_def)
    with r candidate[OF r(1)] show ?thesis by (cases "cn_hash n \<in> nr_hash ` set (db_nodes (co_db (se_db se)))") force+
  qed
  with ts show ?thesis by blast
qed

section \<open>A session\<close>

text \<open>
  A serializer for one node, a parser that yields it, and a database with one subscription, so that the next one gets the
  number 4.
\<close>

definition session_codec :: codec where
  "session_codec = sample_codec\<lparr>ser_node := (\<lambda>n. if n = link_node then Ok [1] else Err ''too large''),
     de_node := (\<lambda>bs. if bs = [1] then Ok link_node else Err ''eof'')\<rparr>"

definition session_pe :: parse_env where
  "session_pe = link_env\<lparr>pe_codec := session_codec\<rparr>"

definition session_env :: ctl_env where
  "session_env = sample_ctl_env\<lparr>ev_decode := (\<lambda>s. decode_node_payload session_codec (bytes_of s))\<rparr>"

definition session_stored :: database where
  "session_stored = empty_database\<lparr>db_subscriptions := [\<lparr>sr_id = 3, sr_uuid = ''s'', sr_name = ''n'', sr_url = ''u'',
     sr_last_updated = 0, sr_auto_update_interval = 0, sr_etag = None\<rparr>]\<rparr>"

definition no_core :: core_world where
  "no_core = \<lparr>cw_file = None, cw_procs = Map.empty, cw_tick = 0\<rparr>"

lemma bytes_of_text_of: "bytes_of (text_of bs) = bs"
proof -
  have "unat b < 256" for b :: u8 using unsigned_less[of b] by simp
  then have "word_of_nat (of_char (char_of (unat b) :: char)) = b" for b :: u8 by simp
  then show ?thesis by (simp add: bytes_of_def text_of_def comp_def)
qed

lemma session_codec_ok: "codec_undoes session_codec" "reads_payloads session_env session_codec"
  by (auto simp: codec_undoes_def session_codec_def reads_payloads_def session_env_def bytes_of_text_of split: if_splits)

lemma session_opens:
  "\<exists>se. session_open session_env quiet_sqlite session_codec conns (Some session_stored) no_core ''sb'' ''c.json'' (ProxySettings_default None) = Ok se \<and>
     co_db (se_db se) = session_stored"
  by (simp add: session_open_def open_database_def initialize_schema_def pragmas_def sql_context_def sql_eval session_stored_def
      empty_database_def quiet_sqlite_def)

lemma session_parsed: "parse_entry session_pe e 4 1 = Ok link_node"
proof -
  have ip: "parse_ip ''node.com'' = None"
    by (rule parse_ip_not_hex) (simp_all add: to_digit_def is_ascii_digit_def is_ascii_lowercase_def)
  show ?thesis
    by (simp add: parse_entry_def session_pe_def link_env_def sample_parse_env_def sample_url_def parse_vless_def parse_uuid_def
        endpoint_def endpoint_from_host_def ip EndpointTarget_domain_def sample_host_id
        parse_transport_def parse_security_def parse_flow_def query_get_def label_def filter_opt_def
        make_metadata_total sample_label_country build_node_def try_new_def session_codec_def sample_codec_def link_node_def
        sample_link_node_def sample_node_def sample_ser_def CANONICAL_HASH_VERSION_def)
qed

lemma session_report: "ir_successful_nodes (ingest_with_timestamp session_pe ''ss://x'' 4 1) = [link_node]"
proof -
  have "ir_successful_nodes (ingest_with_timestamp session_pe ''ss://x'' 4 1) =
     fresh_nodes {} (List.map_filter (\<lambda>(lno, entry). ok (parse_entry session_pe entry 4 1))
       (take MAX_ENTRIES (collect_entries ''ss://x'')))"
    by (rule link_bundle_nodes) (use sample_payload in simp_all)
  then show ?thesis using sample_payload by (simp add: map_filter_simps session_parsed MAX_ENTRIES_def)
qed

lemma session_imports:
  assumes "co_db (se_db se) = session_stored"
  shows "\<exists>rf se'. session_import session_pe quiet_sqlite ''u'' 1 ''ss://x'' ''Imported'' ''clipboard'' se = (Ok rf, se') \<and>
    ir_successful_nodes (rf_report rf) = [link_node] \<and> length (db_nodes (co_db (se_db se'))) = 1"
proof -
  have country: "country_text link_node = ''UN''" "sql_length ''UN'' = 2"
    by (simp_all add: country_text_def Let_def link_node_def sample_link_node_def next_piece_ascii
        sql_length_def cont_byte_def)
  have hash: "length (cn_hash link_node) = 32"
    by (simp add: link_node_def sample_link_node_def sample_node_def sample_codec_def)
  have kind: "node_kind link_node = 0"
    by (simp add: node_kind_def link_node_def sample_link_node_def)
  have codec: "pe_codec session_pe = session_codec" by (simp add: session_pe_def)
  have ser: "ser_node session_codec link_node = Ok [1]" by (simp add: session_codec_def)
  show ?thesis
    by (simp add: session_import_def import_subscription_def sql_context_def refresh_def Let_def sync_subscription_def session_report codec
        transaction_def sync_body_def upsert_subscription_def record_row_def to_sql_u64_def ensure_nodes_def store_node_def
        sql_bind_def sql_call_def sql_tick_def sql_return_def sql_lift_def quiet_sqlite_def put_subscription_def
        assms session_stored_def empty_database_def insert_node_def country hash kind find_node_def ser
        insert_diagnostics_def delete_sources_def insert_source_def delete_orphans_def has_link_def)
qed

lemma session_started:
  "\<exists>se. session_reachable session_env quiet_sqlite session_pe se \<and> co_db (se_db se) = session_stored"
proof -
  obtain se where "session_open session_env quiet_sqlite session_codec (\<lambda>p n. (Err ''down'', answered [])) (Some session_stored) no_core
      ''sb'' ''c.json'' (ProxySettings_default None) = Ok se" and db: "co_db (se_db se) = session_stored" using session_opens by blast
  moreover have "catalog_good session_codec session_stored"
    by (simp add: catalog_good_def payloads_ok_def db_ok_def session_stored_def empty_database_def)
  ultimately have "session_reachable session_env quiet_sqlite session_pe se"
    by (intro session_reachable.start_open[of _ quiet_sqlite session_pe _ "Some session_stored" no_core])
      (simp_all add: session_pe_def no_core_def)
  with db show ?thesis by blast
qed

lemma quiet_answers: "sq_fault quiet_sqlite k = None"
  by (simp add: quiet_sqlite_def)

lemmas session_facts = quiet_fresh session_codec_ok quiet_answers

theorem reachable_catalog_readable_witness:
  "\<exists>se ts. session_targets session_env quiet_sqlite se = Ok ts \<and> length ts = 1 \<and>
     map (\<lambda>t. cn_hash (snd t)) ts = map nr_hash (db_nodes (co_db (se_db se)))"
proof -
  obtain se rf se' where r: "session_reachable session_env quiet_sqlite session_pe se"
    and i: "session_import session_pe quiet_sqlite ''u'' 1 ''ss://x'' ''Imported'' ''clipboard'' se = (Ok rf, se')"
    and one: "length (db_nodes (co_db (se_db se'))) = 1" using session_started session_imports by blast
  have "session_reachable session_env quiet_sqlite session_pe se'" using r i by (rule session_reachable.importing)
  from reachable_catalog_readable[OF this] obtain ts where ts: "session_targets session_env quiet_sqlite se' = Ok ts"
    "map (\<lambda>t. cn_hash (snd t)) ts = map nr_hash (db_nodes (co_db (se_db se')))"
    using session_facts by (auto simp: session_pe_def)
  from arg_cong[OF ts(2), of length] one have "length ts = 1" by simp
  with ts show ?thesis by blast
qed

theorem imported_nodes_are_candidates_witness:
  "\<exists>se ts. session_targets session_env quiet_sqlite se = Ok ts \<and> cn_hash link_node \<in> (\<lambda>t. cn_hash (snd t)) ` set ts"
proof -
  obtain se rf se' where r: "session_reachable session_env quiet_sqlite session_pe se"
    and i: "session_import session_pe quiet_sqlite ''u'' 1 ''ss://x'' ''Imported'' ''clipboard'' se = (Ok rf, se')"
    and nodes: "ir_successful_nodes (rf_report rf) = [link_node]" using session_started session_imports by blast
  have "codec_undoes (pe_codec session_pe)" "reads_payloads session_env (pe_codec session_pe)"
    using session_codec_ok by (simp_all add: session_pe_def)
  from imported_nodes_are_candidates[OF r quiet_fresh this i quiet_answers] nodes show ?thesis by auto
qed

theorem imported_nodes_read_back_witness:
  "\<exists>se ts. session_targets session_env quiet_sqlite se = Ok ts \<and> link_node \<in> snd ` set ts"
proof -
  obtain se rf se' where r: "session_reachable session_env quiet_sqlite session_pe se" and old: "co_db (se_db se) = session_stored"
    and i: "session_import session_pe quiet_sqlite ''u'' 1 ''ss://x'' ''Imported'' ''clipboard'' se = (Ok rf, se')"
    and nodes: "ir_successful_nodes (rf_report rf) = [link_node]" using session_started session_imports by blast
  have "codec_undoes (pe_codec session_pe)" "reads_payloads session_env (pe_codec session_pe)"
    using session_codec_ok by (simp_all add: session_pe_def)
  from imported_nodes_read_back[OF r quiet_fresh this i quiet_answers] nodes old show ?thesis
    by (auto simp: session_stored_def empty_database_def)
qed

text \<open>A session on a node, just switched to by hand.\<close>

definition manual_session :: session where
  "manual_session = \<lparr>se_ctl = (sample_controller None)\<lparr>pr_active_node := Some link_node, pr_last_manual_switch := Some 100\<rparr>,
     se_db = \<lparr>co_db = session_stored, co_calls = 0\<rparr>\<rparr>"

theorem watchdog_stays_in_catalog_witness:
  "\<exists>r status' se'. session_cycle session_env quiet_sqlite FailoverConfig_default FailoverStatus_default manual_session = (r, status', se') \<and>
     get_active_node se' = Some link_node \<and>
     (get_active_node manual_session = Some link_node \<or>
       (\<exists>row \<in> set (db_nodes session_stored). decode_node_payload session_codec (nr_raw_payload row) = Ok link_node))"
proof -
  let ?c = "attach quiet_sqlite manual_session"
  have "younger_than (real_controller session_env) ?c (Some 100) (fc_min_time_since_manual_switch FailoverConfig_default)"
    by (simp add: younger_than_def real_controller_def attach_def manual_session_def sample_controller_def session_env_def
        sample_ctl_env_def elapsed_def FailoverConfig_default_def from_secs_def)
  moreover have "\<not> ct_is_degraded (real_controller session_env) ?c" "ct_active_node (real_controller session_env) ?c = Some link_node"
    "ct_last_manual_switch (real_controller session_env) ?c = Some 100" "pr_active_node ?c = Some link_node"
    by (simp_all add: real_controller_def attach_def manual_session_def sample_controller_def)
  ultimately obtain r status' se' where run:
    "session_cycle session_env quiet_sqlite FailoverConfig_default FailoverStatus_default manual_session = (r, status', se')"
    "get_active_node se' = Some link_node"
    by (simp add: session_cycle_def run_failover_cycle_def Let_def get_active_node_def)
  from watchdog_stays_in_catalog[OF run(1) session_codec_ok(2) run(2)] run show ?thesis
    by (auto simp: manual_session_def)
qed

end
