(* ===== verification/Gui.thy ===== *)
theory Gui
  imports Snapshot Failover Probe
begin

text \<open>
  The list view and its feeds (\<open>crates/gui/src\<close>): the view settings (\<open>view_state.rs\<close>), the
  virtual list model with its projection worker (\<open>virtual_model.rs\<close>), the dispatcher that batches
  probe results into the metric arena (\<open>dispatcher.rs\<close>), and the scoring and wording helpers of
  \<open>main.rs\<close>.  The widget toolkit and the windows are not modelled; what the model tells the
  toolkit is the list of notifications.
\<close>

section \<open>View settings (\<open>view_state.rs\<close>)\<close>

record view_state =
  vs_search_text :: string
  vs_country_filter :: "country option"
  vs_subscription_filter :: "u16 option"
  vs_sort :: sort_criteria

definition ViewState_default :: view_state where
  "ViewState_default = \<lparr>vs_search_text = [], vs_country_filter = None, vs_subscription_filter = None,
     vs_sort = LatencyAsc\<rparr>"

definition projection :: "(string \<Rightarrow> string) \<Rightarrow> view_state \<Rightarrow> dense_node_store \<Rightarrow> metrics_arena \<Rightarrow> u32 list option" where
  "projection uni v st m =
     query_with_metrics uni st m (vs_search_text v) (vs_country_filter v) (vs_subscription_filter v) (vs_sort v)"

definition set_sort_name :: "string \<Rightarrow> view_state \<Rightarrow> view_state" where
  "set_sort_name name v = v\<lparr>vs_sort :=
     (if name = ''country'' then CountryAsc else if name = ''name'' then NameAsc
      else if name = ''health'' then HealthScoreDesc else LatencyAsc)\<rparr>"

definition sort_is_metric_dependent :: "view_state \<Rightarrow> bool" where
  "sort_is_metric_dependent v \<longleftrightarrow> vs_sort v \<in> {LatencyAsc, LatencyDesc, HealthScoreDesc}"

section \<open>The list model (\<open>virtual_model.rs\<close>)\<close>

definition POINT_UPDATE_LIMIT :: nat where
  "POINT_UPDATE_LIMIT = 2048"

text \<open>
  A published store is told apart from another by its pointer; the number of replacements so far
  stands for the pointer.
\<close>

record published =
  pu_version :: nat
  pu_pair :: store_snapshot

record projected =
  pj_version :: nat
  pj_store :: dense_node_store
  pj_indices :: "u32 list"

datatype notification = Reset | RowChanged nat

record node_model =
  md_projection :: projected
  md_reverse :: "u32 \<Rightarrow> nat option"
  md_active_node_id :: "u32 option"
  md_active_name :: string
  md_desired_view :: view_state
  md_requests :: "view_state list"
  md_in_flight :: "projected option"
  md_results :: "projected list"
  md_notified :: "notification list"

definition project_now :: "(string \<Rightarrow> string) \<Rightarrow> view_state \<Rightarrow> published \<Rightarrow> projected option" where
  "project_now uni v pu =
     map_option (\<lambda>ixs. \<lparr>pj_version = pu_version pu, pj_store = ss_store (pu_pair pu), pj_indices = ixs\<rparr>)
       (projection uni v (ss_store (pu_pair pu)) (ss_metrics (pu_pair pu)))"

text \<open>Rows of a projection by node id; a later row of the same id replaces an earlier one.\<close>

fun reverse_from :: "nat \<Rightarrow> dense_node_store \<Rightarrow> u32 list \<Rightarrow> (u32 \<Rightarrow> nat option) \<Rightarrow> (u32 \<Rightarrow> nat option)" where
  "reverse_from row st [] acc = acc"
| "reverse_from row st (ix # ixs) acc =
     reverse_from (row + 1) st ixs
       (if store_len st \<le> unat ix then acc else acc(ds_node_ids st ! unat ix \<mapsto> row))"

definition rebuild_reverse :: "projected \<Rightarrow> (u32 \<Rightarrow> nat option)" where
  "rebuild_reverse pj = reverse_from 0 (pj_store pj) (pj_indices pj) Map.empty"

definition model_new :: "(string \<Rightarrow> string) \<Rightarrow> published \<Rightarrow> view_state \<Rightarrow> node_model option" where
  "model_new uni pu v =
     Option.bind (project_now uni v pu) (\<lambda>pj.
       if list_all (\<lambda>ix. unat ix < store_len (pj_store pj)) (pj_indices pj)
       then Some \<lparr>md_projection = pj, md_reverse = rebuild_reverse pj, md_active_node_id = None,
         md_active_name = ''No node selected'', md_desired_view = v, md_requests = [], md_in_flight = None,
         md_results = [], md_notified = []\<rparr>
       else None)"

definition request_latest :: "node_model \<Rightarrow> node_model" where
  "request_latest md = md\<lparr>md_requests := md_requests md @ [md_desired_view md]\<rparr>"

definition model_refresh :: "view_state \<Rightarrow> node_model \<Rightarrow> node_model" where
  "model_refresh v md = request_latest (md\<lparr>md_desired_view := v\<rparr>)"

text \<open>
  The projection worker takes every waiting request, keeps the newest and projects the published
  pair; the projection is in flight until the result channel, which holds four, has room for it.
\<close>

definition worker_take :: "(string \<Rightarrow> string) \<Rightarrow> published \<Rightarrow> node_model \<Rightarrow> node_model option" where
  "worker_take uni pu md =
     (if md_requests md = [] \<or> md_in_flight md \<noteq> None then Some md
      else map_option (\<lambda>pj. md\<lparr>md_requests := [], md_in_flight := Some pj\<rparr>)
        (project_now uni (last (md_requests md)) pu))"

definition worker_send :: "node_model \<Rightarrow> node_model" where
  "worker_send md =
     (case md_in_flight md of
        None \<Rightarrow> md
      | Some pj \<Rightarrow>
          if 4 \<le> length (md_results md) then md
          else md\<lparr>md_in_flight := None, md_results := md_results md @ [pj]\<rparr>)"

definition apply_completed_projection :: "published \<Rightarrow> node_model \<Rightarrow> bool \<times> node_model" where
  "apply_completed_projection pu md =
     (if md_results md = [] then (False, md)
      else
        let pj = last (md_results md); md1 = md\<lparr>md_results := []\<rparr> in
        if pj_version pj \<noteq> pu_version pu then (False, request_latest md1)
        else (True, md1\<lparr>md_projection := pj, md_reverse := rebuild_reverse pj,
          md_notified := md_notified md1 @ [Reset]\<rparr>))"

definition notify_metrics :: "u32 list \<Rightarrow> node_model \<Rightarrow> bool \<times> node_model" where
  "notify_metrics node_ids md =
     (let rows = List.map_filter (md_reverse md) node_ids in
      if POINT_UPDATE_LIMIT < length rows then (True, md\<lparr>md_notified := md_notified md @ [Reset]\<rparr>)
      else (False, md\<lparr>md_notified := md_notified md @ map RowChanged rows\<rparr>))"

definition name_of :: "projected \<Rightarrow> u32 \<Rightarrow> string" where
  "name_of pj node_id =
     (case find (\<lambda>ix. unat ix < store_len (pj_store pj) \<and> ds_node_ids (pj_store pj) ! unat ix = node_id)
         (pj_indices pj) of
        Some ix \<Rightarrow> ds_names (pj_store pj) ! unat ix
      | None \<Rightarrow> ''No node selected'')"

definition select_node :: "u32 \<Rightarrow> node_model \<Rightarrow> node_model" where
  "select_node node_id md =
     (let prior = md_active_node_id md;
          changed = (case prior of None \<Rightarrow> [node_id] | Some p \<Rightarrow> [p, node_id])
      in md\<lparr>md_active_node_id := Some node_id, md_active_name := name_of (md_projection md) node_id,
        md_notified := md_notified md @ map RowChanged (List.map_filter (md_reverse md) changed)\<rparr>)"

definition row_count :: "node_model \<Rightarrow> nat" where
  "row_count md = length (pj_indices (md_projection md))"

type_synonym color = "nat \<times> nat \<times> nat"

definition utf8_text :: "nat list \<Rightarrow> string" where
  "utf8_text bs = map char_of bs"

definition em_dash :: string where
  "em_dash = utf8_text [0xE2, 0x80, 0x94]"

definition latency_display :: "u16 \<Rightarrow> bool \<Rightarrow> string \<times> color" where
  "latency_display latency verified =
     (let ms = show_nat (unat latency) @ '' ms'' in
      if latency = UNTESTED_LATENCY then (em_dash, (113, 113, 122))
      else if \<not> verified then (''~'' @ ms, (125, 132, 148))
      else if latency < 150 then (ms, (70, 167, 88))
      else if latency < 350 then (ms, (245, 166, 35))
      else (ms, (229, 72, 77)))"

definition provenance_badge :: "u16 \<Rightarrow> bool \<Rightarrow> string \<times> color" where
  "provenance_badge latency verified =
     (if latency = UNTESTED_LATENCY then ([], (63, 63, 70))
      else if verified then (utf8_text [0xE2, 0x9C, 0x93], (70, 167, 88))
      else (utf8_text [0xE2, 0x89, 0x88], (125, 132, 148)))"

record node_row_data =
  rd_id :: "32 word"
  rd_name :: string
  rd_country :: string
  rd_protocol :: string
  rd_latency :: "string \<times> color"
  rd_is_active :: bool
  rd_badge :: "string \<times> color"

definition row_data :: "published \<Rightarrow> node_model \<Rightarrow> nat \<Rightarrow> node_row_data option" where
  "row_data pu md row =
     (case vec_get (pj_indices (md_projection md)) row of
        None \<Rightarrow> None
      | Some ix \<Rightarrow>
          let dense = unat ix; st = pj_store (md_projection md); m = ss_metrics (pu_pair pu) in
          if store_len st \<le> dense then None
          else
            let latency = unwrap_or UNTESTED_LATENCY (vec_get (ma_latencies_ms m) dense);
                verified = is_verified m dense;
                cc = ds_country_codes st ! dense;
                node_id = ds_node_ids st ! dense
            in Some \<lparr>rd_id = node_id, rd_name = ds_names st ! dense,
                 rd_country = (if is_utf8 [fst cc, snd cc] then [fst cc, snd cc] else ''UN''),
                 rd_protocol = kind_label (ds_protocol_kinds st ! dense),
                 rd_latency = latency_display latency verified,
                 rd_is_active = (md_active_node_id md = Some node_id),
                 rd_badge = provenance_badge latency verified\<rparr>)"

section \<open>Batching (\<open>dispatcher.rs\<close>)\<close>

definition METRIC_PUBLISH_INTERVAL :: duration where
  "METRIC_PUBLISH_INTERVAL = from_millis 150"

definition RESORT_INTERVAL :: duration where
  "RESORT_INTERVAL = from_secs 1"

text \<open>A probe result has the fields of a metric update.  The queue drops what does not fit.\<close>

record dispatcher =
  di_capacity :: nat
  di_queue :: "metric_update list"
  di_dropped :: u64

definition dispatcher_new :: "nat \<Rightarrow> dispatcher" where
  "dispatcher_new capacity = \<lparr>di_capacity = capacity, di_queue = [], di_dropped = 0\<rparr>"

definition enqueue :: "metric_update \<Rightarrow> dispatcher \<Rightarrow> dispatcher" where
  "enqueue r d =
     (if length (di_queue d) < di_capacity d then d\<lparr>di_queue := di_queue d @ [r]\<rparr>
      else d\<lparr>di_dropped := di_dropped d + 1\<rparr>)"

record metric_worker =
  mw_accumulation :: "u32 \<Rightarrow> metric_update option"
  mw_next_publish :: instant
  mw_changed :: "u32 list list"

definition accumulate :: "metric_update list \<Rightarrow> (u32 \<Rightarrow> metric_update option) \<Rightarrow> (u32 \<Rightarrow> metric_update option)" where
  "accumulate rs acc = fold (\<lambda>r acc. acc(mu_node_id r \<mapsto> r)) rs acc"

text \<open>
  One turn of the metric worker at time \<open>now\<close>.  \<open>order\<close> is the order in which the hash map of the
  standard library yields its values, which is unspecified.  The queue of changed ids holds 64
  batches; a batch that does not fit is dropped.
\<close>

definition metric_turn ::
    "((u32 \<Rightarrow> metric_update option) \<Rightarrow> metric_update list) \<Rightarrow> instant \<Rightarrow> dispatcher \<Rightarrow> metric_worker
      \<Rightarrow> store_snapshot \<Rightarrow> (dispatcher \<times> metric_worker \<times> store_snapshot) option" where
  "metric_turn order now d w s =
     (let acc = accumulate (di_queue d) (mw_accumulation w); d1 = d\<lparr>di_queue := []\<rparr> in
      if acc \<noteq> Map.empty \<and> mw_next_publish w \<le> now then
        let updates = order acc; ids = map mu_node_id updates in
        map_option (\<lambda>s1. (d1, w\<lparr>mw_accumulation := Map.empty,
            mw_next_publish := now + METRIC_PUBLISH_INTERVAL,
            mw_changed := (if length (mw_changed w) < 64 then mw_changed w @ [ids] else mw_changed w)\<rparr>, s1))
          (publish_metrics updates s)
      else Some (d1, w\<lparr>mw_accumulation := acc\<rparr>, s))"

definition timer_turn ::
    "published \<Rightarrow> view_state \<Rightarrow> instant \<Rightarrow> instant \<Rightarrow> u32 list list \<Rightarrow> node_model \<Rightarrow> instant \<times> node_model" where
  "timer_turn pu view now last_resort batches md =
     (let md1 = snd (apply_completed_projection pu md);
          ids = concat batches;
          md2 = (if ids \<noteq> [] then snd (notify_metrics ids md1) else md1)
      in if RESORT_INTERVAL \<le> elapsed now last_resort
         then (now, if sort_is_metric_dependent view then model_refresh view md2 else md2)
         else (last_resort, md2))"

section \<open>Scores and words (\<open>main.rs\<close>)\<close>

definition REACHABILITY_HEALTH_CEILING :: int where
  "REACHABILITY_HEALTH_CEILING = 55"

definition reachability_health :: "bool \<Rightarrow> u16 option \<Rightarrow> u8" where
  "reachability_health alive latency_ms =
     (if \<not> alive then 0
      else
        let latency = int (unat (unwrap_or 400 latency_ms)) in
        of_int (clamp 0 REACHABILITY_HEALTH_CEILING (REACHABILITY_HEALTH_CEILING - latency div 12)))"

definition verified_health :: "bool \<Rightarrow> u16 option \<Rightarrow> u8" where
  "verified_health passes latency_ms =
     (if \<not> passes then 0
      else case latency_ms of
             Some latency \<Rightarrow> ucast (100 - min (latency div 8) 90 :: u16)
           | None \<Rightarrow> 100)"

text \<open>The results of a socket sweep over the catalog: unconfirmed targets write nothing.\<close>

definition sweep_results :: "(u32 \<times> canonical_node) list \<Rightarrow> probe_outcome list \<Rightarrow> metric_update list" where
  "sweep_results targets outcomes =
     List.map_filter (\<lambda>((node_id, node), outcome).
       if is_unknown outcome then None
       else Some \<lparr>mu_node_id = node_id, mu_latency_ms = unwrap_or UNTESTED_LATENCY (po_latency_ms outcome),
         mu_health_score = reachability_health (probe_alive outcome) (po_latency_ms outcome),
         mu_verified = False\<rparr>) (zip targets outcomes)"

text \<open>The results of a verified rescore; a latency is cut to 16 bits.\<close>

definition rescore_results :: "(u32 \<times> canonical_node) list \<Rightarrow> candidate_score list \<Rightarrow> metric_update list" where
  "rescore_results targets ranked =
     List.map_filter (\<lambda>score.
       case vec_get targets (cs_node_index score) of
         None \<Rightarrow> None
       | Some (node_id, node) \<Rightarrow>
           let latency = map_option (\<lambda>d. of_nat (as_millis d)) (cs_median_latency score) in
           Some \<lparr>mu_node_id = node_id, mu_latency_ms = unwrap_or UNTESTED_LATENCY latency,
             mu_health_score = verified_health (cs_passes score) latency,
             mu_verified = cs_passes score\<rparr>) ranked"

text \<open>Numbers for a catalog that is not backed by a database.\<close>

definition simulated_results :: "u32 list \<Rightarrow> metric_update list" where
  "simulated_results ids =
     map (\<lambda>node_id. let latency = 25 + ucast ((node_id * 37) mod 550) in
       \<lparr>mu_node_id = node_id, mu_latency_ms = latency,
        mu_health_score = reachability_health True (Some latency), mu_verified = False\<rparr>) ids"

text \<open>
  The probe button: the texts it sets in the status line and the readings it enqueues.  The work is done in a thread of its own;
  \<open>up\<close> is whether the weak handle of the window can be upgraded there.  \<open>loaded\<close> is the result
  of \<open>load_probe_targets\<close>, \<open>runtime\<close> that of building the asynchronous runtime, \<open>batch\<close> the sweep,
  \<open>ids\<close> the node ids of the published store.
\<close>

definition say :: "bool \<Rightarrow> string \<Rightarrow> string list" where
  "say up t = (if up then [t] else [])"

definition probe_all_clicked ::
    "bool \<Rightarrow> (u32 \<times> canonical_node) list res \<Rightarrow> unit res \<Rightarrow> (canonical_node list \<Rightarrow> probe_outcome list) \<Rightarrow> u32 list
      \<Rightarrow> string list \<times> metric_update list" where
  "probe_all_clicked up loaded runtime batch ids =
     (let simulated = (say up ''Simulated burst (no persisted catalog; import a subscription)'', simulated_results ids) in
      case loaded of
        Inl e \<Rightarrow> simulated
      | Inr targets \<Rightarrow>
          if targets = [] then simulated
          else case runtime of
            Inl e \<Rightarrow> (say up (''Probe runtime failed: '' @ e), [])
          | Inr _ \<Rightarrow>
              let outcomes = batch (map snd targets);
                  seen = map snd (zip targets outcomes);
                  unknown = length (filter is_unknown seen);
                  reachable = length (filter (\<lambda>x. \<not> is_unknown x \<and> probe_alive x) seen);
                  dead = length (filter (\<lambda>x. \<not> is_unknown x \<and> \<not> probe_alive x) seen)
              in (say up (''Socket preflight: '' @ show_nat reachable @ '' reachable, '' @ show_nat unknown
                    @ '' unconfirmed, '' @ show_nat dead @ '' dead (of '' @ show_nat (length targets) @ '') ''
                    @ em_dash @ '' reachability only, run Rescore egress for verified quality''),
                  sweep_results targets outcomes))"

text \<open>
  The rescore button, in a thread of its own too, which returns at once when the handle cannot be upgraded there;
  \<open>shortlist\<close> is the tiered shortlist of the controller.
\<close>

definition rescore_clicked ::
    "bool \<Rightarrow> (u32 \<times> canonical_node) list res \<Rightarrow> (canonical_node list \<Rightarrow> candidate_score list)
      \<Rightarrow> string list \<times> metric_update list" where
  "rescore_clicked up loaded shortlist =
     (if \<not> up then ([], [])
      else
        let began = ''Rescoring egress (cheap sweep, then quorum scatter on finalists)...'' in
        case loaded of
          Inl e \<Rightarrow> ([began, ''Rescore needs a real subscription catalog, not demo nodes''], [])
        | Inr targets \<Rightarrow>
            if targets = [] then ([began, ''Rescore needs a real subscription catalog, not demo nodes''], [])
            else
              let ranked = shortlist (map snd targets) in
              if ranked = []
              then ([began, ''Rescore found nothing alive (all candidates dead at the socket level)''], [])
              else
                let writes = rescore_results targets ranked in
                ([began, ''Rescore: '' @ show_nat (length (filter cs_passes ranked)) @ ''/'' @ show_nat (length writes)
                   @ '' candidates passed quorum''], writes))"

text \<open>The database below the user's data directory; joining adds one slash where there is none.\<close>

definition path_join :: "string \<Rightarrow> string \<Rightarrow> string" where
  "path_join base part =
     (if starts_with ''/'' part then part
      else if base = [] \<or> last base = CHR ''/'' then base @ part else base @ ''/'' @ part)"

definition default_db_path :: "string option \<Rightarrow> string option \<Rightarrow> string \<Rightarrow> string" where
  "default_db_path xdg_data_home home temp_dir =
     (let base = unwrap_or temp_dir (or_opt xdg_data_home (map_option (\<lambda>h. path_join h ''.local/share'') home))
      in path_join (path_join base ''myproxy'') ''myproxy.db'')"

definition watchdog_summary :: "failover_status \<Rightarrow> string" where
  "watchdog_summary status =
     (if fs_degraded status
      then ''Egress watchdog: DEGRADED to direct '' @ em_dash @ '' hunting for a live node''
      else
        let active = unwrap_or ''no active node'' (fs_active_node status) in
        case fs_last_action status of
          None \<Rightarrow> ''Egress watchdog: monitoring '' @ active
        | Some action \<Rightarrow>
            (case action of
               Healthy \<Rightarrow> ''Egress watchdog: '' @ active @ '' healthy''
             | Inspecting failures \<Rightarrow> ''Egress watchdog: inspecting '' @ active @ '' (''
                 @ show_nat failures @ '' consecutive misses)''
             | Rearmed shortlist \<Rightarrow> ''Egress watchdog: shortlist refreshed (''
                 @ show_nat shortlist @ '' candidates)''
             | Switched l \<Rightarrow> ''Egress watchdog: auto-switched to '' @ l
             | AdoptedNode l \<Rightarrow> ''Egress watchdog: auto-selected '' @ l @ '' (verified)''
             | Unconfirmed \<Rightarrow> ''Egress watchdog: candidate failed confirmation, staying on '' @ active
             | Degraded \<Rightarrow> ''Egress watchdog: degraded to direct''
             | Healed l \<Rightarrow> ''Egress watchdog: healed, tunnel restored via '' @ l
             | ManualWindow \<Rightarrow> ''Egress watchdog: deferring to manual control''
             | Cooldown \<Rightarrow> ''Egress watchdog: in post-switch cooldown''
             | IdleAction \<Rightarrow> ''Egress watchdog: idle (no active node)''
             | ErrorAction e \<Rightarrow> ''Egress watchdog: error '' @ em_dash @ '' '' @ e))"

definition initial_status :: "nat \<Rightarrow> string" where
  "initial_status n =
     (if n = 0 then ''Empty catalog '' @ em_dash @ '' import a subscription to get started''
      else show_nat n @ '' nodes from local catalog'')"

definition has_flag :: "string list \<Rightarrow> string \<Rightarrow> bool" where
  "has_flag args flag = list_ex (\<lambda>arg. arg = flag) args"

definition flag_value :: "string list \<Rightarrow> string \<Rightarrow> string option" where
  "flag_value args flag = map_option snd (find (\<lambda>(a, b). a = flag) (zip args (tl args)))"

definition demo_countries :: "country list" where
  "demo_countries = map (\<lambda>s. (s ! 0, s ! 1)) [''DE'', ''US'', ''JP'', ''NL'', ''SG'', ''UN'']"

definition demo_protocols :: "protocol_kind list" where
  "demo_protocols = [KVless, KTrojan, KShadowsocks, KHysteria2, KTuic]"

definition pad5 :: "nat \<Rightarrow> string" where
  "pad5 n = replicate (5 - length (show_nat n)) (CHR ''0'') @ show_nat n"

definition demo_row :: "nat \<Rightarrow> hot_node_row" where
  "demo_row off =
     (let node_id = of_nat (off + 1) :: u32 in
      \<lparr>hr_id = node_id, hr_country_code = demo_countries ! (off mod length demo_countries),
       hr_latency_ms = (if off mod 7 = 0 then UNTESTED_LATENCY else 30 + of_nat (off mod 600)),
       hr_health_score = of_nat (30 + off mod 71), hr_name = ''Demo node '' @ pad5 (unat node_id),
       hr_protocol = demo_protocols ! (off mod length demo_protocols),
       hr_source_sub_ids = [of_nat (off mod 3 + 1)]\<rparr>)"

definition demo_store :: "(string \<Rightarrow> string) \<Rightarrow> nat \<Rightarrow> dense_node_store" where
  "demo_store uni n = from_hot_rows uni (map demo_row [0..<n])"

text \<open>
  The catalog a start of the program shows, from its arguments and the result of loading the database.
\<close>

definition demo_count :: "string list \<Rightarrow> nat" where
  "demo_count args = unwrap_or 10000 (Option.bind (flag_value args ''--demo-nodes'') (parse_uint 10 (2 ^ 64 - 1)))"

definition startup_store :: "(string \<Rightarrow> string) \<Rightarrow> string list \<Rightarrow> dense_node_store res \<Rightarrow> dense_node_store" where
  "startup_store uni args loaded =
     (case loaded of
        Inr st \<Rightarrow> if \<not> has_flag args ''--demo-nodes'' \<and> \<not> store_is_empty st then st else demo_store uni (demo_count args)
      | Inl e \<Rightarrow> demo_store uni (demo_count args))"

section \<open>Batching is publishing one by one\<close>

definition last_for :: "(u32 \<Rightarrow> nat option) \<Rightarrow> metric_update list \<Rightarrow> nat \<Rightarrow> metric_update option" where
  "last_for idx us i = find (\<lambda>u. idx (mu_node_id u) = Some i) (rev us)"

definition over :: "nat \<Rightarrow> (nat \<Rightarrow> metric_update option) \<Rightarrow> (metric_update \<Rightarrow> 'x) \<Rightarrow> 'x list \<Rightarrow> 'x list" where
  "over n f h xs = map (\<lambda>i. case f i of None \<Rightarrow> xs ! i | Some u \<Rightarrow> h u) [0..<n]"

definition overlay_arena :: "(nat \<Rightarrow> metric_update option) \<Rightarrow> metrics_arena \<Rightarrow> metrics_arena" where
  "overlay_arena f m = m\<lparr>
     ma_latencies_ms := over (arena_len m) f mu_latency_ms (ma_latencies_ms m),
     ma_health_scores := over (arena_len m) f (\<lambda>u. min (mu_health_score u) 100) (ma_health_scores m),
     ma_verified := over (arena_len m) f mu_verified (ma_verified m)\<rparr>"

lemma length_over [simp]: "length (over n f h xs) = n"
  by (simp add: over_def)

lemma over_none: "length xs = n \<Longrightarrow> over n (\<lambda>i. None) h xs = xs"
  by (auto simp: over_def map_nth)

lemma over_cong: "(\<And>i. i < n \<Longrightarrow> f i = g i) \<Longrightarrow> over n f h xs = over n g h xs"
  by (simp add: over_def)

lemma over_over: "over n g h (over n f h xs) = over n (\<lambda>i. or_opt (g i) (f i)) h xs"
proof -
  have "(case g i of None \<Rightarrow> over n f h xs ! i | Some u \<Rightarrow> h u)
      = (case or_opt (g i) (f i) of None \<Rightarrow> xs ! i | Some u \<Rightarrow> h u)" if "i < n" for i
    using that by (cases "g i"; cases "f i") (simp_all add: over_def)
  then show ?thesis by (simp add: over_def[of n g] over_def[of n "\<lambda>i. or_opt (g i) (f i)"])
qed

lemma over_one: "length xs = n \<Longrightarrow> over n (\<lambda>i. if k = i then Some u else None) h xs = xs[k := h u]"
  by (rule nth_equalityI) (auto simp: over_def nth_list_update)

lemma overlay_arena_ok: "arena_ok (overlay_arena f m) \<and> arena_len (overlay_arena f m) = arena_len m"
  by (simp add: arena_ok_def arena_len_def overlay_arena_def)

lemma overlay_arena_id: "arena_ok m \<Longrightarrow> overlay_arena (\<lambda>i. None) m = m"
  by (simp add: overlay_arena_def arena_ok_def arena_len_def over_none)

lemma overlay_arena_cong:
  "(\<And>i. i < arena_len m \<Longrightarrow> f i = g i) \<Longrightarrow> overlay_arena f m = overlay_arena g m"
  unfolding overlay_arena_def by (simp cong: over_cong)

lemma overlay_overlay:
  "overlay_arena g (overlay_arena f m) = overlay_arena (\<lambda>i. or_opt (g i) (f i)) m"
  by (simp add: overlay_arena_def arena_len_def over_over)

lemma publish_one_overlay:
  assumes "arena_ok m"
  shows "publish_one st u m
     = Some (overlay_arena (\<lambda>i. if index_of st (mu_node_id u) = Some i then Some u else None) m)"
proof (cases "index_of st (mu_node_id u)")
  case None
  with assms show ?thesis by (simp add: publish_one_def overlay_arena_id)
next
  case (Some k)
  show ?thesis
  proof (cases "k < arena_len m")
    case True
    with assms Some show ?thesis
      by (simp add: publish_one_def apply_update_def set_at_def arena_ok_def arena_len_def overlay_arena_def
          over_one)
  next
    case False
    have "overlay_arena (\<lambda>i. if index_of st (mu_node_id u) = Some i then Some u else None) m = overlay_arena (\<lambda>i. None) m"
      by (rule overlay_arena_cong) (use False Some in auto)
    with False Some assms show ?thesis by (simp add: publish_one_def apply_update_def overlay_arena_id)
  qed
qed

lemma find_snoc: "find P (xs @ [x]) = or_opt (find P xs) (if P x then Some x else None)"
  by (induction xs) auto

lemma publish_fold_overlay:
  "arena_ok m \<Longrightarrow> fold_opt (publish_one st) us m = Some (overlay_arena (last_for (index_of st) us) m)"
proof (induction us arbitrary: m)
  case Nil
  then show ?case by (simp add: last_for_def overlay_arena_id)
next
  case (Cons u us)
  let ?one = "\<lambda>i. if index_of st (mu_node_id u) = Some i then Some u else None"
  have "last_for (index_of st) (u # us) i = or_opt (last_for (index_of st) us i) (?one i)" for i
    by (cases "last_for (index_of st) us i") (simp_all add: last_for_def find_snoc)
  then show ?case
    using Cons.IH[of "overlay_arena ?one m"] overlay_arena_ok Cons.prems
    by (simp add: publish_one_overlay overlay_overlay)
qed

text \<open>All values of the hash map, in some order.\<close>

definition yields_values :: "((u32 \<Rightarrow> metric_update option) \<Rightarrow> metric_update list) \<Rightarrow> bool" where
  "yields_values order \<longleftrightarrow> (\<forall>acc. finite (dom acc) \<longrightarrow> set (order acc) = ran acc)"

lemma accumulate_find:
  "accumulate rs Map.empty nid = find (\<lambda>r. mu_node_id r = nid) (rev rs)"
proof (induction rs rule: rev_induct)
  case Nil
  then show ?case by (simp add: accumulate_def)
next
  case (snoc r rs)
  then show ?case by (simp add: accumulate_def)
qed

lemma accumulate_finite: "finite (dom (accumulate rs Map.empty))"
proof -
  have "dom (accumulate rs Map.empty) \<subseteq> mu_node_id ` set rs"
    using find_Some_mem by (fastforce simp: accumulate_find dom_def)
  then show ?thesis by (rule finite_subset) simp
qed

lemma find_unique:
  assumes "x \<in> set xs" and "P x" and "\<And>y. y \<in> set xs \<Longrightarrow> P y \<Longrightarrow> y = x"
  shows "find P xs = Some x"
proof (cases "find P xs")
  case None
  then show ?thesis using assms(1,2) by (auto simp: find_None_iff)
next
  case (Some y)
  with assms(3) find_Some_mem[OF Some] show ?thesis by blast
qed

lemma last_for_accumulated:
  assumes rep: "index_rep (index_of st) ids" and "yields_values order"
  shows "last_for (index_of st) (order (accumulate rs Map.empty)) i = last_for (index_of st) rs i"
proof (cases "\<exists>nid. index_of st nid = Some i")
  case False
  then have "find (\<lambda>u. index_of st (mu_node_id u) = Some i) us = None"
    for us :: "metric_update list" by (simp add: find_None_iff)
  then show ?thesis unfolding last_for_def by (simp only:)
next
  case True
  then obtain nid where nid: "index_of st nid = Some i" by blast
  have only: "index_of st n = Some i \<longleftrightarrow> n = nid" for n
    using index_rep_Some[OF rep nid] index_rep_Some[OF rep, of n i] nid by auto
  let ?acc = "accumulate rs Map.empty"
  have vals: "set (order ?acc) = ran ?acc" using assms(2) accumulate_finite by (simp add: yields_values_def)
  have key: "mu_node_id u = n" if "?acc n = Some u" for n u
    using that find_Some_mem by (fastforce simp: accumulate_find)
  have "find (\<lambda>u. mu_node_id u = nid) (rev (order ?acc)) = ?acc nid"
  proof (cases "?acc nid")
    case None
    then have "mu_node_id u \<noteq> nid" if "u \<in> set (order ?acc)" for u
      using that key unfolding vals ran_def by fastforce
    with None show ?thesis by (simp add: find_None_iff)
  next
    case (Some u)
    have "find (\<lambda>u. mu_node_id u = nid) (rev (order ?acc)) = Some u"
    proof (rule find_unique)
      show "u \<in> set (rev (order ?acc))" using Some vals by (auto simp: ran_def)
      show "mu_node_id u = nid" using Some by (rule key)
      show "y = u" if "y \<in> set (rev (order ?acc))" "mu_node_id y = nid" for y
        using that key Some unfolding set_rev vals ran_def by fastforce
    qed
    with Some show ?thesis by simp
  qed
  then show ?thesis by (simp add: last_for_def only accumulate_find)
qed

text \<open>
  Claim C38.  Batching loses nothing the list could show: publishing the accumulated results of a
  burst, in whatever order the hash map yields them, leaves the arena exactly as publishing every
  result one by one in the order of arrival.
\<close>

theorem batched_publish_equals_sequence:
  assumes "store_ok uni (ss_store s)" and "arena_ok (ss_metrics s)" and "yields_values order"
  shows "\<exists>s'. publish_metrics (order (accumulate rs Map.empty)) s = Some s' \<and> publish_metrics rs s = Some s'"
proof -
  obtain rows where "store_rep uni (ss_store s) rows" using assms(1) by (auto simp: store_ok_def)
  then have rep: "index_rep (index_of (ss_store s)) (map hr_id rows)"
    by (simp add: store_rep_def columns_rep_def index_of_def[abs_def])
  have "last_for (index_of (ss_store s)) (order (accumulate rs Map.empty)) = last_for (index_of (ss_store s)) rs"
    by (intro ext last_for_accumulated[OF rep assms(3)])
  then show ?thesis
    using publish_fold_overlay[OF assms(2), of "ss_store s"] by (simp add: publish_metrics_def)
qed

definition by_id :: "(u32 \<Rightarrow> metric_update option) \<Rightarrow> metric_update list" where
  "by_id acc = map (the \<circ> acc) (sorted_list_of_set (dom acc))"

lemma by_id_values: "finite (dom acc) \<Longrightarrow> set (by_id acc) = ran acc"
  by (force simp: by_id_def ran_def dom_def)

theorem batched_publish_equals_sequence_witness:
  "\<exists>s'. publish_metrics (by_id (accumulate
       [\<lparr>mu_node_id = 7, mu_latency_ms = 12, mu_health_score = 99, mu_verified = True\<rparr>,
        \<lparr>mu_node_id = 3, mu_latency_ms = 80, mu_health_score = 48, mu_verified = False\<rparr>,
        \<lparr>mu_node_id = 7, mu_latency_ms = 15, mu_health_score = 98, mu_verified = True\<rparr>] Map.empty))
       (snapshot_new (from_hot_rows id sample_rows)) = Some s' \<and>
     publish_metrics
       [\<lparr>mu_node_id = 7, mu_latency_ms = 12, mu_health_score = 99, mu_verified = True\<rparr>,
        \<lparr>mu_node_id = 3, mu_latency_ms = 80, mu_health_score = 48, mu_verified = False\<rparr>,
        \<lparr>mu_node_id = 7, mu_latency_ms = 15, mu_health_score = 98, mu_verified = True\<rparr>]
       (snapshot_new (from_hot_rows id sample_rows)) = Some s'"
proof -
  have "store_ok id (ss_store (snapshot_new (from_hot_rows id sample_rows)))"
    "arena_ok (ss_metrics (snapshot_new (from_hot_rows id sample_rows)))"
    by (simp_all only: snapshot_new_def store_snapshot.simps sample_rows_ok from_store_ok[OF sample_rows_ok])
  moreover have "yields_values by_id" by (simp add: yields_values_def by_id_values)
  ultimately show ?thesis by (rule batched_publish_equals_sequence)
qed

section \<open>Scores\<close>

lemma reachability_health_value:
  "uint (reachability_health True (Some latency)) = max 0 (55 - uint latency div 12)"
proof -
  have "0 \<le> clamp 0 55 x" "clamp 0 55 x \<le> 55" for x :: int by (simp_all add: clamp_def)
  then have "uint (of_int (clamp 0 55 x) :: u8) = clamp 0 55 x" for x :: int
    using order.strict_trans1[of "clamp 0 55 x" 55 256] by (simp add: unsigned_of_int take_bit_int_eq_self)
  moreover have "0 \<le> uint latency div 12" by (simp add: pos_imp_zdiv_nonneg_iff)
  then have "clamp 0 55 (55 - uint latency div 12) = max 0 (55 - uint latency div 12)"
    by (simp add: clamp_def)
  ultimately have "uint (of_int (clamp 0 55 (55 - uint latency div 12)) :: u8) = max 0 (55 - uint latency div 12)"
    by metis
  then show ?thesis
    by (simp only: reachability_health_def REACHABILITY_HEALTH_CEILING_def uint_nat[symmetric] Let_def
        unwrap_or.simps not_True_eq_False if_False)
qed

lemma verified_health_value:
  "uint (verified_health True (Some latency)) = 100 - min (uint latency div 8) 90"
proof -
  let ?c = "min (latency div 8) 90 :: u16"
  have c: "uint ?c = min (uint latency div 8) 90"
    by (simp add: min_def word_le_def uint_div)
  then have "uint ?c \<le> uint (100 :: u16)" by simp
  then have "uint (100 - ?c) = 100 - uint ?c" by (simp add: uint_sub_lem[THEN iffD1])
  then have v: "uint (100 - ?c) = 100 - min (uint latency div 8) 90" using c by simp
  have "0 \<le> uint latency div 8" by (simp add: pos_imp_zdiv_nonneg_iff)
  then have "0 \<le> uint (100 - ?c)" "uint (100 - ?c) < 256" unfolding v by auto
  then have "uint (ucast (100 - ?c) :: u8) = uint (100 - ?c)"
    by (simp add: unsigned_ucast_eq take_bit_int_eq_self)
  with v show ?thesis by (simp add: verified_health_def)
qed

lemma ceiling_gap: "0 \<le> l \<Longrightarrow> max 0 (55 - l div 12) < 100 - min (l div 8) (90 :: int)"
proof -
  have "12 * (l div 12) \<le> l" "l < 12 * (l div 12) + 12" "8 * (l div 8) \<le> l" "l < 8 * (l div 8) + 8"
    using mult_div_mod_eq[of 12 l] mult_div_mod_eq[of 8 l] pos_mod_bound[of 12 l] pos_mod_bound[of 8 l]
      pos_mod_sign[of 12 l] pos_mod_sign[of 8 l] by linarith+
  then show ?thesis by (auto simp: min_def max_def)
qed

text \<open>
  The number of a socket-only reading stays at most 55 and below the number of a verified
  reading of the same latency; a node that is dead at the socket or fails the quorum has zero.
\<close>

theorem socket_only_below_verified:
  "reachability_health True (Some latency) < verified_health True (Some latency)
     \<and> reachability_health True (Some latency) \<le> 55
     \<and> reachability_health True None < verified_health True None
     \<and> reachability_health False any = 0 \<and> verified_health False any = 0"
proof -
  have "max 0 (55 - uint latency div 12) < 100 - min (uint latency div 8) 90" by (rule ceiling_gap) simp
  then have "reachability_health True (Some latency) < verified_health True (Some latency)"
    unfolding word_less_def reachability_health_value verified_health_value .
  moreover have "max 0 (55 - uint latency div 12) \<le> 55" by (simp add: pos_imp_zdiv_nonneg_iff)
  then have "reachability_health True (Some latency) \<le> 55"
    unfolding word_le_def reachability_health_value by simp
  moreover have "reachability_health True None < verified_health True None"
    by (simp add: reachability_health_def verified_health_def REACHABILITY_HEALTH_CEILING_def clamp_def)
  ultimately show ?thesis by (simp add: reachability_health_def verified_health_def)
qed

text \<open>
  Across latencies the order is not kept: a socket-only reading of 0 ms has 55, a verified reading
  of 400 ms has 50.
\<close>

lemma socket_only_outscores_slow_verified:
  "verified_health True (Some 400) < reachability_health True (Some 0)"
  by (simp add: reachability_health_def verified_health_def REACHABILITY_HEALTH_CEILING_def clamp_def)

section \<open>A sweep of the catalog\<close>

definition sweep_reading :: "u32 \<Rightarrow> probe_outcome \<Rightarrow> metric_update" where
  "sweep_reading node_id x = \<lparr>mu_node_id = node_id, mu_latency_ms = unwrap_or UNTESTED_LATENCY (po_latency_ms x),
     mu_health_score = reachability_health (probe_alive x) (po_latency_ms x), mu_verified = False\<rparr>"

lemma set_map_filter_zip:
  "set (List.map_filter f (zip xs ys)) = {r. \<exists>i. i < length xs \<and> i < length ys \<and> f (xs ! i, ys ! i) = Some r}"
proof (induction xs ys rule: list_induct2')
  case (4 x xs y ys)
  have "{r. \<exists>i. i < length (x # xs) \<and> i < length (y # ys) \<and> f ((x # xs) ! i, (y # ys) ! i) = Some r}
      = {r. f (x, y) = Some r} \<union> {r. \<exists>i. i < length xs \<and> i < length ys \<and> f (xs ! i, ys ! i) = Some r}"
    by (auto simp: less_Suc_eq_0_disj)
  with 4 show ?case by (cases "f (x, y)") (auto simp: map_filter_simps)
qed (simp_all add: map_filter_simps)

lemma probe_batch_total:
  assumes "\<And>i. i < length nodes \<Longrightarrow> \<not> panics i"
  shows "probe_batch engine nets panics nodes depth
     = map (\<lambda>i. probe engine (nets i) (nodes ! i) depth) [0..<length nodes]"
proof -
  have "filter (\<lambda>(i, node). \<not> panics i) (enumerate 0 nodes) = enumerate 0 nodes"
    by (rule filter_True) (use assms in \<open>auto simp: in_set_enumerate_eq\<close>)
  then show ?thesis
    by (intro nth_equalityI) (simp_all add: probe_batch_def nth_enumerate_eq)
qed

text \<open>
  When no probe task panics, a sweep writes exactly one socket-only reading for every
  target whose probe proved something, from the probe of that target's own node, and nothing for the
  rest.
\<close>

theorem sweep_writes_exactly:
  assumes "\<And>i. i < length targets \<Longrightarrow> \<not> panics i"
  shows "set (sweep_results targets (probe_batch engine nets panics (map snd targets) L4Ping))
     = {sweep_reading (fst (targets ! i)) (probe engine (nets i) (snd (targets ! i)) L4Ping) | i.
          i < length targets \<and> \<not> is_unknown (probe engine (nets i) (snd (targets ! i)) L4Ping)}"
proof -
  let ?out = "\<lambda>i. probe engine (nets i) (snd (targets ! i)) L4Ping"
  let ?batch = "probe_batch engine nets panics (map snd targets) L4Ping"
  have "?batch = map (\<lambda>i. probe engine (nets i) (map snd targets ! i) L4Ping) [0..<length (map snd targets)]"
    by (rule probe_batch_total) (use assms in simp)
  then have out: "length ?batch = length targets" "i < length targets \<Longrightarrow> ?batch ! i = ?out i" for i by simp_all
  have "sweep_results targets ?batch = List.map_filter (\<lambda>(t, x). if is_unknown x then None
      else Some (sweep_reading (fst t) x)) (zip targets ?batch)"
    unfolding sweep_results_def
    by (rule arg_cong[where f = "\<lambda>f. List.map_filter f (zip targets ?batch)"])
      (simp add: fun_eq_iff sweep_reading_def)
  then have "set (sweep_results targets ?batch) = {r. \<exists>i. i < length targets \<and> i < length ?batch \<and>
      (if is_unknown (?batch ! i) then None else Some (sweep_reading (fst (targets ! i)) (?batch ! i))) = Some r}"
    by (simp only: set_map_filter_zip prod.case)
  also have "\<dots> = {r. \<exists>i. i < length targets \<and> \<not> is_unknown (?out i) \<and> r = sweep_reading (fst (targets ! i)) (?out i)}"
    using out by (intro Collect_cong ex_cong1) (auto split: if_splits)
  finally show ?thesis by blast
qed

text \<open>
  A task that panics is left out of the batch, and the later outcomes move up by one: the reading of
  the second target is then filed under the id of the first.
\<close>

lemma panic_shifts_sweep:
  "sweep_results [(a, m), (b, n)] (probe_batch engine nets (\<lambda>i. i = 0) [m, n] L4Ping)
     = sweep_results [(a, n)] [probe engine (nets 1) n L4Ping]"
  by (simp add: sweep_results_def probe_batch_def map_filter_simps)

theorem sweep_writes_exactly_witness:
  "set (sweep_results [(5, sample_node ''a'' ''a.example'' 443)]
       (probe_batch (ProbeEngine_new ProbeConfig_default) (\<lambda>i. sample_net) (\<lambda>i. False)
         (map snd [(5 :: u32, sample_node ''a'' ''a.example'' 443)]) L4Ping))
     = {sweep_reading 5 (probe (ProbeEngine_new ProbeConfig_default) sample_net (sample_node ''a'' ''a.example'' 443) L4Ping) | i.
          i < (1 :: nat) \<and> \<not> is_unknown (probe (ProbeEngine_new ProbeConfig_default) sample_net
            (sample_node ''a'' ''a.example'' 443) L4Ping)}"
  using sweep_writes_exactly[of "[(5 :: u32, sample_node ''a'' ''a.example'' 443)]" "\<lambda>i. False"
      "ProbeEngine_new ProbeConfig_default" "\<lambda>i. sample_net"] by auto

text \<open>
  The simulated numbers are meant for a catalog that is not backed by a database, but a database that
  fails to load (one corrupt payload is enough) takes the same branch: every row of the published
  store, demo or not, gets a number that no probe produced.
\<close>

lemma load_error_fabricates:
  "map mu_node_id (snd (probe_all_clicked up (Inl e) runtime batch ids)) = ids \<and>
   (\<forall>r \<in> set (snd (probe_all_clicked up (Inl e) runtime batch ids)). 25 \<le> mu_latency_ms r \<and> mu_latency_ms r < 575
      \<and> \<not> mu_verified r)"
proof -
  have "25 \<le> (25 + ucast ((x * 37) mod 550) :: u16) \<and> 25 + ucast ((x * 37) mod 550) < (575 :: u16)" for x :: u32
  proof -
    have "unat ((x * 37) mod 550) < 550" by (simp add: unat_mod)
    moreover from this have "unat (ucast ((x * 37) mod 550) :: u16) = unat ((x * 37) mod 550)"
      by (simp add: unsigned_ucast_eq take_bit_nat_eq_self)
    ultimately have "unat (25 + ucast ((x * 37) mod 550) :: u16) = 25 + unat ((x * 37) mod 550)"
      by (simp add: unat_plus_simple[THEN iffD1] unat_word_ariths)
    with \<open>unat ((x * 37) mod 550) < 550\<close> show ?thesis by (simp add: word_le_nat_alt word_less_nat_alt)
  qed
  then show ?thesis by (simp add: probe_all_clicked_def simulated_results_def Let_def comp_def)
qed

text \<open>An empty variable counts as set, and the database lands below the working directory.\<close>

lemma empty_xdg_is_relative: "default_db_path (Some []) home temp = ''myproxy/myproxy.db''"
  by (simp add: default_db_path_def path_join_def starts_with_def Let_def)

section \<open>An empty catalog\<close>

lemma demo_store_len: "n < 2 ^ 32 \<Longrightarrow> store_len (demo_store uni n) = n"
proof -
  assume "n < 2 ^ 32"
  moreover have "length (concat (map hr_source_sub_ids (map demo_row xs))) = length xs" for xs
    by (induction xs) (simp_all add: demo_row_def Let_def)
  ultimately have "store_rep uni (demo_store uni n) (map clamp_row (map demo_row [0..<n]))"
    unfolding demo_store_def by (intro from_hot_rows_rep) simp
  then show ?thesis by (simp add: store_rep_def columns_rep_def store_len_def)
qed

text \<open>
  Without any argument an empty catalog, and one that cannot be loaded, is replaced by ten thousand made-up nodes which
  the status line calls nodes from the local catalog; the text for an empty catalog is
  never shown.
\<close>

lemma empty_catalog_shows_demo:
  assumes "case loaded of Inl e \<Rightarrow> True | Inr st \<Rightarrow> store_is_empty st"
  shows "initial_status (store_len (startup_store uni [] loaded)) = ''10000 nodes from local catalog''"
proof -
  have "startup_store uni [] loaded = demo_store uni 10000"
    using assms by (cases loaded) (simp_all add: startup_store_def demo_count_def flag_value_def has_flag_def)
  moreover have "show_nat 10000 = ''10000''"
    by (simp add: show_nat_def show_radix.simps[of 10] digit_char_def char_of_def bit_iff_odd)
  ultimately show ?thesis by (simp add: demo_store_len initial_status_def)
qed

end
