(* ===== verification/List_View.thy ===== *)
theory List_View
  imports Gui Repository
begin

text \<open>
  The list view as a running system: the UI thread, the projection worker, the metric worker and
  the import button of \<open>crates/gui/src/main.rs\<close> act on the published pair and on the list model of
  \<^theory_text>\<open>Gui\<close> in any order.  Every reachable state renders each row it announces, finds each row by its
  node id, and never installs a projection of a store that is no longer served.
\<close>

section \<open>The system\<close>

record ui_state =
  ui_published :: published
  ui_model :: node_model

text \<open>
  The store pointer is published before the arena pointer, and the worker loads the store before
  the arena, so a projection may see any arena; \<open>arena_stored\<close> stands for the metric worker's
  publications and for the second half of a replacement.
\<close>

definition serve_store :: "dense_node_store \<Rightarrow> published \<Rightarrow> published" where
  "serve_store st pu = \<lparr>pu_version = pu_version pu + 1, pu_pair = (pu_pair pu)\<lparr>ss_store := st\<rparr>\<rparr>"

definition put_arena :: "metrics_arena \<Rightarrow> published \<Rightarrow> published" where
  "put_arena m pu = pu\<lparr>pu_pair := (pu_pair pu)\<lparr>ss_metrics := m\<rparr>\<rparr>"

definition catalog_ok :: "(string \<Rightarrow> string) \<Rightarrow> dense_node_store \<Rightarrow> bool" where
  "catalog_ok uni st \<longleftrightarrow> store_ok uni st \<and> distinct (ds_node_ids st)"

inductive ui_step :: "(string \<Rightarrow> string) \<Rightarrow> ui_state \<Rightarrow> ui_state \<Rightarrow> bool" for uni where
  view_changed: "ui_step uni u (u\<lparr>ui_model := model_refresh v (ui_model u)\<rparr>)"
| take: "worker_take uni (put_arena m (ui_published u)) (ui_model u) = Some md \<Longrightarrow>
    ui_step uni u (u\<lparr>ui_model := md\<rparr>)"
| send: "ui_step uni u (u\<lparr>ui_model := worker_send (ui_model u)\<rparr>)"
| apply_projection:
    "ui_step uni u (u\<lparr>ui_model := snd (apply_completed_projection (ui_published u) (ui_model u))\<rparr>)"
| notify: "ui_step uni u (u\<lparr>ui_model := snd (notify_metrics ids (ui_model u))\<rparr>)"
| select: "ui_step uni u (u\<lparr>ui_model := select_node nid (ui_model u)\<rparr>)"
| store_served: "catalog_ok uni st \<Longrightarrow> ui_step uni u (u\<lparr>ui_published := serve_store st (ui_published u)\<rparr>)"
| arena_stored: "ui_step uni u (u\<lparr>ui_published := put_arena m (ui_published u)\<rparr>)"

inductive ui_reachable :: "(string \<Rightarrow> string) \<Rightarrow> ui_state \<Rightarrow> bool" for uni where
  start: "catalog_ok uni (ss_store (pu_pair pu)) \<Longrightarrow> model_new uni pu v = Some md \<Longrightarrow>
    ui_reachable uni \<lparr>ui_published = pu, ui_model = md\<rparr>"
| step: "ui_reachable uni u \<Longrightarrow> ui_step uni u u' \<Longrightarrow> ui_reachable uni u'"

text \<open>
  The import button: the imported catalog is committed, loaded and published, and the view is
  asked for again; a failure at any point leaves the list as it was.
\<close>

definition import_catalog ::
    "(string \<Rightarrow> string) \<Rightarrow> parse_env \<Rightarrow> sqlite \<Rightarrow> string \<Rightarrow> u64 \<Rightarrow> string \<Rightarrow> dense_node_store sql" where
  "import_catalog uni pe sq new_uuid now raw =
     (if trim raw = [] then sql_raise ''empty import payload''
      else sql_bind (import_subscription pe sq new_uuid now raw ''Imported'' ''clipboard'') (\<lambda>rf.
        if ir_successful_nodes (rf_report rf) = []
        then sql_raise ''no supported nodes found in that payload''
        else controller_hydrate uni sq))"

definition import_clicked ::
    "(string \<Rightarrow> string) \<Rightarrow> parse_env \<Rightarrow> sqlite \<Rightarrow> string \<Rightarrow> u64 \<Rightarrow> string \<Rightarrow> view_state \<Rightarrow> ui_state \<Rightarrow> connection
      \<Rightarrow> string \<times> ui_state \<times> connection" where
  "import_clicked uni pe sq new_uuid now raw view u c =
     (case import_catalog uni pe sq new_uuid now raw c of
        (Inl e, c') \<Rightarrow> (''Import failed: '' @ e, u, c')
      | (Inr st, c') \<Rightarrow> (''Imported '' @ show_nat (store_len st) @ '' new node(s)'',
          u\<lparr>ui_published := put_arena (from_store st) (serve_store st (ui_published u)),
            ui_model := model_refresh view (ui_model u)\<rparr>, c'))"

section \<open>Projections\<close>

definition projected_ok :: "(string \<Rightarrow> string) \<Rightarrow> projected \<Rightarrow> bool" where
  "projected_ok uni pj \<longleftrightarrow> catalog_ok uni (pj_store pj) \<and> distinct (pj_indices pj) \<and>
     (\<forall>ix \<in> set (pj_indices pj). unat ix < store_len (pj_store pj))"

definition row_id :: "projected \<Rightarrow> nat \<Rightarrow> u32" where
  "row_id pj row = ds_node_ids (pj_store pj) ! unat (pj_indices pj ! row)"

lemma row_id_inj:
  assumes "projected_ok uni pj" and "i < length (pj_indices pj)" and "j < length (pj_indices pj)"
    and "row_id pj i = row_id pj j"
  shows "i = j"
proof -
  have "unat (pj_indices pj ! i) = unat (pj_indices pj ! j)"
    using assms by (simp add: projected_ok_def catalog_ok_def row_id_def store_len_def nth_eq_iff_index_eq)
  then have "pj_indices pj ! i = pj_indices pj ! j" by (rule word_unat_eq_iff[THEN iffD2])
  then show ?thesis using assms(1-3) by (simp add: projected_ok_def nth_eq_iff_index_eq)
qed

lemma reverse_from_values:
  "reverse_from row st ixs acc nid = Some r \<Longrightarrow>
     acc nid = Some r \<or> (\<exists>k < length ixs. r = row + k \<and> unat (ixs ! k) < store_len st \<and> ds_node_ids st ! unat (ixs ! k) = nid)"
proof (induction row st ixs acc rule: reverse_from.induct)
  case (1 row st acc)
  then show ?case by simp
next
  case (2 row st ix ixs acc)
  let ?acc = "if store_len st \<le> unat ix then acc else acc(ds_node_ids st ! unat ix \<mapsto> row)"
  from 2 have "?acc nid = Some r \<or> (\<exists>k < length ixs. r = row + 1 + k \<and> unat (ixs ! k) < store_len st
      \<and> ds_node_ids st ! unat (ixs ! k) = nid)" by simp
  then show ?case
  proof
    assume "?acc nid = Some r"
    then have "acc nid = Some r \<or> (r = row \<and> unat ix < store_len st \<and> ds_node_ids st ! unat ix = nid)"
      by (auto split: if_splits)
    then show ?thesis by force
  next
    assume "\<exists>k < length ixs. r = row + 1 + k \<and> unat (ixs ! k) < store_len st \<and> ds_node_ids st ! unat (ixs ! k) = nid"
    then obtain k where "k < length ixs" "r = row + 1 + k" "unat (ixs ! k) < store_len st"
      "ds_node_ids st ! unat (ixs ! k) = nid" by blast
    then have "Suc k < length (ix # ixs) \<and> r = row + Suc k \<and> unat ((ix # ixs) ! Suc k) < store_len st
      \<and> ds_node_ids st ! unat ((ix # ixs) ! Suc k) = nid" by simp
    then show ?thesis by blast
  qed
qed

lemma reverse_from_keeps: "acc nid \<noteq> None \<Longrightarrow> reverse_from row st ixs acc nid \<noteq> None"
  by (induction row st ixs acc rule: reverse_from.induct) (auto split: if_splits)

lemma reverse_from_covers:
  "k < length ixs \<Longrightarrow> unat (ixs ! k) < store_len st \<Longrightarrow>
     reverse_from row st ixs acc (ds_node_ids st ! unat (ixs ! k)) \<noteq> None"
proof (induction row st ixs acc arbitrary: k rule: reverse_from.induct)
  case (1 row st acc)
  then show ?case by simp
next
  case (2 row st ix ixs acc)
  show ?case
  proof (cases k)
    case 0
    with 2 show ?thesis by (simp add: reverse_from_keeps)
  next
    case (Suc j)
    with 2 show ?thesis by simp
  qed
qed

lemma rebuild_reverse_iff:
  assumes ok: "projected_ok uni pj"
  shows "rebuild_reverse pj nid = Some row \<longleftrightarrow> row < length (pj_indices pj) \<and> row_id pj row = nid"
proof
  assume "rebuild_reverse pj nid = Some row"
  from reverse_from_values[OF this[unfolded rebuild_reverse_def]]
  show "row < length (pj_indices pj) \<and> row_id pj row = nid" by (auto simp: row_id_def)
next
  assume row: "row < length (pj_indices pj) \<and> row_id pj row = nid"
  then have "rebuild_reverse pj nid \<noteq> None"
    using ok reverse_from_covers[of row "pj_indices pj" "pj_store pj" 0 Map.empty]
    by (auto simp: rebuild_reverse_def row_id_def projected_ok_def)
  then obtain r where r: "rebuild_reverse pj nid = Some r" by blast
  from reverse_from_values[OF this[unfolded rebuild_reverse_def]]
  have "r < length (pj_indices pj)" "row_id pj r = nid" by (auto simp: row_id_def)
  with row row_id_inj[OF ok, of r row] r show "rebuild_reverse pj nid = Some row" by simp
qed

lemma project_now_runs:
  assumes "catalog_ok uni (ss_store (pu_pair pu))"
  obtains pj where "project_now uni v pu = Some pj" and "projected_ok uni pj"
    and "pj_version pj = pu_version pu" and "pj_store pj = ss_store (pu_pair pu)"
    and "projection uni v (ss_store (pu_pair pu)) (ss_metrics (pu_pair pu)) = Some (pj_indices pj)"
proof -
  obtain rows where rows: "store_rep uni (ss_store (pu_pair pu)) rows" "length rows \<le> 2 ^ 32"
    using assms by (auto simp: catalog_ok_def store_ok_def)
  have len: "store_len (ss_store (pu_pair pu)) = length rows"
    using rows(1) by (simp add: store_rep_def columns_rep_def store_len_def)
  have "case None of None \<Rightarrow> True | Some (l, h) \<Rightarrow> length rows \<le> l \<and> length rows \<le> h" by simp
  from run_query_exact[OF rows this] obtain ixs where
    "projection uni v (ss_store (pu_pair pu)) (ss_metrics (pu_pair pu)) = Some ixs" "distinct ixs"
    "unat ` set ixs = {i. i < length rows \<and> row_matches_spec uni (vs_search_text v) (vs_country_filter v)
       (vs_subscription_filter v) (rows ! i)}"
    unfolding projection_def query_with_metrics_def by blast
  then have ixs: "projection uni v (ss_store (pu_pair pu)) (ss_metrics (pu_pair pu)) = Some ixs" "distinct ixs"
    "\<forall>ix \<in> set ixs. unat ix < length rows" by auto
  show ?thesis
    by (rule that[of "\<lparr>pj_version = pu_version pu, pj_store = ss_store (pu_pair pu), pj_indices = ixs\<rparr>"])
      (use ixs assms len in \<open>auto simp: project_now_def projected_ok_def\<close>)
qed

section \<open>Reachable states\<close>

text \<open>A projection of the version being served is a projection of the store being served.\<close>

definition current_ok :: "(string \<Rightarrow> string) \<Rightarrow> published \<Rightarrow> projected \<Rightarrow> bool" where
  "current_ok uni pu pj \<longleftrightarrow> projected_ok uni pj \<and> pj_version pj \<le> pu_version pu \<and>
     (pj_version pj = pu_version pu \<longrightarrow> pj_store pj = ss_store (pu_pair pu))"

definition ui_ok :: "(string \<Rightarrow> string) \<Rightarrow> ui_state \<Rightarrow> bool" where
  "ui_ok uni u \<longleftrightarrow> catalog_ok uni (ss_store (pu_pair (ui_published u))) \<and>
     projected_ok uni (md_projection (ui_model u)) \<and>
     md_reverse (ui_model u) = rebuild_reverse (md_projection (ui_model u)) \<and>
     (\<forall>pj \<in> set (md_results (ui_model u)). current_ok uni (ui_published u) pj) \<and>
     (\<forall>pj. md_in_flight (ui_model u) = Some pj \<longrightarrow> current_ok uni (ui_published u) pj)"

lemma current_ok_serve_store: "current_ok uni pu pj \<Longrightarrow> current_ok uni (serve_store st pu) pj"
  by (auto simp: current_ok_def serve_store_def)

lemma current_ok_put_arena: "current_ok uni (put_arena m pu) pj \<longleftrightarrow> current_ok uni pu pj"
  by (simp add: current_ok_def put_arena_def)

lemma worker_take_ok:
  assumes "ui_ok uni u" and "worker_take uni (put_arena m (ui_published u)) (ui_model u) = Some md"
  shows "ui_ok uni (u\<lparr>ui_model := md\<rparr>)"
proof -
  have "catalog_ok uni (ss_store (pu_pair (put_arena m (ui_published u))))"
    using assms(1) by (simp add: ui_ok_def put_arena_def)
  then obtain pj where "project_now uni (last (md_requests (ui_model u))) (put_arena m (ui_published u)) = Some pj"
    and pj: "projected_ok uni pj" "pj_version pj = pu_version (put_arena m (ui_published u))"
      "pj_store pj = ss_store (pu_pair (put_arena m (ui_published u)))"
    by (rule project_now_runs)
  moreover from pj have "current_ok uni (ui_published u) pj" by (simp add: current_ok_def put_arena_def)
  ultimately show ?thesis
    using assms by (auto simp: worker_take_def ui_ok_def split: if_splits)
qed

lemma apply_completed_ok:
  assumes "ui_ok uni u"
  shows "ui_ok uni (u\<lparr>ui_model := snd (apply_completed_projection (ui_published u) (ui_model u))\<rparr>)"
proof (cases "md_results (ui_model u) = []")
  case True
  with assms show ?thesis by (simp add: apply_completed_projection_def)
next
  case False
  then have "current_ok uni (ui_published u) (last (md_results (ui_model u)))" using assms by (simp add: ui_ok_def)
  with assms False show ?thesis
    by (simp add: apply_completed_projection_def Let_def ui_ok_def request_latest_def current_ok_def)
qed

lemma ui_step_ok: "ui_step uni u u' \<Longrightarrow> ui_ok uni u \<Longrightarrow> ui_ok uni u'"
proof (induction rule: ui_step.induct)
  case (view_changed u v)
  then show ?case by (simp add: ui_ok_def model_refresh_def request_latest_def)
next
  case (take m u md)
  then show ?case by (blast intro: worker_take_ok)
next
  case (send u)
  then show ?case by (auto simp: ui_ok_def worker_send_def split: option.splits)
next
  case (apply_projection u)
  then show ?case by (rule apply_completed_ok)
next
  case (notify u ids)
  then show ?case by (simp add: ui_ok_def notify_metrics_def Let_def)
next
  case (select u nid)
  then show ?case by (simp add: ui_ok_def select_node_def Let_def)
next
  case (store_served st u)
  then show ?case by (auto simp: ui_ok_def intro: current_ok_serve_store) (simp add: serve_store_def)
next
  case (arena_stored u m)
  then show ?case by (simp add: ui_ok_def current_ok_put_arena) (simp add: put_arena_def)
qed

lemma ui_reachable_ok: "ui_reachable uni u \<Longrightarrow> ui_ok uni u"
proof (induction rule: ui_reachable.induct)
  case (start pu v md)
  from start(1) obtain pj where "project_now uni v pu = Some pj" "projected_ok uni pj"
    by (rule project_now_runs)
  with start show ?case by (auto simp: model_new_def ui_ok_def bind_eq_Some_conv split: if_splits)
next
  case (step u u')
  then show ?case by (blast intro: ui_step_ok)
qed

lemma row_data_iff:
  assumes "projected_ok uni (md_projection md)"
  shows "(\<exists>d. row_data pu md row = Some d \<and> rd_id d = nid)
     \<longleftrightarrow> row < row_count md \<and> row_id (md_projection md) row = nid"
proof (cases "row < length (pj_indices (md_projection md))")
  case True
  with assms have "unat (pj_indices (md_projection md) ! row) < store_len (pj_store (md_projection md))"
    by (simp add: projected_ok_def)
  with True show ?thesis by (auto simp: row_data_def row_count_def row_id_def vec_get_def Let_def)
next
  case False
  then show ?thesis by (simp add: row_data_def row_count_def vec_get_def)
qed

text \<open>
  Readings are looked up in the arena being served, by the positions of the installed projection.
  Between a replacement and the next projection a row of the old catalog therefore shows the reading,
  and the verified mark, of whatever node took its position.
\<close>

lemma replaced_catalog_relabels_rows:
  assumes "projected_ok uni (md_projection md)" and "row < row_count md"
  shows "\<exists>d ix. row_data (put_arena (from_store st) (serve_store st pu)) md row = Some d \<and>
     rd_name d = ds_names (pj_store (md_projection md)) ! ix \<and>
     rd_latency d = latency_display (unwrap_or UNTESTED_LATENCY (vec_get (ds_latencies_ms st) ix))
       (is_verified (from_store st) ix)"
proof -
  have "unat (pj_indices (md_projection md) ! row) < store_len (pj_store (md_projection md))"
    using assms by (simp add: row_count_def projected_ok_def)
  then show ?thesis
    using assms(2) by (auto simp: row_data_def row_count_def vec_get_def put_arena_def serve_store_def from_store_def Let_def)
qed

text \<open>
  Claim C35.  In every reachable state the list renders exactly the rows it announces, and the
  node-to-row map is the inverse of what is rendered: a metric notification for a node reaches the
  row that shows it, and no other.  A projection that is installed is a projection of the store
  being served.
\<close>

theorem list_view_consistent:
  assumes "ui_reachable uni u"
  shows "(\<forall>row. row_data (ui_published u) (ui_model u) row \<noteq> None \<longleftrightarrow> row < row_count (ui_model u)) \<and>
     (\<forall>nid row. md_reverse (ui_model u) nid = Some row
        \<longleftrightarrow> (\<exists>d. row_data (ui_published u) (ui_model u) row = Some d \<and> rd_id d = nid)) \<and>
     (\<forall>md. apply_completed_projection (ui_published u) (ui_model u) = (True, md)
        \<longrightarrow> pj_store (md_projection md) = ss_store (pu_pair (ui_published u)))"
proof (intro conjI allI impI)
  have ok: "ui_ok uni u" using assms by (rule ui_reachable_ok)
  then have pj: "projected_ok uni (md_projection (ui_model u))" by (simp add: ui_ok_def)
  show "row_data (ui_published u) (ui_model u) row \<noteq> None \<longleftrightarrow> row < row_count (ui_model u)" for row
    using row_data_iff[OF pj, of "ui_published u" row] by (cases "row_data (ui_published u) (ui_model u) row") auto
  show "md_reverse (ui_model u) nid = Some row
     \<longleftrightarrow> (\<exists>d. row_data (ui_published u) (ui_model u) row = Some d \<and> rd_id d = nid)" for nid row
    using ok rebuild_reverse_iff[OF pj] row_data_iff[OF pj] by (simp add: ui_ok_def row_count_def)
  show "pj_store (md_projection md) = ss_store (pu_pair (ui_published u))"
    if "apply_completed_projection (ui_published u) (ui_model u) = (True, md)" for md
  proof (cases "md_results (ui_model u) = []")
    case False
    with ok have "current_ok uni (ui_published u) (last (md_results (ui_model u)))" by (simp add: ui_ok_def)
    with that False show ?thesis
      by (auto simp: apply_completed_projection_def Let_def current_ok_def split: if_splits)
  qed (use that in \<open>simp add: apply_completed_projection_def\<close>)
qed

section \<open>A request settles\<close>

text \<open>
  The UI thread drains the results, the worker delivers what is in flight, takes the requests and
  delivers, and the UI thread drains again.
\<close>

definition settle :: "(string \<Rightarrow> string) \<Rightarrow> published \<Rightarrow> node_model \<Rightarrow> (bool \<times> node_model) option" where
  "settle uni pu md =
     map_option (\<lambda>md1. apply_completed_projection pu (worker_send md1))
       (worker_take uni pu (worker_send (snd (apply_completed_projection pu md))))"

lemma drained:
  "md_results (snd (apply_completed_projection pu md)) = [] \<and>
   md_in_flight (snd (apply_completed_projection pu md)) = md_in_flight md \<and>
   md_requests (snd (apply_completed_projection pu md)) \<in> {md_requests md, md_requests md @ [md_desired_view md]}"
  by (simp add: apply_completed_projection_def request_latest_def Let_def)

lemma settle_shows:
  assumes cat: "catalog_ok uni (ss_store (pu_pair pu))"
  shows "\<exists>md'. settle uni pu (model_refresh v md) = Some (True, md') \<and>
     pj_store (md_projection md') = ss_store (pu_pair pu) \<and>
     projection uni v (ss_store (pu_pair pu)) (ss_metrics (pu_pair pu)) = Some (pj_indices (md_projection md'))"
proof -
  let ?a = "snd (apply_completed_projection pu (model_refresh v md))"
  let ?b = "worker_send ?a"
  have "md_requests (model_refresh v md) \<noteq> []" "last (md_requests (model_refresh v md)) = v"
    "md_desired_view (model_refresh v md) = v" by (simp_all add: model_refresh_def request_latest_def)
  with drained[of pu "model_refresh v md"]
  have req: "md_requests ?a \<noteq> []" "last (md_requests ?a) = v" and res: "md_results ?a = []" by auto
  have b: "md_requests ?b = md_requests ?a" "md_in_flight ?b = None" "length (md_results ?b) < 4"
    using res by (auto simp: worker_send_def split: option.splits)
  obtain pj where pj: "project_now uni v pu = Some pj" "pj_version pj = pu_version pu"
      "pj_store pj = ss_store (pu_pair pu)"
      "projection uni v (ss_store (pu_pair pu)) (ss_metrics (pu_pair pu)) = Some (pj_indices pj)"
    using cat by (rule project_now_runs)
  have "worker_take uni pu ?b = Some (?b\<lparr>md_requests := [], md_in_flight := Some pj\<rparr>)"
    using req b pj(1) by (simp add: worker_take_def)
  then have "settle uni pu (model_refresh v md)
      = Some (apply_completed_projection pu (worker_send (?b\<lparr>md_requests := [], md_in_flight := Some pj\<rparr>)))"
    by (simp only: settle_def option.map)
  then show ?thesis using b(3) pj(2-4) by (simp add: worker_send_def apply_completed_projection_def Let_def)
qed

text \<open>
  Claim C36.  A change of the view settles: from any reachable state, however full the channels are,
  one round of drain, delivery, projection and delivery installs the rows of the served store that
  the new settings ask for.
\<close>

theorem view_change_settles:
  assumes "ui_reachable uni u"
  shows "\<exists>md'. settle uni (ui_published u) (model_refresh v (ui_model u)) = Some (True, md') \<and>
     pj_store (md_projection md') = ss_store (pu_pair (ui_published u)) \<and>
     projection uni v (ss_store (pu_pair (ui_published u))) (ss_metrics (pu_pair (ui_published u)))
       = Some (pj_indices (md_projection md'))"
  by (rule settle_shows) (use ui_reachable_ok[OF assms] in \<open>simp add: ui_ok_def\<close>)

definition sample_published :: published where
  "sample_published = \<lparr>pu_version = 0, pu_pair = snapshot_new (from_hot_rows id sample_rows)\<rparr>"

lemma sample_catalog_ok: "catalog_ok id (ss_store (pu_pair sample_published))"
proof -
  have "ds_node_ids (from_hot_rows id sample_rows) = [7, 3]"
    using sample_rows_rep[of id] by (simp add: store_rep_def columns_rep_def sample_rows_def clamp_row_def)
  then show ?thesis using sample_rows_ok[of id] by (simp add: catalog_ok_def sample_published_def snapshot_new_def)
qed

lemma sample_ui_reachable: "\<exists>md. ui_reachable id \<lparr>ui_published = sample_published, ui_model = md\<rparr>"
proof -
  obtain pj where "project_now id ViewState_default sample_published = Some pj" "projected_ok id pj"
    using sample_catalog_ok by (rule project_now_runs)
  then have "\<exists>md. model_new id sample_published ViewState_default = Some md"
    by (simp add: model_new_def projected_ok_def list_all_iff)
  then show ?thesis using sample_catalog_ok by (blast intro: ui_reachable.start)
qed

theorem list_view_consistent_witness:
  "\<exists>md. \<forall>row. row_data sample_published md row \<noteq> None \<longleftrightarrow> row < row_count md"
proof -
  obtain md where "ui_reachable id \<lparr>ui_published = sample_published, ui_model = md\<rparr>" using sample_ui_reachable by blast
  from list_view_consistent[OF this] show ?thesis by auto
qed

theorem view_change_settles_witness:
  "\<exists>md md'. settle id sample_published (model_refresh (set_sort_name ''name'' ViewState_default) md) = Some (True, md')"
proof -
  obtain md where "ui_reachable id \<lparr>ui_published = sample_published, ui_model = md\<rparr>" using sample_ui_reachable by blast
  from view_change_settles[OF this, of "set_sort_name ''name'' ViewState_default"] show ?thesis by auto
qed

end
