(* ===== verification/App.thy ===== *)
theory App
  imports Session List_View
begin

text \<open>
  The start of the program and its window, \<open>main\<close> of \<open>crates/gui/src/main.rs\<close> and the rest of \<open>UiDispatcher::start\<close> in
  \<open>dispatcher.rs\<close>: the arguments, opening the session, the watchdog, the first catalog and the first projection, the
  callbacks of the window, and the threads that show what happens.  The widget toolkit is a parameter: whether the window
  can be made, and whether a weak handle of it can be upgraded on the event loop's thread and on another one.
\<close>

section \<open>Arguments\<close>

record process_env =
  px_args :: "string list"
  px_xdg_data_home :: "string option"
  px_home :: "string option"
  px_temp_dir :: string
  px_sing_box_bin :: "string option"

definition gui_db_path :: "process_env \<Rightarrow> string" where
  "gui_db_path px = unwrap_or (default_db_path (px_xdg_data_home px) (px_home px) (px_temp_dir px))
     (flag_value (px_args px) ''--data-dir'')"

definition gui_sing_box :: "process_env \<Rightarrow> string" where
  "gui_sing_box px = unwrap_or ''/usr/bin/sing-box'' (or_opt (flag_value (px_args px) ''--sing-box'') (px_sing_box_bin px))"

definition gui_config_path :: "process_env \<Rightarrow> string" where
  "gui_config_path px = path_join (px_temp_dir px) ''myproxy-gui-config.json''"

definition watchdog_enabled :: "process_env \<Rightarrow> bool" where
  "watchdog_enabled px \<longleftrightarrow> \<not> has_flag (px_args px) ''--no-egress-watchdog''"

section \<open>The window\<close>

record window =
  wn_total_nodes_count :: int
  wn_status_text :: string
  wn_active_node_name :: string
  wn_watchdog_status_text :: string

definition as_i32 :: "nat \<Rightarrow> int" where
  "as_i32 n = sint (word_of_nat n :: 32 word)"

record gui_app =
  ga_session :: session
  ga_watchdog :: "proxy_controller egress_watchdog option"
  ga_view :: view_state
  ga_ui :: ui_state
  ga_window :: window
  ga_dispatcher :: dispatcher

text \<open>
  \<open>mkdir\<close> is the making of the directory a file lies in, \<open>files\<close> the databases there are, \<open>new_window\<close> the window the toolkit
  makes; \<^term>\<open>None\<close> is a panic.
\<close>

definition main_start ::
    "(string \<Rightarrow> string) \<Rightarrow> ctl_env \<Rightarrow> sqlite \<Rightarrow> codec \<Rightarrow> (string \<Rightarrow> nat \<Rightarrow> netd_stream res \<times> call_env) \<Rightarrow> (string \<Rightarrow> unit res) \<Rightarrow>
      (string \<Rightarrow> database option) \<Rightarrow> string option \<Rightarrow> core_world \<Rightarrow> window res \<Rightarrow> process_env \<Rightarrow> gui_app res option" where
  "main_start uni env sq cd conns mkdir files route core new_window px =
     (case mkdir (gui_db_path px) of
        Inl e \<Rightarrow> Some (Err e)
      | Inr _ \<Rightarrow>
          (case session_open env sq cd conns (files (gui_db_path px)) core (gui_sing_box px) (gui_config_path px)
                  (ProxySettings_default route) of
             Inl e \<Rightarrow> Some (Err e)
           | Inr se \<Rightarrow>
               (let watchdog = (if watchdog_enabled px then Some (EgressWatchdog_start (se_ctl se)) else None) in
                case controller_hydrate uni sq (se_db se) of
                  (loaded, db) \<Rightarrow>
                    (let store = startup_store uni (px_args px) loaded;
                         published = \<lparr>pu_version = 0, pu_pair = snapshot_new store\<rparr>
                     in case model_new uni published ViewState_default of
                          None \<Rightarrow> None
                        | Some model \<Rightarrow>
                            (case new_window of
                               Inl e \<Rightarrow> Some (Err e)
                             | Inr w \<Rightarrow>
                                 Some (Ok \<lparr>ga_session = se\<lparr>se_db := db\<rparr>, ga_watchdog = watchdog, ga_view = ViewState_default,
                                   ga_ui = \<lparr>ui_published = published, ui_model = model\<rparr>,
                                   ga_window = w\<lparr>wn_total_nodes_count := as_i32 (store_len store),
                                     wn_status_text := initial_status (store_len store)\<rparr>,
                                   ga_dispatcher = dispatcher_new 16384\<rparr>))))))"

text \<open>The callbacks of the window.\<close>

definition show_view :: "view_state \<Rightarrow> gui_app \<Rightarrow> gui_app" where
  "show_view v ga = ga\<lparr>ga_view := v, ga_ui := (ga_ui ga)\<lparr>ui_model := model_refresh v (ui_model (ga_ui ga))\<rparr>\<rparr>"

definition search_changed :: "string \<Rightarrow> gui_app \<Rightarrow> gui_app" where
  "search_changed q ga = show_view ((ga_view ga)\<lparr>vs_search_text := q\<rparr>) ga"

definition sort_changed :: "string \<Rightarrow> gui_app \<Rightarrow> gui_app" where
  "sort_changed name ga = show_view (set_sort_name name (ga_view ga)) ga"

definition node_selected :: "bool \<Rightarrow> int \<Rightarrow> gui_app \<Rightarrow> gui_app" where
  "node_selected up node_id ga =
     (let md = select_node (word_of_int node_id) (ui_model (ga_ui ga));
          ga = ga\<lparr>ga_ui := (ga_ui ga)\<lparr>ui_model := md\<rparr>\<rparr>
      in if up then ga\<lparr>ga_window := (ga_window ga)\<lparr>wn_active_node_name := md_active_name md\<rparr>\<rparr> else ga)"

section \<open>Threads\<close>

text \<open>A turn of the thread that shows the watchdog's status; \<^term>\<open>None\<close> is the end of the thread.\<close>

definition poller_turn :: "bool \<Rightarrow> failover_status \<Rightarrow> window \<Rightarrow> window option" where
  "poller_turn up status w =
     (if \<not> up then None
      else Some (let w = w\<lparr>wn_watchdog_status_text := watchdog_summary status\<rparr> in
        case fs_active_node status of Some active \<Rightarrow> w\<lparr>wn_active_node_name := active\<rparr> | None \<Rightarrow> w))"

text \<open>What the timer of the dispatcher does to the window.\<close>

definition timer_window :: "bool \<Rightarrow> dense_node_store \<Rightarrow> u64 \<Rightarrow> window \<Rightarrow> window" where
  "timer_window up store dropped w =
     (if \<not> up then w
      else
        let w = w\<lparr>wn_total_nodes_count := as_i32 (store_len store)\<rparr> in
        if dropped \<noteq> 0 then w\<lparr>wn_status_text := show_nat (unat dropped) @ '' demo updates dropped''\<rparr> else w)"

text \<open>
  The metric worker: turns at given times, each after the readings that have come in since the last one; it ends after the first
  turn in which its handle of the window cannot be upgraded.  What comes in after that stays in the queue.
\<close>

fun metric_loop ::
    "((u32 \<Rightarrow> metric_update option) \<Rightarrow> metric_update list) \<Rightarrow> bool \<Rightarrow> (instant \<times> metric_update list) list \<Rightarrow>
      dispatcher \<times> metric_worker \<times> store_snapshot \<Rightarrow> (dispatcher \<times> metric_worker \<times> store_snapshot) option" where
  "metric_loop order up [] x = Some x"
| "metric_loop order up ((now, arrived) # turns) (d, w, s) =
     (case metric_turn order now (fold enqueue arrived d) w s of
        None \<Rightarrow> None
      | Some (d, w, s) \<Rightarrow>
          if up then metric_loop order up turns (d, w, s)
          else Some (fold enqueue (concat (map snd turns)) d, w, s))"

definition metric_worker_start :: "instant \<Rightarrow> metric_worker" where
  "metric_worker_start now = \<lparr>mw_accumulation = Map.empty, mw_next_publish = now + METRIC_PUBLISH_INTERVAL, mw_changed = []\<rparr>"

text \<open>The end of \<open>main\<close>: the guard of the watchdog is dropped, which raises its stop flag and does not wait.\<close>

definition EgressWatchdog_drop :: "'w egress_watchdog \<Rightarrow> 'w egress_watchdog" where
  "EgressWatchdog_drop d = d\<lparr>wd_stop := True\<rparr>"

definition main_exit :: "gui_app \<Rightarrow> gui_app" where
  "main_exit ga = ga\<lparr>ga_watchdog := map_option EgressWatchdog_drop (ga_watchdog ga)\<rparr>"

section \<open>The first catalog\<close>

lemma catalog_ok_demo: "n < 2 ^ 32 \<Longrightarrow> catalog_ok uni (demo_store uni n)"
proof -
  assume n: "n < 2 ^ 32"
  have len: "length (concat (map hr_source_sub_ids (map demo_row xs))) = length xs" for xs
    by (induction xs) (simp_all add: demo_row_def Let_def)
  have rep: "store_rep uni (demo_store uni n) (map clamp_row (map demo_row [0..<n]))"
    unfolding demo_store_def by (rule from_hot_rows_rep) (use len[of "[0..<n]"] n in simp)
  have "ds_node_ids (demo_store uni n) = map (\<lambda>i. of_nat (i + 1) :: u32) [0..<n]"
    using rep by (simp add: store_rep_def columns_rep_def clamp_row_def demo_row_def Let_def)
  moreover have "inj_on (\<lambda>i. of_nat (i + 1) :: u32) {0..<n}"
  proof (rule inj_onI)
    fix a b assume ab: "a \<in> {0..<n}" "b \<in> {0..<n}" "(of_nat (a + 1) :: u32) = of_nat (b + 1)"
    then have "(of_nat a :: u32) = of_nat b" by simp
    with ab n unat_of_nat_u32 show "a = b" by (metis atLeastLessThan_iff order.strict_trans)
  qed
  ultimately have "distinct (ds_node_ids (demo_store uni n))" by (simp add: distinct_map)
  with rep n show ?thesis by (auto simp: catalog_ok_def store_ok_def)
qed

lemma catalog_ok_hydrated:
  assumes "hydrate uni db = Inr st" and "db_ok db" and "loadable db"
  shows "catalog_ok uni st"
proof -
  have rep: "store_rep uni st (catalog_rows db)"
    by (rule hydrate_rep[OF assms(1,2)]) (use assms(3) in \<open>simp add: loadable_def\<close>)
  then have "ds_node_ids st = map of_int (map nr_id (sort_key nr_id (db_nodes db)))"
    by (simp add: store_rep_def columns_rep_def catalog_rows_def catalog_row_def Let_def)
  moreover have "distinct (map (of_int :: int \<Rightarrow> u32) (map nr_id (sort_key nr_id (db_nodes db))))"
    by (rule distinct_u32_ids) (use assms(2,3) in \<open>auto simp: db_ok_def loadable_def distinct_map distinct_sort\<close>)
  ultimately show ?thesis using rep catalog_small[OF assms(2,3)] by (auto simp: catalog_ok_def store_ok_def)
qed

lemma startup_catalog_ok:
  assumes "db_ok (co_db c)" and "loadable (co_db c)" and "demo_count args < 2 ^ 32"
    and "controller_hydrate uni sq c = (loaded, c')"
  shows "catalog_ok uni (startup_store uni args loaded)"
proof (cases loaded)
  case (Inl e)
  with catalog_ok_demo[OF assms(3)] show ?thesis by (simp add: startup_store_def)
next
  case (Inr st)
  then obtain db c1 c2 u where "sql_call sq (\<lambda>db. Ok (db, db)) c = (Inr db, c1)" "sql_tick sq c1 = (Inr u, c2)" "hydrate uni db = Inr st"
    using assms(4) by (auto simp: controller_hydrate_def hydrate_from_db_def)
  with sql_call_db[of sq "\<lambda>db. Ok (db, db)" c db c1] have "hydrate uni (co_db c) = Inr st" by simp
  with catalog_ok_hydrated assms(1,2) catalog_ok_demo[OF assms(3)] Inr show ?thesis by (auto simp: startup_store_def)
qed

text \<open>With the settings of a fresh window every row is in the projection.\<close>

lemma first_projection_full:
  assumes "catalog_ok uni (ss_store (pu_pair pu))"
  shows "\<exists>md. model_new uni pu ViewState_default = Some md \<and> row_count md = store_len (ss_store (pu_pair pu)) \<and>
     ui_reachable uni \<lparr>ui_published = pu, ui_model = md\<rparr>"
proof -
  let ?st = "ss_store (pu_pair pu)" and ?m = "ss_metrics (pu_pair pu)"
  obtain rows where rows: "store_rep uni ?st rows" "length rows \<le> 2 ^ 32"
    using assms by (auto simp: catalog_ok_def store_ok_def)
  have len: "store_len ?st = length rows" using rows(1) by (simp add: store_rep_def columns_rep_def store_len_def)
  obtain pj where pj: "project_now uni ViewState_default pu = Some pj" "projected_ok uni pj" "pj_store pj = ?st"
    "projection uni ViewState_default ?st ?m = Some (pj_indices pj)" using assms by (rule project_now_runs)
  have "case None of None \<Rightarrow> True | Some (l, h) \<Rightarrow> length rows \<le> l \<and> length rows \<le> h" by simp
  from run_query_exact[OF rows this] obtain ixs where
    "projection uni ViewState_default ?st ?m = Some ixs" "distinct ixs"
    "unat ` set ixs = {i. i < length rows \<and> row_matches_spec uni (vs_search_text ViewState_default)
       (vs_country_filter ViewState_default) (vs_subscription_filter ViewState_default) (rows ! i)}"
    unfolding projection_def query_with_metrics_def by blast
  with pj(4) have "distinct (pj_indices pj)"
    "unat ` set (pj_indices pj) = {i. i < length rows \<and> row_matches_spec uni [] None None (rows ! i)}"
    by (auto simp: ViewState_default_def)
  moreover have "row_matches_spec uni [] None None r" for r
    by (auto simp: row_matches_spec_def to_lowercase_def is_ascii_def contains_str_iff to_ascii_lowercase_def)
  ultimately have "card (set (pj_indices pj)) = length rows"
    by (metis (no_types, lifting) Collect_cong card_Collect_less_nat card_image inj_onI word_unat_eq_iff)
  then have full: "length (pj_indices pj) = store_len ?st"
    using distinct_card[OF \<open>distinct (pj_indices pj)\<close>] len by simp
  from pj(1,2) obtain md where md: "model_new uni pu ViewState_default = Some md" "md_projection md = pj"
    by (simp add: model_new_def projected_ok_def list_all_iff)
  with full assms show ?thesis by (auto simp: row_count_def intro: ui_reachable.start)
qed

lemma main_start_opens:
  assumes "mkdir (gui_db_path px) = Ok ()"
    and "session_open env sq cd conns (files (gui_db_path px)) core (gui_sing_box px) (gui_config_path px) (ProxySettings_default route) = Ok se"
    and "new_window = Ok w" and "db_ok (co_db (se_db se))" and "loadable (co_db (se_db se))" and "demo_count (px_args px) < 2 ^ 32"
  shows "\<exists>ga n. main_start uni env sq cd conns mkdir files route core new_window px = Some (Ok ga) \<and>
    ui_reachable uni (ga_ui ga) \<and> se_ctl (ga_session ga) = se_ctl se \<and> (ga_watchdog ga \<noteq> None \<longleftrightarrow> watchdog_enabled px) \<and>
    n = row_count (ui_model (ga_ui ga)) \<and> n = store_len (ss_store (pu_pair (ui_published (ga_ui ga)))) \<and>
    wn_total_nodes_count (ga_window ga) = as_i32 n \<and> wn_status_text (ga_window ga) = initial_status n"
proof -
  obtain loaded db where load: "controller_hydrate uni sq (se_db se) = (loaded, db)" by (rule prod.exhaust)
  let ?st = "startup_store uni (px_args px) loaded"
  let ?pu = "\<lparr>pu_version = 0, pu_pair = snapshot_new ?st\<rparr>"
  have "catalog_ok uni (ss_store (pu_pair ?pu))"
    using startup_catalog_ok[OF assms(4-6) load] by (simp add: snapshot_new_def)
  from first_projection_full[OF this] obtain md where
    "model_new uni ?pu ViewState_default = Some md" "row_count md = store_len ?st" "ui_reachable uni \<lparr>ui_published = ?pu, ui_model = md\<rparr>"
    by (auto simp: snapshot_new_def)
  with assms(1-3) load show ?thesis by (simp add: main_start_def snapshot_new_def Let_def)
qed

lemma callbacks_reachable:
  assumes "ui_reachable uni (ga_ui ga)"
  shows "ui_reachable uni (ga_ui (search_changed q ga))" "ui_reachable uni (ga_ui (sort_changed name ga))"
    "ui_reachable uni (ga_ui (node_selected up node_id ga))"
  using assms ui_step.view_changed ui_step.select
  by (auto simp: search_changed_def sort_changed_def show_view_def node_selected_def Let_def intro: ui_reachable.step)

section \<open>Handles and threads\<close>

text \<open>
  What the toolkit documents of its weak handles: off the thread that made the window they cannot be upgraded.  \<open>up\<close> says, for
  the event loop's thread and for any other, whether they can.
\<close>

definition thread_bound :: "(bool \<Rightarrow> bool) \<Rightarrow> bool" where
  "thread_bound up \<longleftrightarrow> \<not> up False"

lemma metric_turn_early:
  "now < mw_next_publish w \<Longrightarrow> metric_turn order now d w s
     = Some (d\<lparr>di_queue := []\<rparr>, w\<lparr>mw_accumulation := accumulate (di_queue d) (mw_accumulation w)\<rparr>, s)"
  by (simp add: metric_turn_def Let_def)

lemma metric_loop_unpublished:
  assumes "now < mw_next_publish w"
  shows "\<exists>d' w'. metric_loop order False ((now, arrived) # turns) (d, w, s) = Some (d', w', s)"
  using metric_turn_early[OF assms] by simp

section \<open>Properties\<close>

text \<open>
  Claim C37.  The program starts.  When the directory and the window can be made and the database opens with its constraints
  and with values that fit their columns, \<open>main\<close> reaches its event loop without a panic, whether the catalog loads or not; the list is
  in a state the list view's theorems hold of, it shows every row of the catalog being served, the window
  announces that number, and the watchdog runs unless the arguments forbid it.
\<close>

theorem program_starts:
  assumes "mkdir (gui_db_path px) = Ok ()"
    and "session_open env sq cd conns (files (gui_db_path px)) core (gui_sing_box px) (gui_config_path px) (ProxySettings_default route) = Ok se"
    and "new_window = Ok w" and "db_ok (co_db (se_db se))" and "loadable (co_db (se_db se))" and "demo_count (px_args px) < 2 ^ 32"
  shows "\<exists>ga n. main_start uni env sq cd conns mkdir files route core new_window px = Some (Ok ga) \<and>
    ui_reachable uni (ga_ui ga) \<and> se_ctl (ga_session ga) = se_ctl se \<and> (ga_watchdog ga \<noteq> None \<longleftrightarrow> watchdog_enabled px) \<and>
    n = row_count (ui_model (ga_ui ga)) \<and> n = store_len (ss_store (pu_pair (ui_published (ga_ui ga)))) \<and>
    wn_total_nodes_count (ga_window ga) = as_i32 n \<and> wn_status_text (ga_window ga) = initial_status n"
  using assms by (rule main_start_opens)

definition sample_px :: process_env where
  "sample_px = \<lparr>px_args = [''myproxy-gui''], px_xdg_data_home = None, px_home = Some ''/h'', px_temp_dir = ''/tmp'', px_sing_box_bin = None\<rparr>"

definition sample_window :: window where
  "sample_window = \<lparr>wn_total_nodes_count = 0, wn_status_text = [], wn_active_node_name = [], wn_watchdog_status_text = []\<rparr>"

theorem program_starts_witness:
  "\<exists>ga n. main_start id session_env quiet_sqlite session_codec (\<lambda>p n. (Err ''down'', answered [])) (\<lambda>p. Ok ()) (\<lambda>p. Some session_stored)
      None no_core (Ok sample_window) sample_px = Some (Ok ga) \<and> ga_watchdog ga \<noteq> None \<and>
    n = row_count (ui_model (ga_ui ga)) \<and> wn_total_nodes_count (ga_window ga) = as_i32 n"
proof -
  obtain se where se: "session_open session_env quiet_sqlite session_codec (\<lambda>p n. (Err ''down'', answered [])) (Some session_stored) no_core
      (gui_sing_box sample_px) (gui_config_path sample_px) (ProxySettings_default None) = Ok se" "co_db (se_db se) = session_stored"
    using session_opens[of "\<lambda>p n. (Err ''down'', answered [])"] by (auto simp: session_open_def split: prod.splits sum.splits)
  have "db_ok session_stored" "loadable session_stored"
    by (simp_all add: db_ok_def loadable_def session_stored_def empty_database_def)
  moreover have "demo_count (px_args sample_px) < 2 ^ 32" "watchdog_enabled sample_px"
    by (simp_all add: demo_count_def flag_value_def sample_px_def watchdog_enabled_def has_flag_def)
  ultimately show ?thesis
    using program_starts[of "\<lambda>p. Ok ()" sample_px session_env quiet_sqlite session_codec "\<lambda>p n. (Err ''down'', answered [])"
        "\<lambda>p. Some session_stored" no_core None se "Ok sample_window" sample_window id] se by auto
qed

text \<open>
  With handles that belong to one thread nothing measured is shown: the metric worker ends with its first turn, which
  comes before its first publication, so whatever arrives then or later the published pair is the one of the start; the rescore
  button does nothing; and the thread that shows the watchdog's status ends before it has shown anything.
\<close>

theorem off_thread_handles_silence_measurements:
  assumes "thread_bound up" and "now < started + METRIC_PUBLISH_INTERVAL"
  shows "(\<exists>d w. metric_loop order (up False) ((now, arrived) # turns) (dispatcher_new 16384, metric_worker_start started, s) = Some (d, w, s)) \<and>
    rescore_clicked (up False) loaded shortlist = ([], []) \<and> poller_turn (up False) status w0 = None"
  using assms metric_loop_unpublished[of now "metric_worker_start started"]
  by (simp add: thread_bound_def rescore_clicked_def poller_turn_def metric_worker_start_def del: metric_loop.simps)

theorem off_thread_handles_silence_measurements_witness:
  "\<exists>d w. metric_loop by_id False
      [(10, [\<lparr>mu_node_id = 7, mu_latency_ms = 5, mu_health_score = 50, mu_verified = False\<rparr>]), (from_millis 200, [])]
      (dispatcher_new 16384, metric_worker_start 0, snapshot_new (from_hot_rows id sample_rows)) = Some (d, w, snapshot_new (from_hot_rows id sample_rows))"
  using off_thread_handles_silence_measurements[of "\<lambda>ui. ui" 10 0 by_id
      "[\<lparr>mu_node_id = 7, mu_latency_ms = 5, mu_health_score = 50, mu_verified = False\<rparr>]" "[(from_millis 200, [])]"
      "snapshot_new (from_hot_rows id sample_rows)"]
  by (simp add: thread_bound_def METRIC_PUBLISH_INTERVAL_def from_millis_def del: metric_loop.simps)

text \<open>On a handle that can be upgraded everywhere the worker goes on, and the reading is published at its next turn after the interval.\<close>

lemma live_handle_publishes:
  assumes "now < mw_next_publish w" and "mw_next_publish w \<le> later"
    and "accumulate (di_queue (fold enqueue arrived d)) (mw_accumulation w) \<noteq> Map.empty"
    and "publish_metrics (order (accumulate (di_queue (fold enqueue arrived d)) (mw_accumulation w))) s = Some s1"
  shows "\<exists>d' w'. metric_loop order True [(now, arrived), (later, [])] (d, w, s) = Some (d', w', s1)"
  using assms(2-4) by (simp add: metric_turn_early[OF assms(1)]) (simp add: metric_turn_def accumulate_def Let_def)

text \<open>The value of \<open>--data-dir\<close> is used as the database file itself, not as a directory the file lies in.\<close>

lemma data_dir_is_the_file: "px_args px = [prog, ''--data-dir'', dir] \<Longrightarrow> prog \<noteq> ''--data-dir'' \<Longrightarrow> gui_db_path px = dir"
  by (simp add: gui_db_path_def flag_value_def)

end
