(* ===== verification/Spec2Isabelle.thy ===== *)
theory Spec2Isabelle
  imports Probe_Cli Netd_Host Sock_Diag App
begin

text \<open>
  Verification of Yarisugi, a desktop proxy manager written in Rust (\<open>src/crates\<close>).

  \<^bold>\<open>The program.\<close>  A subscription, a text of proxy links or a Clash document, is parsed into
  canonical nodes (\<open>parser\<close>, \<open>ir\<close>), stored in SQLite (\<open>storage\<close>), loaded into a dense column store
  and shown in a list (\<open>gui\<close>).  Probes (\<open>probe\<close>) and egress trials through a throw-away core
  (\<open>adapter/egress\<close>) measure the nodes.  The controller (\<open>controller\<close>) compiles the chosen node into
  a configuration of the sing-box core (\<open>adapter\<close>), runs the core under a supervisor, and asks the
  privileged daemon (\<open>netd\<close>, over \<open>netd-proto\<close>) to redirect the traffic of the machine to it.  A
  watchdog in the controller checks the tunnel and switches nodes; a watchdog in the daemon takes
  the redirection down when the controller's heartbeats stop.

  \<^bold>\<open>Ground.\<close>  \<^theory_text>\<open>Prelude\<close> (integers, results, comparator sorting, the automation collections),
  \<^theory_text>\<open>Rust_Str\<close> and \<^theory_text>\<open>Rust_Utf8\<close> (the string functions of Rust's standard library on UTF-8 bytes),
  \<^theory_text>\<open>Net_Addr\<close> (\<open>std::net\<close> addresses, printing and parsing).

  \<^bold>\<open>From a payload to the list.\<close>
  \<^item> \<^theory_text>\<open>IR\<close>: \<open>ir/src\<close>.  Node types, host normalisation, the canonical hash; the hash depends on the functional
    settings only.
  \<^item> \<^theory_text>\<open>Metadata\<close>, \<^theory_text>\<open>Parser\<close>, \<^theory_text>\<open>Clash\<close>, \<^theory_text>\<open>Ingest\<close>: \<open>parser/src\<close> (\<open>metadata.rs\<close>; \<open>format.rs\<close> and
    \<open>uri.rs\<close>; \<open>clash.rs\<close>; \<open>lib.rs\<close>).  A parsed link is a well-formed node of the protocol its scheme names;
    every report accounts for each entry scanned; a bundle of links yields exactly the nodes of the
    lines that parse.
  \<^item> \<^theory_text>\<open>Database\<close>, \<^theory_text>\<open>Repository\<close>: \<open>storage/src/db.rs\<close>; \<open>repository.rs\<close>, \<open>subscription_service.rs\<close> and the
    controller's import.  Tables are lists of rows under the constraints of the schema, statements are functions on
    them that fail when SQLite does.  Synchronising a subscription is all or nothing, links exactly the nodes
    of the report, and completes when the database does not fail; old files are upgraded.
  \<^item> \<^theory_text>\<open>Store\<close>, \<^theory_text>\<open>Hydrate\<close>: \<open>soa_store.rs\<close>, \<open>query_engine.rs\<close>.  The columns represent a list of
    rows (\<open>store_rep\<close>); queries over them are exact and never index out of range; the store loaded from the
    database refines its tables, so the nodes of an imported payload are the ones listed.
  \<^item> \<^theory_text>\<open>Snapshot\<close>: \<open>snapshot.rs\<close>.  The locale \<open>metric_sink\<close> states what recording a reading does
    and is interpreted on the arena and on the store: both show the same list.  \<open>shared_step\<close> interleaves the
    loads and stores of the two pointers.
  \<^item> \<^theory_text>\<open>Gui\<close>, \<^theory_text>\<open>List_View\<close>: \<open>gui/src\<close>.  The list model, its worker, batching, scores and buttons; the
    running system \<open>ui_step\<close>, in which every reachable state renders what it announces and a change of the view settles.
  \<^item> \<^theory_text>\<open>App\<close>: \<open>main\<close> of \<open>gui/src/main.rs\<close> and the threads of \<open>dispatcher.rs\<close>.  The arguments, the start and
    the end of the program, the callbacks of the window and what its threads do with weak handles.  The program starts
    into a state the theorems on the list hold of, and every callback keeps it there.

  \<^bold>\<open>From a node to the tunnel.\<close>
  \<^item> \<^theory_text>\<open>Adapter\<close>: \<open>adapter/src/lib.rs\<close>.  The compiled configuration and when compiling fails.
  \<^item> \<^theory_text>\<open>Supervisor\<close>: \<open>adapter/src/supervisor.rs\<close>.  Cores run beside the program and read their file some
    time after they were spawned or signalled.  When every core has read its file before the next configuration is
    applied, cores only ever read what the checker accepted; a counterexample shows that the condition is needed, since
    \<open>apply_config\<close> writes before it validates.
  \<^item> \<^theory_text>\<open>Netd_Client\<close>: \<open>controller/src/netd_client.rs\<close>.  Framing and one reply for each request that fits a frame.
  \<^item> \<^theory_text>\<open>Netfilter\<close>, \<^theory_text>\<open>Netd\<close>, \<^theory_text>\<open>Netd_Host\<close>: \<open>netd/src\<close>.  The rules of the daemon, what reaches the kernel, sessions, the watchdog
    and the interleaving \<open>netd_step\<close>; the locale \<open>routing_backend\<close> is interpreted on both backends.  \<^theory_text>\<open>Netd_Host\<close> has the
    commands a backend runs, with their exact traces and how each outcome decides what comes next, and the start of the daemon.
  \<^item> \<^theory_text>\<open>Controller\<close>: \<open>controller/src/proxy_controller.rs\<close> to line 420.  The session over all of these; this
    theory composes it with the daemon: what a switch asks for is granted, and expires without heartbeats.
  \<^item> \<^theory_text>\<open>Session\<close>: the same controller with its database connection (\<open>open\<close>, \<open>open_memory\<close>, \<open>load_probe_targets\<close>,
    \<open>import_subscription\<close> and the getters).  In every reachable session the candidates of the watchdog are the rows
    of the node table, imported nodes are among them and read back as they were, and a cycle never activates a node from elsewhere; the last through
    the locale \<open>choosing_hooks\<close> of \<^theory_text>\<open>Failover\<close>, interpreted on the production hooks.

  \<^bold>\<open>Measuring and switching.\<close>
  \<^item> \<^theory_text>\<open>Probe\<close>, \<^theory_text>\<open>Probe_Cli\<close>, \<^theory_text>\<open>Socket_Health\<close>, \<^theory_text>\<open>Sock_Diag\<close>: \<open>probe/src\<close>.  Verdicts on addresses, the
    command-line report, the netlink parser and grades, the netlink exchange to the byte.
  \<^item> \<^theory_text>\<open>Egress\<close>: \<open>adapter/src/egress.rs\<close>.  The exchange with a target on a script of reads, the scatter over worker
    threads and its verdict.
  \<^item> \<^theory_text>\<open>Egress_Stream\<close>: the streams below a check, \<open>PumpStream\<close>, the choice of TLS and its configuration, and the loop
    of \<open>read_http_exchange\<close> over any stream.  A check over a stream is the check of \<^theory_text>\<open>Egress\<close> on what the stream
    delivers, through a session when the target asks for TLS; the locales \<open>byte_stream\<close> and \<open>interruptible\<close>, interpreted on
    connections that may go on for ever, give that it ends by its own limits.
  \<^item> \<^theory_text>\<open>Testbed\<close>: the life of a trial, from compiling the node to the report of the checks over such streams, and
    what becomes of its core.
  \<^item> \<^theory_text>\<open>Auto_Select\<close>, \<^theory_text>\<open>Shortlist\<close>, \<^theory_text>\<open>Failover\<close>: \<open>auto_select.rs\<close> and the rest of
    \<open>proxy_controller.rs\<close>.  Ranking, the two-tier shortlist, and the failover cycle: what it takes to intervene, to switch
    and to give up the tunnel.

  \<^bold>\<open>Conventions.\<close>  A Rust \<open>str\<close> is its bytes, a HOL \<^typ>\<open>string\<close>; \<open>usize\<close> is \<^typ>\<open>nat\<close>, fixed width integers are words, \<open>f64\<close> a real
  number; an error is its message on the left of a sum, a panic is \<^term>\<open>None\<close>.  Code of other packages (SQLite,
  \<open>bincode\<close>, SHA-256, \<open>rustls\<close>, the widget toolkit, \<open>url\<close>, Base64, JSON and YAML readers, \<open>ipnet\<close>), the binaries \<open>nft\<close>, \<open>ip\<close> and sing-box, sockets and clocks
  are arguments of the definitions; what a theorem needs of them is a named hypothesis, and a witness gives an
  instance.

  \<^bold>\<open>Bounds.\<close>  Waiting for a testbed looks at the listener at most 102 times, which the deadline of the code
  allows with its pause between looks; the handshake has the three attempts of the code; the netlink parser
  takes as fuel the length of the message, which is enough exactly when no attribute it meets is empty.  The loops over streams
  are partial functions into options, where \<^term>\<open>None\<close> is not returning, and are shown to return on every connection, however
  long, whose clock does not go back, whose empty reads take time and which signals do not interrupt for ever.  Every other loop is structural or has a termination proof.

  \<^bold>\<open>Not modelled.\<close>  The window definitions and the build script, which the toolkit compiles; handshake and certificates of
  TLS, which are \<open>rustls\<close>; the length-delimited codec of the daemon's socket, a connection being its list of
  frames; the bound on concurrent dials of a probe batch; rounding of floating point numbers; tests, benchmarks and re-exports.
\<close>

section \<open>The controller and the daemon\<close>

text \<open>What the controller relies on in the parser of networks: the subnets of its default settings are networks of the
  prefix lengths they are written with.\<close>

definition parses_defaults :: "ipnet_ops \<Rightarrow> bool" where
  "parses_defaults io \<longleftrightarrow>
     (\<exists>a. parse_net4 io ''10.0.0.0/8'' = Ok (a, 8)) \<and> (\<exists>a. parse_net4 io ''172.16.0.0/12'' = Ok (a, 12)) \<and>
     (\<exists>a. parse_net4 io ''192.168.0.0/16'' = Ok (a, 16)) \<and> (\<exists>a. parse_net6 io ''fc00::/7'' = Ok (a, 7))"

lemma default_request_valid:
  assumes "parses_defaults io"
  shows "\<exists>config. Netd.validate_config io (request_of (settings_spec (ProxySettings_default route))) = Ok config"
  using assms
  by (auto simp: parses_defaults_def validate_config_def request_of_def settings_spec_def ProxySettings_default_def SINGLE_FW_MARK_def
      parse_bypass4_def parse_bypass6_def dns_unroutable_def is_unspecified_v4_def is_multicast_v4_def is_broadcast_v4_def octets_v4_def)

lemma default_request_enables:
  assumes "parses_defaults io" "active_session (ap_state ap) \<in> {None, Some sid}"
    and "\<forall>settings. \<exists>k. be_enable be settings (ap_kernel ap) = (Ok (), k)"
  shows "\<exists>ap'. process_request io be (EnableRouting sid (request_of (settings_spec (ProxySettings_default route)))) sid now ap
      = (Ok RoutingEnabled, ap') \<and>
    routing_active (ap_state ap') \<and> active_session (ap_state ap') = Some sid \<and> last_heartbeat (ap_state ap') = now"
proof -
  obtain config where v: "validate_config io (request_of (settings_spec (ProxySettings_default route))) = Ok config"
    using default_request_valid [OF assms(1)] by blast
  obtain k where k: "be_enable be (settings_of io config) (ap_kernel ap) = (Ok (), k)" using assms(3) by blast
  show ?thesis using assms(2) v k
    by (auto simp: process_enable_def require_controller_def claim_controller_def commit_enable_def)
qed

text \<open>The default settings of the controller are settings the daemon takes.  The request that a switch sends for
  them, whatever the routing table of the machine says, passes the validation of the daemon; sent by a session while nobody
  else owns the controller, and with a backend that installs it, it is answered by \<open>RoutingEnabled\<close> and leaves the
  routing active for that session.\<close>

theorem default_settings_enable_routing:
  assumes "parses_defaults io" "active_session (ap_state ap) \<in> {None, Some sid}"
    and "\<forall>settings. \<exists>k. be_enable be settings (ap_kernel ap) = (Ok (), k)"
  shows "\<exists>ap'. process_request io be (EnableRouting sid (request_of (settings_spec (ProxySettings_default route)))) sid now ap
      = (Ok RoutingEnabled, ap') \<and>
    routing_active (ap_state ap') \<and> active_session (ap_state ap') = Some sid \<and> last_heartbeat (ap_state ap') = now"
  using assms by (rule default_request_enables)

text \<open>A parser that knows these subnets, and a backend that keeps the settings it was given.\<close>

definition default_nets :: ipnet_ops where
  "default_nets = \<lparr>parse_net4 = (\<lambda>s. Ok (0, if s = ''10.0.0.0/8'' then 8 else if s = ''172.16.0.0/12'' then 12 else 16)),
     parse_net6 = (\<lambda>s. Ok (0, 7)), show_net4 = (\<lambda>n. ''net''), show_net6 = (\<lambda>n. ''net'')\<rparr>"

theorem default_settings_enable_routing_witness:
  "\<exists>ap'. process_request default_nets recorder
      (EnableRouting 7 (request_of (settings_spec (ProxySettings_default None)))) 7 5 \<lparr>ap_state = initial_state 0, ap_kernel = []\<rparr>
      = (Ok RoutingEnabled, ap') \<and>
    routing_active (ap_state ap') \<and> active_session (ap_state ap') = Some 7 \<and> last_heartbeat (ap_state ap') = 5"
  by (rule default_settings_enable_routing)
     (simp_all add: parses_defaults_def default_nets_def initial_state_def recorder_def)

text \<open>
  Claim C22.  Routing lives on heartbeats alone.  The request of a switch with the default settings enables routing, the
  daemon leaves it alone for five seconds, and at its sixth look it has taken it down unless the client's heartbeat
  thread has spoken.  Nothing in the program starts that thread: \<open>start_netd_heartbeat\<close> has no caller, so this
  is what happens after every switch.
\<close>

theorem unattended_routing_expires:
  assumes "parses_defaults io" and "active_session (ap_state ap) \<in> {None, Some sid}"
    and "\<forall>settings. \<exists>k. be_enable (choose_backend env is_root no) settings (ap_kernel ap) = (Ok (), k)"
  shows "\<exists>ap'. process_request io (choose_backend env is_root no)
        (EnableRouting sid (request_of (settings_spec (ProxySettings_default route)))) sid now ap = (Ok RoutingEnabled, ap') \<and>
      routing_active (ap_state ap') \<and> watchdog_run io (choose_backend env is_root no) now 5 ap' = ap' \<and>
      \<not> routing_active (ap_state (watchdog_run io (choose_backend env is_root no) now 6 ap'))"
proof -
  obtain ap' where ap': "process_request io (choose_backend env is_root no)
        (EnableRouting sid (request_of (settings_spec (ProxySettings_default route)))) sid now ap = (Ok RoutingEnabled, ap')"
    "routing_active (ap_state ap')" "last_heartbeat (ap_state ap') = now"
    using default_request_enables[OF assms] by blast
  have "watchdog_run io (choose_backend env is_root no) now 5 ap' = ap'"
    by (rule watchdog_run_quiet) (use ap'(3) in simp)
  moreover have "from_secs 5 < from_secs 6" by (simp add: from_secs_def)
  then have "\<not> routing_active (ap_state (watchdog_run io (choose_backend env is_root no) now 6 ap'))"
    using watchdog_run_fires[of ap' now 6 io env is_root no] ap'(3) by auto
  ultimately show ?thesis using ap'(1,2) by blast
qed

theorem unattended_routing_expires_witness:
  "\<exists>ap' :: unit app. process_request default_nets (choose_backend (Some ''netfilter'') True (host_ops obliging_host))
        (EnableRouting 7 (request_of (settings_spec (ProxySettings_default None)))) 7 5 \<lparr>ap_state = initial_state 0, ap_kernel = ()\<rparr>
        = (Ok RoutingEnabled, ap') \<and>
      routing_active (ap_state ap') \<and> watchdog_run default_nets (choose_backend (Some ''netfilter'') True (host_ops obliging_host)) 5 5 ap' = ap' \<and>
      \<not> routing_active (ap_state (watchdog_run default_nets (choose_backend (Some ''netfilter'') True (host_ops obliging_host)) 5 6 ap'))"
proof (rule unattended_routing_expires)
  show "parses_defaults default_nets" by (simp add: parses_defaults_def default_nets_def)
  show "\<forall>settings. \<exists>k. be_enable (choose_backend (Some ''netfilter'') True (host_ops obliging_host)) settings
      (ap_kernel \<lparr>ap_state = initial_state 0, ap_kernel = ()\<rparr>) = (Ok (), k)"
    by (simp add: choose_backend_def NftablesBackend_def nftables_enable_def host_ops_def ensure_prerequisites_def
        obliging_host_def install_policy_routing_def policy_args_def run_ip_def apply_ruleset_def)
qed (simp add: initial_state_def)

text \<open>A connection that carries nothing but heartbeats.\<close>

fun heartbeats_only :: "frame_event list \<Rightarrow> bool" where
  "heartbeats_only [] = True"
| "heartbeats_only (Req now writable (Heartbeat sid n) # fs) = heartbeats_only fs"
| "heartbeats_only (f # fs) = False"

lemma serve_heartbeats_idle:
  assumes "heartbeats_only fs" "\<not> routing_active (ap_state ap)" "\<forall>reply \<in> set sent0. \<exists>e. reply = ErrorReply e"
    and "serve io be sid fs ap sent0 = (r, sent, ap')"
  shows "\<not> routing_active (ap_state ap') \<and> ap_kernel ap' = ap_kernel ap \<and> (\<forall>reply \<in> set sent. \<exists>e. reply = ErrorReply e)"
  using assms
proof (induction fs arbitrary: sent0)
  case Nil
  thus ?case by (auto simp: on_disconnect_def release_session_def split: if_splits)
next
  case (Cons f fs)
  obtain now writable s n where f: "f = Req now writable (Heartbeat s n)" "heartbeats_only fs"
    using Cons.prems(1) by (cases "f # fs" rule: heartbeats_only.cases) auto
  obtain e where pr: "process_request io be (Heartbeat s n) sid now ap = (Err e, ap)"
    using assms(2) by (cases "s = sid") (simp_all add: require_controller_def heartbeat_allowed_def)
  show ?case
  proof (cases writable)
    case True
    hence "serve io be sid fs ap (sent0 @ [ErrorReply e]) = (r, sent, ap')" using Cons.prems(4) pr f by simp
    moreover have "\<forall>reply \<in> set (sent0 @ [ErrorReply e]). \<exists>e. reply = ErrorReply e" using Cons.prems(3) by simp
    ultimately show ?thesis using Cons.IH [OF f(2) assms(2)] by blast
  next
    case False
    thus ?thesis using Cons.prems pr f by auto
  qed
qed

text \<open>Claim C24: a client that reconnects has lost its routing and does not get it back.  The connection it gives up ends, and
  the daemon takes down the rules of the session that owned them; on any later connection that carries the heartbeats of the
  client's thread, and nothing else, every reply is an error, routing stays off and the kernel stays as it is.\<close>

theorem reconnect_loses_routing:
  assumes "active_session (ap_state ap) = Some sid" "routing_active (ap_state ap)" "heartbeats_only fs"
    and "on_disconnect io (choose_backend env is_root no) sid ap = (r, ap1)"
    and "serve io (choose_backend env is_root no) sid2 fs ap1 [] = (r2, sent, ap2)"
  shows "be_disable (choose_backend env is_root no) (map_option (settings_of io) (routing_config (ap_state ap))) (ap_kernel ap)
      = (Ok (), ap_kernel ap2) \<and>
    \<not> routing_active (ap_state ap2) \<and> (\<forall>reply \<in> set sent. \<exists>e. reply = ErrorReply e)"
proof -
  let ?be = "choose_backend env is_root no"
  obtain k where k: "be_disable ?be (map_option (settings_of io) (routing_config (ap_state ap))) (ap_kernel ap) = (Ok (), k)"
    by (rule chosen.disable_cases)
  hence ap1: "ap1 = ap\<lparr>ap_kernel := k, ap_state := commit_rollback (ap_state ap)\<rparr>"
    using assms(1,2,4) by (simp add: on_disconnect_def rollback_def)
  hence "\<not> routing_active (ap_state ap1)" "ap_kernel ap1 = k" by (simp_all add: commit_rollback_def)
  thus ?thesis using serve_heartbeats_idle [OF assms(3) _ _ assms(5)] k by auto
qed

theorem reconnect_loses_routing_witness:
  "let st = \<lparr>active_session = Some 3, routing_active = True, last_heartbeat = 0, routing_config = None\<rparr>;
       be = choose_backend None False reject_ops in
   case on_disconnect default_nets be 3 \<lparr>ap_state = st, ap_kernel = []\<rparr> of (r, ap1) \<Rightarrow>
   case serve default_nets be 4 [Req 9 True (Heartbeat 4 0)] ap1 [] of (r2, sent, ap2) \<Rightarrow>
     \<not> routing_active (ap_state ap2) \<and> length sent = 1 \<and> (\<forall>reply \<in> set sent. \<exists>e. reply = ErrorReply e)"
proof -
  let ?st = "\<lparr>active_session = Some 3, routing_active = True, last_heartbeat = 0, routing_config = None\<rparr> :: daemon_state"
  let ?be = "choose_backend None False reject_ops" and ?ap = "\<lparr>ap_state = ?st, ap_kernel = []\<rparr> :: string list list app"
  let ?fs = "[Req 9 True (Heartbeat 4 0)]"
  obtain r ap1 where d: "on_disconnect default_nets ?be 3 ?ap = (r, ap1)" by fastforce
  obtain r2 sent ap2 where sv: "serve default_nets ?be 4 ?fs ap1 [] = (r2, sent, ap2)" by (metis prod_cases3)
  have "length sent = 1" using sv by (auto split: prod.splits)
  moreover have "\<not> routing_active (ap_state ap2) \<and> (\<forall>reply \<in> set sent. \<exists>e. reply = ErrorReply e)"
    using reconnect_loses_routing [OF _ _ _ d sv] by simp
  ultimately show ?thesis using d sv by (simp add: Let_def del: serve.simps)
qed

end
